(* ===== verification/Prelude.thy ===== *)
theory Prelude
  imports Complex_Main "HOL-Library.Word" "HOL-Library.Signed_Division"
begin

unbundle bit_operations_syntax

text \<open>
  Shared vocabulary of the development: the machine types of the Rust sources, the
  overflow behaviour of their arithmetic, big-endian byte codecs, and the generic lemmas
  and fact collections the component theories use.

  Unsigned integers that the code masks, shifts or packs into bytes (\<open>u8\<close>, \<open>u16\<close>,
  \<open>u32\<close>, \<open>u64\<close>) are words. The signed integers (\<open>i8\<close>, \<open>i32\<close>, \<open>i64\<close>) carry times,
  offsets and intervals; they are HOL integers whose operations are written with the
  overflow rule the source asks for: \<open>saturating_add\<close> and \<open>saturating_sub\<close> clamp
  (\<open>sat_i64\<close>), the plain operators wrap as in a release build (\<open>wrap_i64\<close>).
\<close>

section \<open>Machine integers\<close>

type_synonym u8 = "8 word"
type_synonym u16 = "16 word"
type_synonym u32 = "32 word"
type_synonym u64 = "64 word"
type_synonym i64 = int
type_synonym i32 = int
type_synonym i8 = int

text \<open>Facts about the ranges of machine integers, and preservation facts of operations.\<close>

named_theorems range_simps
named_theorems step_inv

definition i64_min :: int where "i64_min = - 9223372036854775808"
definition i64_max :: int where "i64_max = 9223372036854775807"

definition in_i64 :: "int \<Rightarrow> bool" where
  "in_i64 x \<longleftrightarrow> i64_min \<le> x \<and> x \<le> i64_max"

definition sat_i64 :: "int \<Rightarrow> int" where
  "sat_i64 x = (if x < i64_min then i64_min else if x > i64_max then i64_max else x)"

definition wrap_i64 :: "int \<Rightarrow> int" where
  "wrap_i64 x = (x + 9223372036854775808) mod 18446744073709551616 - 9223372036854775808"

definition wrap_i32 :: "int \<Rightarrow> int" where
  "wrap_i32 x = (x + 2147483648) mod 4294967296 - 2147483648"

definition sat_add :: "int \<Rightarrow> int \<Rightarrow> int" where "sat_add a b = sat_i64 (a + b)"
definition sat_sub :: "int \<Rightarrow> int \<Rightarrow> int" where "sat_sub a b = sat_i64 (a - b)"
definition sat_mul :: "int \<Rightarrow> int \<Rightarrow> int" where "sat_mul a b = sat_i64 (a * b)"

definition clamp_int :: "int \<Rightarrow> int \<Rightarrow> int \<Rightarrow> int" where
  "clamp_int lo hi x = (if x < lo then lo else if x > hi then hi else x)"

definition sat_inc :: "'a::len word \<Rightarrow> 'a word" where
  "sat_inc w = (if w = - 1 then w else w + 1)"

definition u64_sat_add :: "u64 \<Rightarrow> u64 \<Rightarrow> u64" where
  "u64_sat_add a b = (if a \<le> - 1 - b then a + b else - 1)"

lemma wrap_i32_id [range_simps]: "- 2147483648 \<le> x \<Longrightarrow> x < 2147483648 \<Longrightarrow> wrap_i32 x = x"
  by (simp add: wrap_i32_def)

lemma u64_sat_add_uint: "uint (u64_sat_add a b) = min (2 ^ 64 - 1) (uint a + uint b)"
proof -
  have b: "uint (- 1 - b) = 2 ^ 64 - 1 - uint b"
    using uint_sub_lem[of b "- 1 :: u64"] uint_lt2p[of b]
    by (simp add: unsigned_minus_1_eq_mask mask_eq_exp_minus_1)
  show ?thesis
  proof (cases "a \<le> - 1 - b")
    case True
    then have "uint a + uint b \<le> 2 ^ 64 - 1" using b by (simp add: word_le_def)
    with True show ?thesis by (simp add: u64_sat_add_def uint_word_ariths(1))
  next
    case False
    then have "uint a + uint b > 2 ^ 64 - 1" using b by (simp add: word_le_def)
    with False show ?thesis
      by (simp add: u64_sat_add_def unsigned_minus_1_eq_mask mask_eq_exp_minus_1)
  qed
qed

lemma sat_i64_id [range_simps]: "in_i64 x \<Longrightarrow> sat_i64 x = x"
  by (auto simp: in_i64_def sat_i64_def)

lemma wrap_i64_id [range_simps]: "in_i64 x \<Longrightarrow> wrap_i64 x = x"
  by (auto simp: in_i64_def wrap_i64_def i64_min_def i64_max_def)

lemma sat_i64_range [simp]: "in_i64 (sat_i64 x)"
  by (auto simp: in_i64_def sat_i64_def i64_min_def i64_max_def)

lemma wrap_i64_range [simp]: "in_i64 (wrap_i64 x)"
  by (simp add: in_i64_def wrap_i64_def i64_min_def i64_max_def)

lemma sat_ops_range [simp]:
  "in_i64 (sat_add a b)" "in_i64 (sat_sub a b)" "in_i64 (sat_mul a b)"
  by (simp_all add: sat_add_def sat_sub_def sat_mul_def)

lemma sat_sub_id: "in_i64 (a - b) \<Longrightarrow> sat_sub a b = a - b"
  by (simp add: sat_sub_def sat_i64_id)

lemma sat_add_id: "in_i64 (a + b) \<Longrightarrow> sat_add a b = a + b"
  by (simp add: sat_add_def sat_i64_id)

lemma sat_sub_mono: "a \<le> a' \<Longrightarrow> b' \<le> b \<Longrightarrow> sat_sub a b \<le> sat_sub a' b'"
  by (auto simp: sat_sub_def sat_i64_def i64_min_def i64_max_def)

lemma sat_sub_le_iff:
  assumes "in_i64 k"
  shows "sat_sub a b \<le> k \<longleftrightarrow> k = i64_max \<or> a - b \<le> k"
  using assms by (auto simp: sat_sub_def sat_i64_def in_i64_def i64_min_def i64_max_def)

lemma sat_sub_less_iff:
  assumes "i64_min < k" "k \<le> i64_max"
  shows "sat_sub a b < k \<longleftrightarrow> a - b < k"
  using assms by (auto simp: sat_sub_def sat_i64_def i64_min_def i64_max_def)

lemma small_i64: "- 1000000000000 \<le> x \<Longrightarrow> x \<le> 1000000000000 \<Longrightarrow> in_i64 x"
  by (simp add: in_i64_def i64_min_def i64_max_def)

lemma sdiv_nonneg: "0 \<le> k \<Longrightarrow> 0 < l \<Longrightarrow> k sdiv l = k div (l :: int)"
  by (cases "k = 0") (simp_all add: signed_divide_int_def sgn_if)

lemma word_bit_bound:
  assumes "bit w n" "unat w < 2 ^ k"
  shows "n < k"
proof -
  have "bit (unat w) n" using assms(1) bit_imp_le_length[OF assms(1)] by (simp add: bit_unsigned_iff)
  then have "odd (unat w div 2 ^ n)" by (simp add: bit_iff_odd)
  then have "unat w div 2 ^ n \<noteq> 0" by (rule contrapos_pn) simp
  then have "2 ^ n \<le> unat w" by (metis div_less not_less)
  with assms(2) have "(2 :: nat) ^ n < 2 ^ k" by linarith
  then show ?thesis by simp
qed

section \<open>Big-endian byte codecs\<close>

lemma unat_small: "v < 256 \<Longrightarrow> unat (of_nat v :: u8) = v"
  by (simp add: unat_of_nat)

text \<open>\<open>to_be_bytes\<close> and \<open>from_be_bytes\<close> of the standard library, for each width.\<close>

definition be16 :: "u16 \<Rightarrow> u8 list" where
  "be16 w = [ucast (drop_bit 8 w), ucast w]"

definition be32 :: "u32 \<Rightarrow> u8 list" where
  "be32 w = [ucast (drop_bit 24 w), ucast (drop_bit 16 w), ucast (drop_bit 8 w), ucast w]"

definition be64 :: "u64 \<Rightarrow> u8 list" where
  "be64 w = [ucast (drop_bit 56 w), ucast (drop_bit 48 w), ucast (drop_bit 40 w),
             ucast (drop_bit 32 w), ucast (drop_bit 24 w), ucast (drop_bit 16 w),
             ucast (drop_bit 8 w), ucast w]"

definition from_be16 :: "u8 \<Rightarrow> u8 \<Rightarrow> u16" where
  "from_be16 a b = push_bit 8 (ucast a) OR ucast b"

definition from_le16 :: "u8 \<Rightarrow> u8 \<Rightarrow> u16" where
  "from_le16 a b = from_be16 b a"

definition from_be32 :: "u8 \<Rightarrow> u8 \<Rightarrow> u8 \<Rightarrow> u8 \<Rightarrow> u32" where
  "from_be32 a b c d =
     push_bit 24 (ucast a) OR push_bit 16 (ucast b) OR push_bit 8 (ucast c) OR ucast d"

fun from_be64 :: "u8 list \<Rightarrow> u64 option" where
  "from_be64 [a, b, c, d, e, f, g, h] = Some
     (push_bit 56 (ucast a) OR push_bit 48 (ucast b) OR push_bit 40 (ucast c) OR
      push_bit 32 (ucast d) OR push_bit 24 (ucast e) OR push_bit 16 (ucast f) OR
      push_bit 8 (ucast g) OR ucast h)"
| "from_be64 _ = None"

lemma length_be [simp]: "length (be16 a) = 2" "length (be32 b) = 4" "length (be64 c) = 8"
  by (simp_all add: be16_def be32_def be64_def)

lemma bit_be_byte:
  fixes w :: "'a::len word"
  shows "bit (push_bit k (ucast (ucast (drop_bit k w) :: u8)) :: 'a word) n \<longleftrightarrow>
    k \<le> n \<and> n < k + 8 \<and> bit w n"
  by (auto simp: bit_simps dest: bit_imp_le_length)

lemma bit_low_byte:
  fixes w :: "'a::len word"
  shows "bit (ucast (ucast w :: u8) :: 'a word) n \<longleftrightarrow> n < 8 \<and> bit w n"
  by (auto simp: bit_simps dest: bit_imp_le_length)

lemma be16_inverse: "be16 (from_be16 a b) = [a, b]"
proof -
  have "\<not> bit b (8 + n)" for n using bit_imp_le_length[of b "8 + n"] by auto
  then show ?thesis
    unfolding be16_def from_be16_def by (auto intro!: bit_word_eqI simp: bit_simps)
qed

lemma from_be16_inverse: "from_be16 (ucast (drop_bit 8 w)) (ucast w) = w"
  unfolding from_be16_def
  by (rule bit_word_eqI) (simp only: bit_or_iff bit_be_byte bit_low_byte, auto)

lemma from_be32_inverse:
  "from_be32 (ucast (drop_bit 24 w)) (ucast (drop_bit 16 w)) (ucast (drop_bit 8 w)) (ucast w) = w"
  unfolding from_be32_def
  by (rule bit_word_eqI) (simp only: bit_or_iff bit_be_byte bit_low_byte, auto)

lemma from_be64_inverse [simp]: "from_be64 (be64 w) = Some w"
  unfolding be64_def from_be64.simps option.inject
  by (rule bit_word_eqI) (simp only: bit_or_iff bit_be_byte bit_low_byte, auto)

end
