(* ===== verification/IEEE_Float.thy ===== *)
theory IEEE_Float
  imports Prelude "HOL-Library.Log_Nat"
begin

text \<open>
  Executable IEEE 754 arithmetic for Rust's \<open>f64\<close> and \<open>f32\<close>: values are exact rationals
  plus the signed zero, the infinities and NaN; every operation computes the exact
  rational result and rounds it to the nearest representable number, ties to even, with
  gradual underflow and overflow to infinity. The \<open>as\<close> casts, \<open>max\<close>, \<open>clamp\<close>,
  \<open>floor\<close> and \<open>round\<close> follow the standard library.

  The locale \<open>rounding\<close> states what the callers use of a rounding function (monotone, odd,
  exact on the representable integers and on powers of two); it is interpreted on the
  model's own rounding for both formats.
\<close>

section \<open>Rounding\<close>

record fformat =
  prec :: nat
  emin :: int
  emax :: int

definition F64 :: fformat where "F64 = \<lparr>prec = 53, emin = - 1074, emax = 1024\<rparr>"
definition F32 :: fformat where "F32 = \<lparr>prec = 24, emin = - 149, emax = 128\<rparr>"

definition rne :: "rat \<Rightarrow> int" where
  "rne x = (let f = \<lfloor>x\<rfloor>; d = x - of_int f
            in if d < 1/2 then f else if d > 1/2 then f + 1 else if even f then f else f + 1)"

definition ilog2 :: "rat \<Rightarrow> int" where
  "ilog2 x = (if 1 \<le> x then int (floorlog 2 (nat \<lfloor>x\<rfloor>)) - 1
              else - int (floorlog 2 (nat (\<lceil>1 / x\<rceil> - 1))))"

definition ulp_exp :: "fformat \<Rightarrow> rat \<Rightarrow> int" where
  "ulp_exp F x = max (ilog2 \<bar>x\<bar> - int (prec F) + 1) (emin F)"

definition rnd :: "fformat \<Rightarrow> rat \<Rightarrow> rat" where
  "rnd F x = (if x = 0 then 0
              else of_int (rne (x / 2 powi ulp_exp F x)) * 2 powi ulp_exp F x)"

lemma rne_error: "\<bar>of_int (rne x) - x\<bar> \<le> 1/2"
  unfolding rne_def Let_def by (auto simp: abs_if) linarith+

lemma rne_of_int [simp]: "rne (of_int n) = n"
  by (simp add: rne_def)

lemma rne_floor: "rne x = \<lfloor>x\<rfloor> \<or> rne x = \<lfloor>x\<rfloor> + 1"
  by (simp add: rne_def Let_def)

lemma rne_le_of_int: "x \<le> of_int n \<Longrightarrow> rne x \<le> n"
  unfolding rne_def Let_def by (auto; linarith)

lemma of_int_le_rne: "of_int n \<le> x \<Longrightarrow> n \<le> rne x"
  unfolding rne_def Let_def by (auto; linarith)

lemma rne_mono: "x \<le> y \<Longrightarrow> rne x \<le> rne y"
proof -
  assume le: "x \<le> y"
  then have fl: "\<lfloor>x\<rfloor> \<le> \<lfloor>y\<rfloor>" by (rule floor_mono)
  show ?thesis
  proof (cases "\<lfloor>x\<rfloor> = \<lfloor>y\<rfloor>")
    case True
    with le show ?thesis unfolding rne_def Let_def by auto
  next
    case False
    with fl have "\<lfloor>x\<rfloor> + 1 \<le> \<lfloor>y\<rfloor>" by simp
    moreover have "rne x \<le> \<lfloor>x\<rfloor> + 1" using rne_floor[of x] by auto
    moreover have "\<lfloor>y\<rfloor> \<le> rne y" using rne_floor[of y] by auto
    ultimately show ?thesis by linarith
  qed
qed

lemma rne_minus: "rne (- x) = - rne x"
proof (cases "x = of_int \<lfloor>x\<rfloor>")
  case True
  then obtain n where "x = of_int n" by blast
  then show ?thesis by (metis rne_of_int of_int_minus)
next
  case False
  then have "\<lfloor>- x\<rfloor> = - \<lfloor>x\<rfloor> - 1" by linarith
  then show ?thesis unfolding rne_def Let_def by auto
qed

lemma ilog2_bounds:
  assumes "0 < x"
  shows "2 powi ilog2 x \<le> x" and "x < 2 powi (ilog2 x + 1)"
proof -
  have *: "2 powi ilog2 x \<le> x \<and> x < 2 powi (ilog2 x + 1)"
  proof (cases "1 \<le> x")
    case True
    define n where "n = nat \<lfloor>x\<rfloor>"
    define k where "k = floorlog 2 n"
    have n: "0 < n" "of_nat n \<le> x" "x < of_nat n + 1"
      using True unfolding n_def by linarith+
    have k: "2 ^ (k - 1) \<le> n" "n < 2 ^ k"
      using floorlog_bounds[of n 2] n(1) by (auto simp: k_def)
    have kpos: "0 < k" using k n(1) by (cases k) auto
    have e: "ilog2 x = int (k - 1)" "ilog2 x + 1 = int k"
      using True kpos by (simp_all add: ilog2_def k_def n_def of_nat_diff)
    have "(2::rat) ^ (k - 1) \<le> of_nat n" using k(1) by (metis of_nat_le_iff of_nat_numeral of_nat_power)
    moreover have "of_nat n + 1 \<le> (2::rat) ^ k"
      using k(2) by (metis Suc_leI of_nat_Suc of_nat_le_iff of_nat_numeral of_nat_power add.commute)
    ultimately show ?thesis
      using n by (simp only: e(2) power_int_of_nat) (simp only: e(1) power_int_of_nat, linarith)
  next
    case False
    define y where "y = 1 / x"
    have y: "1 < y" using False assms by (simp add: y_def field_simps)
    define n where "n = nat (\<lceil>y\<rceil> - 1)"
    define k where "k = floorlog 2 n"
    have n: "0 < n" "of_nat n < y" "y \<le> of_nat n + 1"
      using y unfolding n_def by linarith+
    have k: "2 ^ (k - 1) \<le> n" "n < 2 ^ k"
      using floorlog_bounds[of n 2] n(1) by (auto simp: k_def)
    have kpos: "0 < k" using k n(1) by (cases k) auto
    have e: "ilog2 x = - int k" "ilog2 x + 1 = - int (k - 1)"
      using False kpos by (simp_all add: ilog2_def k_def n_def y_def of_nat_diff)
    have "(2::rat) ^ (k - 1) \<le> of_nat n" using k(1) by (metis of_nat_le_iff of_nat_numeral of_nat_power)
    then have lo: "2 ^ (k - 1) < y" using n by linarith
    have "of_nat n + 1 \<le> (2::rat) ^ k"
      using k(2) by (metis Suc_leI of_nat_Suc of_nat_le_iff of_nat_numeral of_nat_power add.commute)
    then have hi: "y \<le> 2 ^ k" using n by linarith
    have x: "x = 1 / y" by (simp add: y_def)
    have "2 powi ilog2 x = 1 / (2::rat) ^ k" "2 powi (ilog2 x + 1) = 1 / (2::rat) ^ (k - 1)"
      by (simp_all only: e(2)) (simp_all only: e(1) power_int_minus power_int_of_nat divide_inverse mult_1)
    moreover have "1 / 2 ^ k \<le> x" "x < 1 / 2 ^ (k - 1)"
      using lo hi y unfolding x by (simp_all add: field_simps)
    ultimately show ?thesis by simp
  qed
  then show "2 powi ilog2 x \<le> x" and "x < 2 powi (ilog2 x + 1)" by blast+
qed

lemma powi_less_iff [simp]: "(2::rat) powi a < 2 powi b \<longleftrightarrow> a < b"
  by (metis one_less_numeral_iff power_int_strict_increasing power_int_increasing
      semiring_norm(76) linorder_not_less order.strict_implies_order not_less_iff_gr_or_eq)

lemma powi_le_iff [simp]: "(2::rat) powi a \<le> 2 powi b \<longleftrightarrow> a \<le> b"
  by (metis powi_less_iff linorder_not_less)

lemma ilog2_eqI: "2 powi e \<le> x \<Longrightarrow> x < 2 powi (e + 1) \<Longrightarrow> ilog2 x = e"
  using ilog2_bounds[of x]
  by (smt (verit) powi_less_iff zero_less_power_int order.strict_trans1 order.strict_trans2 zero_less_numeral)

lemma ilog2_less:
  assumes "0 < x" "x < 2 powi k"
  shows "ilog2 x < k"
  using ilog2_bounds(1)[OF assms(1)] assms(2) by (meson order.strict_trans1 powi_less_iff)

lemma ilog2_mono: "0 < x \<Longrightarrow> x \<le> y \<Longrightarrow> ilog2 x \<le> ilog2 y"
  using ilog2_less[of x "ilog2 y + 1"] ilog2_bounds(2)[of y] by fastforce

lemma rnd_0 [simp]: "rnd F 0 = 0"
  by (simp add: rnd_def)

lemma rnd_minus: "rnd F (- x) = - rnd F x"
  by (simp add: rnd_def ulp_exp_def rne_minus)

text \<open>A multiple of the rounding unit bounds the rounded value as it bounds the value.\<close>

lemma rnd_le_multiple:
  assumes "x \<le> of_int m * 2 powi e" "ulp_exp F x \<le> e"
  shows "rnd F x \<le> of_int m * 2 powi e"
proof (cases "x = 0")
  case True with assms show ?thesis by simp
next
  case False
  let ?u = "ulp_exp F x"
  obtain d where d: "e = ?u + int d" using assms(2) by (metis zle_iff_zadd)
  have m: "of_int m * 2 powi e = of_int (m * 2 ^ d) * (2::rat) powi ?u"
    by (simp add: d power_int_add)
  have "x / 2 powi ?u \<le> of_int (m * 2 ^ d)"
    using assms(1) unfolding m by (simp add: field_simps)
  then have "rne (x / 2 powi ?u) \<le> m * 2 ^ d" by (rule rne_le_of_int)
  then have "of_int (rne (x / 2 powi ?u)) * (2::rat) powi ?u \<le> of_int (m * 2 ^ d) * 2 powi ?u"
    by (intro mult_right_mono) (simp_all del: of_int_mult of_int_power)
  then show ?thesis using False unfolding m by (simp add: rnd_def)
qed

lemma ulp_exp_minus [simp]: "ulp_exp F (- x) = ulp_exp F x"
  by (simp add: ulp_exp_def)

lemma rnd_ge_multiple:
  assumes "of_int m * 2 powi e \<le> x" "ulp_exp F x \<le> e"
  shows "of_int m * 2 powi e \<le> rnd F x"
  using rnd_le_multiple[of "- x" "- m" e F] assms by (simp add: rnd_minus)

lemma rnd_exact:
  assumes "x = of_int m * 2 powi e" "ulp_exp F x \<le> e"
  shows "rnd F x = x"
  using rnd_le_multiple[of x m e F] rnd_ge_multiple[of m e x F] assms by fastforce

lemma ulp_exp_mono: "0 < \<bar>x\<bar> \<Longrightarrow> \<bar>x\<bar> \<le> \<bar>y\<bar> \<Longrightarrow> ulp_exp F x \<le> ulp_exp F y"
  using ilog2_mono[of "\<bar>x\<bar>" "\<bar>y\<bar>"] by (auto simp: ulp_exp_def)

lemma rnd_nonneg: "0 \<le> x \<Longrightarrow> 0 \<le> rnd F x"
  using rnd_ge_multiple[of 0 "ulp_exp F x" x F] by simp

lemma rnd_mono_pos:
  assumes "0 < x" "x \<le> y" "0 < prec F"
  shows "rnd F x \<le> rnd F y"
proof (cases "ulp_exp F x = ulp_exp F y")
  case True
  have "x / 2 powi ulp_exp F y \<le> y / 2 powi ulp_exp F y"
    using assms by (simp add: divide_right_mono)
  then have "rne (x / 2 powi ulp_exp F y) \<le> rne (y / 2 powi ulp_exp F y)" by (rule rne_mono)
  then show ?thesis using assms True by (simp add: rnd_def mult_right_mono)
next
  case False
  let ?e = "ilog2 y"
  have "ulp_exp F x \<le> ulp_exp F y" using assms by (intro ulp_exp_mono) auto
  with False have lt: "ulp_exp F x < ulp_exp F y" by simp
  then have uy: "ulp_exp F y = ?e - int (prec F) + 1" and lx: "ilog2 x < ?e"
    using assms by (auto simp: ulp_exp_def)
  have ey: "ulp_exp F y \<le> ?e" using uy assms(3) by simp
  have "x < 2 powi (ilog2 x + 1)" using ilog2_bounds(2) assms by simp
  also have "\<dots> \<le> 2 powi ?e" using lx by simp
  finally have "rnd F x \<le> of_int 1 * 2 powi ?e" using lt ey by (intro rnd_le_multiple) auto
  also have "\<dots> \<le> rnd F y"
    using ilog2_bounds(1)[of y] assms ey by (intro rnd_ge_multiple) auto
  finally show ?thesis .
qed

lemma rnd_mono:
  assumes "x \<le> y" "0 < prec F"
  shows "rnd F x \<le> rnd F y"
proof -
  consider "0 < x" | "x \<le> 0" "0 \<le> y" | "y < 0" by linarith
  then show ?thesis
  proof cases
    case 1 with assms show ?thesis by (intro rnd_mono_pos)
  next
    case 2
    have "0 \<le> rnd F (- x)" "0 \<le> rnd F y" using 2 by (auto intro: rnd_nonneg)
    then show ?thesis by (simp add: rnd_minus)
  next
    case 3
    have "rnd F (- y) \<le> rnd F (- x)" using 3 assms by (intro rnd_mono_pos) auto
    then show ?thesis by (simp add: rnd_minus)
  qed
qed

lemma rnd_int:
  assumes "\<bar>n\<bar> < 2 ^ prec F" "emin F \<le> 0"
  shows "rnd F (of_int n) = of_int n"
proof (cases "n = 0")
  case True then show ?thesis by simp
next
  case False
  have "\<bar>of_int n :: rat\<bar> < 2 ^ prec F"
    using assms(1) by (metis of_int_abs of_int_less_iff of_int_numeral of_int_power)
  then have "ilog2 \<bar>of_int n\<bar> < int (prec F)"
    using False by (intro ilog2_less) (auto simp: power_int_of_nat)
  then have "ulp_exp F (of_int n) \<le> 0" using assms(2) by (simp add: ulp_exp_def)
  then show ?thesis by (intro rnd_exact[of _ n 0]) auto
qed

lemma rnd_powi:
  assumes "emin F \<le> k" "0 < prec F"
  shows "rnd F (2 powi k) = 2 powi k"
proof -
  have "ilog2 (2 powi k) = k" by (rule ilog2_eqI) auto
  then have "ulp_exp F (2 powi k) \<le> k" using assms by (simp add: ulp_exp_def)
  then show ?thesis by (intro rnd_exact[of _ 1 k]) auto
qed

text \<open>The error of one rounding: half a unit in the last place, hence relative to the value.\<close>

lemma rnd_error: "\<bar>rnd F x - x\<bar> \<le> 2 powi ulp_exp F x / 2"
proof (cases "x = 0")
  case False
  let ?u = "2 powi ulp_exp F x :: rat"
  have "\<bar>of_int (rne (x / ?u)) - x / ?u\<bar> * ?u \<le> 1 / 2 * ?u"
    by (intro mult_right_mono rne_error) simp
  also have "\<bar>of_int (rne (x / ?u)) - x / ?u\<bar> * ?u = \<bar>rnd F x - x\<bar>"
    using False by (simp add: rnd_def field_simps flip: abs_mult_pos)
  finally show ?thesis by simp
qed simp

lemma rnd_rel_error:
  assumes "2 powi (emin F + int (prec F) - 1) \<le> \<bar>x\<bar>"
  shows "\<bar>rnd F x - x\<bar> \<le> \<bar>x\<bar> * 2 powi (- int (prec F))"
proof -
  have "0 < (2::rat) powi (emin F + int (prec F) - 1)" by simp
  with assms have x: "0 < \<bar>x\<bar>" by linarith
  have "emin F + int (prec F) - 1 \<le> ilog2 \<bar>x\<bar>"
    using ilog2_mono[OF _ assms] ilog2_eqI[of "emin F + int (prec F) - 1" "2 powi (emin F + int (prec F) - 1)"]
    by simp
  then have u: "ulp_exp F x = ilog2 \<bar>x\<bar> - int (prec F) + 1" by (simp add: ulp_exp_def)
  have "2 powi ulp_exp F x / 2 = 2 powi ilog2 \<bar>x\<bar> * (2::rat) powi (- int (prec F))"
    by (simp add: u power_int_add power_int_diff power_int_minus field_simps)
  also have "\<dots> \<le> \<bar>x\<bar> * 2 powi (- int (prec F))"
    using ilog2_bounds(1)[OF x] by (intro mult_right_mono) auto
  finally show ?thesis using rnd_error[of F x] by linarith
qed

lemma rnd_abs_error:
  assumes "\<bar>x\<bar> < 2 powi k" "emin F + int (prec F) \<le> k"
  shows "\<bar>rnd F x - x\<bar> \<le> 2 powi (k - int (prec F) - 1)"
proof (cases "x = 0")
  case False
  then have "ilog2 \<bar>x\<bar> < k" using ilog2_less[of "\<bar>x\<bar>" k] assms(1) by simp
  then have "ulp_exp F x \<le> k - int (prec F)" using assms(2) by (simp add: ulp_exp_def)
  then have "2 powi ulp_exp F x \<le> (2::rat) powi (k - int (prec F))" by simp
  moreover have "(2::rat) powi (k - int (prec F) - 1) = 2 powi (k - int (prec F)) / 2"
    by (simp add: power_int_diff)
  ultimately show ?thesis using rnd_error[of F x] by linarith
qed simp

section \<open>The interface of a rounding function\<close>

text \<open>
  What the servo and the parsers rely on: the laws of the rounding of one format, from
  which bounds and overflow-freedom of every expression follow.
\<close>

locale rounding =
  fixes r :: "rat \<Rightarrow> rat"
    and p :: nat
    and top :: int
  assumes mono: "x \<le> y \<Longrightarrow> r x \<le> r y"
    and odd: "r (- x) = - r x"
    and int_exact: "\<bar>n\<bar> < 2 ^ p \<Longrightarrow> r (of_int n) = of_int n"
    and pow_exact: "0 \<le> k \<Longrightarrow> r (2 powi k) = 2 powi k"
    and rel_error: "1 \<le> \<bar>x\<bar> \<Longrightarrow> \<bar>r x - x\<bar> \<le> \<bar>x\<bar> * 2 powi (- int p)"
begin

lemma zero [simp]: "r 0 = 0"
  using int_exact[of 0] by simp

lemma nonneg: "0 \<le> x \<Longrightarrow> 0 \<le> r x"
  using mono[of 0 x] by simp

lemma nonpos: "x \<le> 0 \<Longrightarrow> r x \<le> 0"
  using mono[of x 0] by simp

lemma le_int: "x \<le> of_int n \<Longrightarrow> \<bar>n\<bar> < 2 ^ p \<Longrightarrow> r x \<le> of_int n"
  using mono[of x "of_int n"] by (simp add: int_exact)

lemma ge_int: "of_int n \<le> x \<Longrightarrow> \<bar>n\<bar> < 2 ^ p \<Longrightarrow> of_int n \<le> r x"
  using mono[of "of_int n" x] by (simp add: int_exact)

lemma abs_le_int: "\<bar>x\<bar> \<le> of_int n \<Longrightarrow> \<bar>n\<bar> < 2 ^ p \<Longrightarrow> \<bar>r x\<bar> \<le> of_int n"
  using le_int[of x n] ge_int[of "- n" x] by (auto simp: abs_le_iff)

lemma abs_le_pow: "\<bar>x\<bar> \<le> 2 powi k \<Longrightarrow> 0 \<le> k \<Longrightarrow> \<bar>r x\<bar> \<le> 2 powi k"
  using mono[of x "2 powi k"] mono[of "- (2 powi k)" x] by (auto simp: abs_le_iff pow_exact odd)

lemma abs_less_top: "\<bar>x\<bar> \<le> 2 powi k \<Longrightarrow> 0 \<le> k \<Longrightarrow> k < top \<Longrightarrow> \<bar>r x\<bar> < 2 powi top"
  using abs_le_pow[of x k] by (meson order.strict_trans1 powi_less_iff)

end

lemma rounding_rnd:
  assumes "0 < prec F" "emin F + int (prec F) \<le> 1"
  shows "rounding (rnd F) (prec F)"
proof unfold_locales
  fix x :: rat assume x: "1 \<le> \<bar>x\<bar>"
  have "2 powi (emin F + int (prec F) - 1) \<le> (2::rat) powi 0"
    using assms(2) by (simp only: powi_le_iff)
  with x have "2 powi (emin F + int (prec F) - 1) \<le> \<bar>x\<bar>" by simp
  then show "\<bar>rnd F x - x\<bar> \<le> \<bar>x\<bar> * 2 powi (- int (prec F))" by (rule rnd_rel_error)
qed (use assms in \<open>auto intro: rnd_mono rnd_minus rnd_int rnd_powi\<close>)

interpretation r64: rounding "rnd F64" 53 1024
  using rounding_rnd[of F64] by (simp add: F64_def)

interpretation r32: rounding "rnd F32" 24 128
  using rounding_rnd[of F32] by (simp add: F32_def)

section \<open>Values and operations\<close>

datatype fp = Num rat | NegZero | Inf bool | NaN

primrec fval :: "fp \<Rightarrow> rat" where
  "fval (Num x) = x"
| "fval NegZero = 0"
| "fval (Inf s) = 0"
| "fval NaN = 0"

primrec signbit :: "fp \<Rightarrow> bool" where
  "signbit (Num x) = (x < 0)"
| "signbit NegZero = True"
| "signbit (Inf s) = s"
| "signbit NaN = False"

primrec is_inf :: "fp \<Rightarrow> bool" where
  "is_inf (Num x) = False"
| "is_inf NegZero = False"
| "is_inf (Inf s) = True"
| "is_inf NaN = False"

definition is_fin :: "fp \<Rightarrow> bool" where
  "is_fin a \<longleftrightarrow> a \<noteq> NaN \<and> \<not> is_inf a"

text \<open>Round an exact result; \<open>z\<close> is the sign of an exact zero.\<close>

definition pack :: "fformat \<Rightarrow> bool \<Rightarrow> rat \<Rightarrow> fp" where
  "pack F z x =
     (let r = rnd F x; s = (if x = 0 then z else x < 0)
      in if r = 0 then (if s then NegZero else Num 0)
         else if 2 powi emax F \<le> \<bar>r\<bar> then Inf s else Num r)"

definition fint :: "fformat \<Rightarrow> int \<Rightarrow> fp" where
  "fint F n = pack F False (of_int n)"

definition flit :: "fformat \<Rightarrow> rat \<Rightarrow> fp" where
  "flit F x = pack F False x"

primrec fneg :: "fp \<Rightarrow> fp" where
  "fneg (Num x) = (if x = 0 then NegZero else Num (- x))"
| "fneg NegZero = Num 0"
| "fneg (Inf s) = Inf (\<not> s)"
| "fneg NaN = NaN"

definition fadd :: "fformat \<Rightarrow> fp \<Rightarrow> fp \<Rightarrow> fp" where
  "fadd F a b =
     (if a = NaN \<or> b = NaN then NaN
      else if is_inf a then (if is_inf b \<and> signbit a \<noteq> signbit b then NaN else a)
      else if is_inf b then b
      else pack F (signbit a \<and> signbit b) (fval a + fval b))"

definition fsub :: "fformat \<Rightarrow> fp \<Rightarrow> fp \<Rightarrow> fp" where
  "fsub F a b = fadd F a (fneg b)"

definition fmul :: "fformat \<Rightarrow> fp \<Rightarrow> fp \<Rightarrow> fp" where
  "fmul F a b =
     (if a = NaN \<or> b = NaN then NaN
      else if is_inf a \<or> is_inf b
        then (if is_fin a \<and> fval a = 0 \<or> is_fin b \<and> fval b = 0 then NaN
              else Inf (signbit a \<noteq> signbit b))
      else pack F (signbit a \<noteq> signbit b) (fval a * fval b))"

definition fdiv :: "fformat \<Rightarrow> fp \<Rightarrow> fp \<Rightarrow> fp" where
  "fdiv F a b =
     (if a = NaN \<or> b = NaN then NaN
      else if is_inf a then (if is_inf b then NaN else Inf (signbit a \<noteq> signbit b))
      else if is_inf b then pack F (signbit a \<noteq> signbit b) 0
      else if fval b = 0 then (if fval a = 0 then NaN else Inf (signbit a \<noteq> signbit b))
      else pack F (signbit a \<noteq> signbit b) (fval a / fval b))"

definition flt :: "fp \<Rightarrow> fp \<Rightarrow> bool" where
  "flt a b \<longleftrightarrow> a \<noteq> NaN \<and> b \<noteq> NaN \<and>
     (if is_inf a then signbit a \<and> \<not> (is_inf b \<and> signbit b)
      else if is_inf b then \<not> signbit b
      else fval a < fval b)"

definition feq :: "fp \<Rightarrow> fp \<Rightarrow> bool" where
  "feq a b \<longleftrightarrow> a \<noteq> NaN \<and> b \<noteq> NaN \<and>
     (if is_inf a \<or> is_inf b then a = b else fval a = fval b)"

definition fle :: "fp \<Rightarrow> fp \<Rightarrow> bool" where
  "fle a b \<longleftrightarrow> flt a b \<or> feq a b"

text \<open>\<open>f64::max\<close> ignores a NaN operand; \<open>f64::clamp\<close> keeps a NaN receiver.\<close>

definition fmax :: "fp \<Rightarrow> fp \<Rightarrow> fp" where
  "fmax a b = (if a = NaN then b else if b = NaN then a else if flt a b then b else a)"

definition fclamp :: "fp \<Rightarrow> fp \<Rightarrow> fp \<Rightarrow> fp" where
  "fclamp lo hi a = (let b = (if flt a lo then lo else a) in if flt hi b then hi else b)"

definition fabs :: "fp \<Rightarrow> fp" where
  "fabs a = (if signbit a then fneg a else a)"

definition ffloor :: "fp \<Rightarrow> fp" where
  "ffloor a = (case a of Num x \<Rightarrow> Num (of_int \<lfloor>x\<rfloor>) | _ \<Rightarrow> a)"

text \<open>\<open>round\<close>: half away from zero; a negative value that rounds to zero keeps its sign.\<close>

definition round_away :: "rat \<Rightarrow> int" where
  "round_away x = (if 0 \<le> x then \<lfloor>x + 1/2\<rfloor> else - \<lfloor>- x + 1/2\<rfloor>)"

definition fround :: "fp \<Rightarrow> fp" where
  "fround a = (case a of
       Num x \<Rightarrow> if x < 0 \<and> round_away x = 0 then NegZero else Num (of_int (round_away x))
     | _ \<Rightarrow> a)"

text \<open>The saturating \<open>as\<close> cast to an integer type with range \<open>lo..hi\<close>: NaN gives 0.\<close>

definition ftrunc :: "rat \<Rightarrow> int" where
  "ftrunc x = (if 0 \<le> x then \<lfloor>x\<rfloor> else \<lceil>x\<rceil>)"

definition fcast :: "int \<Rightarrow> int \<Rightarrow> fp \<Rightarrow> int" where
  "fcast lo hi a = (case a of
       Num x \<Rightarrow> clamp_int lo hi (ftrunc x)
     | NegZero \<Rightarrow> clamp_int lo hi 0
     | Inf s \<Rightarrow> (if s then lo else hi)
     | NaN \<Rightarrow> 0)"

text \<open>Conversion between formats (\<open>f32 as f64\<close>).\<close>

definition fconv :: "fformat \<Rightarrow> fp \<Rightarrow> fp" where
  "fconv F a = (case a of Num x \<Rightarrow> pack F False x | _ \<Rightarrow> a)"

section \<open>Finite arithmetic\<close>

text \<open>
  On finite operands, an operation whose exact result stays below the overflow threshold
  gives the rounded exact result: the facts \<open>fin_ops\<close> move a floating expression to \<open>rat\<close>.
\<close>

lemma is_fin_simps [simp]:
  "is_fin (Num x)" "is_fin NegZero" "\<not> is_fin (Inf s)" "\<not> is_fin NaN"
  by (simp_all add: is_fin_def)

lemma is_finE: "is_fin a \<Longrightarrow> (\<And>x. a = Num x \<Longrightarrow> P) \<Longrightarrow> (a = NegZero \<Longrightarrow> P) \<Longrightarrow> P"
  by (cases a) auto

lemma is_fin_not [dest]: "is_fin a \<Longrightarrow> a \<noteq> NaN" "is_fin a \<Longrightarrow> \<not> is_inf a"
  by (simp_all add: is_fin_def)

lemma fin_pack:
  "\<bar>rnd F x\<bar> < 2 powi emax F \<Longrightarrow> is_fin (pack F z x) \<and> fval (pack F z x) = rnd F x"
  by (auto simp: pack_def Let_def)

lemma fin_neg [simp]: "is_fin (fneg a) = is_fin a" "fval (fneg a) = - fval a"
  by (cases a; simp)+

lemma fin_add:
  assumes "is_fin a" "is_fin b" "\<bar>rnd F (fval a + fval b)\<bar> < 2 powi emax F"
  shows "is_fin (fadd F a b) \<and> fval (fadd F a b) = rnd F (fval a + fval b)"
  using assms fin_pack by (auto simp: fadd_def)

lemma fin_sub:
  assumes "is_fin a" "is_fin b" "\<bar>rnd F (fval a - fval b)\<bar> < 2 powi emax F"
  shows "is_fin (fsub F a b) \<and> fval (fsub F a b) = rnd F (fval a - fval b)"
  using fin_add[of a "fneg b" F] assms by (simp add: fsub_def)

lemma fin_mul:
  assumes "is_fin a" "is_fin b" "\<bar>rnd F (fval a * fval b)\<bar> < 2 powi emax F"
  shows "is_fin (fmul F a b) \<and> fval (fmul F a b) = rnd F (fval a * fval b)"
  using assms fin_pack by (auto simp: fmul_def)

lemma fin_div:
  assumes "is_fin a" "is_fin b" "fval b \<noteq> 0" "\<bar>rnd F (fval a / fval b)\<bar> < 2 powi emax F"
  shows "is_fin (fdiv F a b) \<and> fval (fdiv F a b) = rnd F (fval a / fval b)"
  using assms fin_pack by (auto simp: fdiv_def)

lemmas fin_ops = fin_add fin_sub fin_mul fin_div

lemma fin_compare:
  assumes "is_fin a" "is_fin b"
  shows "flt a b \<longleftrightarrow> fval a < fval b" "feq a b \<longleftrightarrow> fval a = fval b" "fle a b \<longleftrightarrow> fval a \<le> fval b"
  using assms by (auto simp: flt_def feq_def fle_def)

lemma fin_max:
  assumes "is_fin a" "is_fin b"
  shows "is_fin (fmax a b)" "fval (fmax a b) = max (fval a) (fval b)"
  using assms fin_compare[OF assms] by (auto simp: fmax_def)

lemma fin_clamp:
  assumes "is_fin lo" "is_fin hi" "is_fin a" "fval lo \<le> fval hi"
  shows "is_fin (fclamp lo hi a)" "fval (fclamp lo hi a) = max (fval lo) (min (fval hi) (fval a))"
  using assms by (auto simp: fclamp_def Let_def fin_compare)

lemma fin_cast: "is_fin a \<Longrightarrow> fcast lo hi a = clamp_int lo hi (ftrunc (fval a))"
  by (erule is_finE) (auto simp: fcast_def ftrunc_def)

lemma fcast_range: "lo \<le> 0 \<Longrightarrow> 0 \<le> hi \<Longrightarrow> lo \<le> fcast lo hi a \<and> fcast lo hi a \<le> hi"
  by (auto simp: fcast_def clamp_int_def split: fp.split)

lemma ftrunc_mono: "x \<le> y \<Longrightarrow> ftrunc x \<le> ftrunc y"
  unfolding ftrunc_def
  by (auto intro: floor_mono ceiling_mono)
    (smt (verit) ceiling_le_zero floor_less_zero linorder_not_less order.strict_implies_order zero_le_floor)

lemma ftrunc_of_int [simp]: "ftrunc (of_int n) = n"
  by (simp add: ftrunc_def)

lemma fint64:
  assumes "\<bar>n\<bar> < 2 ^ 53"
  shows "fint F64 n = Num (of_int n)"
proof -
  have "\<bar>of_int n\<bar> \<le> (2::rat) powi 53"
    using assms by (metis less_imp_le of_int_abs of_int_le_iff of_int_numeral of_int_power
        power_int_of_nat of_nat_numeral)
  then have "\<bar>rnd F64 (of_int n)\<bar> < 2 powi 1024" by (rule r64.abs_less_top) auto
  then have "\<bar>of_int n :: rat\<bar> < 2 powi 1024" using r64.int_exact[OF assms] by simp
  then show ?thesis
    using r64.int_exact[OF assms] by (auto simp: fint_def pack_def Let_def F64_def)
qed

lemma fin_fint:
  assumes "\<bar>n\<bar> \<le> 2 ^ 64" "F = F64 \<or> F = F32"
  shows "is_fin (fint F n)" "fval (fint F n) = rnd F (of_int n)"
proof -
  have n: "\<bar>of_int n :: rat\<bar> \<le> 2 powi 64"
    using assms(1) by (metis of_int_abs of_int_le_iff of_int_numeral of_int_power power_int_of_nat of_nat_numeral)
  have "\<bar>rnd F (of_int n)\<bar> < 2 powi emax F"
    using r64.abs_less_top[OF n] r32.abs_less_top[OF n] assms(2) by (auto simp: F64_def F32_def)
  from fin_pack[OF this] show "is_fin (fint F n)" "fval (fint F n) = rnd F (of_int n)"
    by (auto simp: fint_def)
qed

text \<open>Literals, and results bounded by an exactly representable integer.\<close>

lemma lit64: "\<bar>x\<bar> \<le> 2 powi 100 \<Longrightarrow> is_fin (flit F64 x) \<and> fval (flit F64 x) = rnd F64 x"
  unfolding flit_def
  by (rule fin_pack, rule r64.abs_less_top[of x 100, THEN order.strict_trans2]) (auto simp: F64_def)

lemma lit32: "\<bar>x\<bar> \<le> 2 powi 100 \<Longrightarrow> is_fin (flit F32 x) \<and> fval (flit F32 x) = rnd F32 x"
  unfolding flit_def
  by (rule fin_pack, rule r32.abs_less_top[of x 100, THEN order.strict_trans2]) (auto simp: F32_def)

lemma lit64_int: "\<bar>n\<bar> < 2 ^ 53 \<Longrightarrow> flit F64 (of_int n) = Num (of_int n)"
  using fint64[of n] by (simp add: fint_def flit_def)

lemma lit64_numeral: "(numeral k :: int) < 2 ^ 53 \<Longrightarrow> flit F64 (numeral k) = Num (numeral k)"
  "(numeral k :: int) < 2 ^ 53 \<Longrightarrow> flit F64 (- numeral k) = Num (- numeral k)"
  "flit F64 1 = Num 1"
  using lit64_int[of "numeral k"] lit64_int[of "- numeral k"] lit64_int[of 1] by simp_all

lemma bounded64:
  assumes "\<bar>x\<bar> \<le> of_int n" "\<bar>n\<bar> < 2 ^ 53"
  shows "\<bar>rnd F64 x\<bar> \<le> of_int n" "\<bar>rnd F64 x\<bar> < 2 powi emax F64"
proof -
  show 1: "\<bar>rnd F64 x\<bar> \<le> of_int n" by (rule r64.abs_le_int[OF assms])
  have "of_int n < (2 :: rat) ^ 53" using assms(2)
    by (metis abs_less_iff of_int_less_iff of_int_numeral of_int_power)
  also have "\<dots> < 2 powi emax F64" by (simp add: F64_def)
  finally show "\<bar>rnd F64 x\<bar> < 2 powi emax F64" using 1 by linarith
qed

lemma below_top64: "\<bar>x\<bar> \<le> 2 powi 100 \<Longrightarrow> \<bar>rnd F64 x\<bar> < 2 powi emax F64"
  using r64.abs_less_top[of x 100] by (simp add: F64_def)

lemma below_top32: "\<bar>x\<bar> \<le> 2 powi 100 \<Longrightarrow> \<bar>rnd F32 x\<bar> < 2 powi emax F32"
  using r32.abs_less_top[of x 100] by (simp add: F32_def)

text \<open>Evaluation of closed floating expressions inside the kernel.\<close>

lemma floor_rat_numeral [simp]:
  "\<lfloor>numeral a / numeral b :: rat\<rfloor> = numeral a div numeral b"
  "\<lfloor>- (numeral a / numeral b) :: rat\<rfloor> = - numeral a div numeral b"
  "\<lfloor>1 / numeral b :: rat\<rfloor> = 1 div numeral b"
  "\<lfloor>- (1 / numeral b) :: rat\<rfloor> = - 1 div numeral b"
  using floor_divide_of_int_eq[of "numeral a" "numeral b", where ?'a = rat]
    floor_divide_of_int_eq[of "- numeral a" "numeral b", where ?'a = rat]
    floor_divide_of_int_eq[of 1 "numeral b", where ?'a = rat]
    floor_divide_of_int_eq[of "- 1" "numeral b", where ?'a = rat]
  by simp_all

lemma ceiling_rat_numeral [simp]:
  "\<lceil>numeral a / numeral b :: rat\<rceil> = - (- numeral a div numeral b)"
  "\<lceil>- (numeral a / numeral b) :: rat\<rceil> = - (numeral a div numeral b)"
  "\<lceil>1 / numeral b :: rat\<rceil> = - (- 1 div numeral b)"
  "\<lceil>- (1 / numeral b) :: rat\<rceil> = - (1 div numeral b)"
  by (simp_all add: ceiling_def)

lemmas fp_eval = pack_def rnd_def ulp_exp_def ilog2_def rne_def F64_def F32_def Let_def
  compute_floorlog fint_def flit_def fadd_def fsub_def fmul_def fdiv_def flt_def feq_def fle_def
  fmax_def fclamp_def fabs_def ffloor_def round_away_def fround_def ftrunc_def fcast_def
  fconv_def clamp_int_def

end
