(* ===== verification/Rust_Str.thy ===== *)
theory Rust_Str
  imports Prelude "HOL-Library.Sublist"
begin

text \<open>
  The \<open>str\<close> and \<open>String\<close> operations of the standard library that the sources use. A
  \<open>str\<close> is the list of its UTF-8 bytes (a HOL \<open>string\<close>, whose characters are bytes), so
  lengths, indices and slices count bytes as they do in Rust; \<open>trim\<close> recognises the
  multi-byte white space of \<open>char::is_whitespace\<close>, and slicing inside a multi-byte
  character is the panic it is in Rust (\<open>slice\<close> gives \<open>None\<close>).
\<close>

section \<open>Bytes and characters\<close>

abbreviation byte_of :: "char \<Rightarrow> nat" where "byte_of c \<equiv> of_char c"

definition is_ascii :: "string \<Rightarrow> bool" where
  "is_ascii s = list_all (\<lambda>c. byte_of c < 128) s"

definition to_lower :: "char \<Rightarrow> char" where
  "to_lower c = (if 65 \<le> byte_of c \<and> byte_of c \<le> 90 then char_of (byte_of c + 32) else c)"

definition char_start :: "char \<Rightarrow> bool" where
  \<comment> \<open>a byte that begins a UTF-8 character: not a continuation byte\<close>
  "char_start c \<longleftrightarrow> byte_of c < 128 \<or> 192 \<le> byte_of c"

definition is_char_boundary :: "string \<Rightarrow> nat \<Rightarrow> bool" where
  "is_char_boundary s i \<longleftrightarrow> i = length s \<or> i < length s \<and> char_start (s ! i)"

text \<open>\<open>str::get(a..b)\<close>; the slice expression \<open>&s[a..b]\<close> panics exactly when this is \<open>None\<close>.\<close>

definition slice :: "string \<Rightarrow> nat \<Rightarrow> nat \<Rightarrow> string option" where
  "slice s a b = (if a \<le> b \<and> b \<le> length s \<and> is_char_boundary s a \<and> is_char_boundary s b
                  then Some (take (b - a) (drop a s)) else None)"

lemma is_ascii_simps [simp]:
  "is_ascii []" "is_ascii (c # s) \<longleftrightarrow> byte_of c < 128 \<and> is_ascii s" "is_ascii (s @ t) \<longleftrightarrow> is_ascii s \<and> is_ascii t"
  by (auto simp: is_ascii_def)

lemma ascii_char_boundary: "is_ascii s \<Longrightarrow> i \<le> length s \<Longrightarrow> is_char_boundary s i"
  by (auto simp: is_ascii_def is_char_boundary_def char_start_def list_all_length)

lemma ascii_slice: "is_ascii s \<Longrightarrow> a \<le> b \<Longrightarrow> b \<le> length s \<Longrightarrow> slice s a b = Some (take (b - a) (drop a s))"
  by (simp add: slice_def ascii_char_boundary)

section \<open>White space\<close>

definition ascii_ws :: "nat \<Rightarrow> bool" where
  "ascii_ws b \<longleftrightarrow> 9 \<le> b \<and> b \<le> 13 \<or> b = 32"

text \<open>Length of the white-space character at the front of the byte list, 0 for none.\<close>

definition ws3 :: "nat \<Rightarrow> nat \<Rightarrow> nat \<Rightarrow> bool" where
  "ws3 a b c \<longleftrightarrow>
     a = 225 \<and> b = 154 \<and> c = 128 \<or>
     a = 226 \<and> b = 128 \<and> (128 \<le> c \<and> c \<le> 138 \<or> c = 168 \<or> c = 169 \<or> c = 175) \<or>
     a = 226 \<and> b = 129 \<and> c = 159 \<or>
     a = 227 \<and> b = 128 \<and> c = 128"

fun ws_head :: "string \<Rightarrow> nat" where
  "ws_head [] = 0"
| "ws_head [a] = (if ascii_ws (byte_of a) then 1 else 0)"
| "ws_head [a, b] =
     (if ascii_ws (byte_of a) then 1
      else if byte_of a = 194 \<and> (byte_of b = 133 \<or> byte_of b = 160) then 2 else 0)"
| "ws_head (a # b # c # s) =
     (if ascii_ws (byte_of a) then 1
      else if byte_of a = 194 \<and> (byte_of b = 133 \<or> byte_of b = 160) then 2
      else if ws3 (byte_of a) (byte_of b) (byte_of c) then 3 else 0)"

function trim_start :: "string \<Rightarrow> string" where
  "trim_start s = (if s \<noteq> [] \<and> 0 < ws_head s then trim_start (drop (ws_head s) s) else s)"
  by pat_completeness auto
termination by (relation "measure length") auto

declare trim_start.simps [simp del]

text \<open>The same at the back, on the reversed byte list.\<close>

fun ws_last :: "string \<Rightarrow> nat" where
  "ws_last [] = 0"
| "ws_last [a] = (if ascii_ws (byte_of a) then 1 else 0)"
| "ws_last [b, a] =
     (if ascii_ws (byte_of b) then 1
      else if byte_of a = 194 \<and> (byte_of b = 133 \<or> byte_of b = 160) then 2 else 0)"
| "ws_last (c # b # a # s) =
     (if ascii_ws (byte_of c) then 1
      else if byte_of b = 194 \<and> (byte_of c = 133 \<or> byte_of c = 160) then 2
      else if ws3 (byte_of a) (byte_of b) (byte_of c) then 3 else 0)"

function drop_ws_last :: "string \<Rightarrow> string" where
  "drop_ws_last s = (if s \<noteq> [] \<and> 0 < ws_last s then drop_ws_last (drop (ws_last s) s) else s)"
  by pat_completeness auto
termination by (relation "measure length") auto

declare drop_ws_last.simps [simp del]

definition trim_end :: "string \<Rightarrow> string" where
  "trim_end s = rev (drop_ws_last (rev s))"

definition trim :: "string \<Rightarrow> string" where
  "trim s = trim_end (trim_start s)"

definition trim_end_char :: "char \<Rightarrow> string \<Rightarrow> string" where
  "trim_end_char c s = rev (dropWhile (\<lambda>x. x = c) (rev s))"

definition trim_char :: "char \<Rightarrow> string \<Rightarrow> string" where
  "trim_char c s = trim_end_char c (dropWhile (\<lambda>x. x = c) s)"

section \<open>Searching and splitting\<close>

text \<open>\<open>Iterator::position\<close> and \<open>min_by_key\<close> (the first of equal minima).\<close>

fun position :: "('a \<Rightarrow> bool) \<Rightarrow> 'a list \<Rightarrow> nat option" where
  "position P [] = None"
| "position P (x # xs) = (if P x then Some 0 else map_option Suc (position P xs))"

fun min_by_key :: "('a \<Rightarrow> 'k::linorder) \<Rightarrow> 'a list \<Rightarrow> nat option" where
  "min_by_key k [] = None"
| "min_by_key k (x # xs) =
     (case min_by_key k xs of None \<Rightarrow> Some 0
      | Some j \<Rightarrow> if k x \<le> k (xs ! j) then Some 0 else Some (Suc j))"

text \<open>\<open>str::find\<close> of a substring, \<open>rfind\<close> of a character.\<close>

fun find_sub :: "string \<Rightarrow> string \<Rightarrow> nat option" where
  "find_sub pat [] = (if pat = [] then Some 0 else None)"
| "find_sub pat (c # s) = (if prefix pat (c # s) then Some 0 else map_option Suc (find_sub pat s))"

definition rfind_char :: "char \<Rightarrow> string \<Rightarrow> nat option" where
  "rfind_char c s = map_option (\<lambda>i. length s - Suc i) (position (\<lambda>x. x = c) (rev s))"

definition split_once :: "char \<Rightarrow> string \<Rightarrow> (string \<times> string) option" where
  "split_once c s = map_option (\<lambda>i. (take i s, drop (Suc i) s)) (position (\<lambda>x. x = c) s)"

fun split_char :: "char \<Rightarrow> string \<Rightarrow> string list" where
  "split_char c [] = [[]]"
| "split_char c (x # s) =
     (if x = c then [] # split_char c s
      else case split_char c s of [] \<Rightarrow> [[x]] | f # fs \<Rightarrow> (x # f) # fs)"

lemma position_Some:
  "position P xs = Some i \<Longrightarrow> i < length xs \<and> P (xs ! i) \<and> (\<forall>j<i. \<not> P (xs ! j))"
  by (induction xs arbitrary: i) (auto simp: less_Suc_eq_0_disj split: if_splits)

lemma position_None: "position P xs = None \<longleftrightarrow> (\<forall>x \<in> set xs. \<not> P x)"
  by (induction xs) auto

lemma min_by_key_None [simp]: "min_by_key k xs = None \<longleftrightarrow> xs = []"
  by (cases xs) (auto split: option.splits)

lemma min_by_key_Some:
  "min_by_key k xs = Some i \<Longrightarrow> i < length xs \<and> (\<forall>x \<in> set xs. k (xs ! i) \<le> k x)"
proof (induction xs arbitrary: i)
  case (Cons x xs)
  then show ?case
    by (cases "min_by_key k xs") (fastforce split: if_splits)+
qed simp

lemma split_char_nonempty [simp]: "split_char c s \<noteq> []"
  by (induction s) (auto split: list.splits)

lemma split_char_no_sep: "c \<notin> set s \<Longrightarrow> split_char c s = [s]"
  by (induction s) auto

lemma split_char_append: "c \<notin> set a \<Longrightarrow> split_char c (a @ c # s) = a # split_char c s"
  by (induction a) auto

lemma split_once_append: "c \<notin> set a \<Longrightarrow> split_once c (a @ c # s) = Some (a, s)"
  by (induction a) (auto simp: split_once_def)

lemma trim_id: "s \<noteq> [] \<Longrightarrow> ws_head s = 0 \<Longrightarrow> ws_last (rev s) = 0 \<Longrightarrow> trim s = s"
  by (simp add: trim_def trim_end_def trim_start.simps drop_ws_last.simps)

section \<open>Integer parsing and printing\<close>

definition digit :: "nat \<Rightarrow> char \<Rightarrow> nat option" where
  "digit radix c =
     (let b = byte_of c;
          d = (if 48 \<le> b \<and> b \<le> 57 then b - 48
               else if 97 \<le> b \<and> b \<le> 122 then b - 87
               else if 65 \<le> b \<and> b \<le> 90 then b - 55 else 99)
      in if d < radix then Some d else None)"

fun digits_val :: "nat \<Rightarrow> nat \<Rightarrow> string \<Rightarrow> nat option" where
  "digits_val radix acc [] = Some acc"
| "digits_val radix acc (c # s) =
     (case digit radix c of None \<Rightarrow> None | Some d \<Rightarrow> digits_val radix (acc * radix + d) s)"

text \<open>
  \<open>from_str_radix\<close> for an unsigned type with maximum \<open>mx\<close>: a leading \<open>+\<close> is accepted, at
  least one digit is needed, and a value above \<open>mx\<close> is an error. Signed types also accept
  a leading \<open>-\<close>.
\<close>

definition parse_uint :: "nat \<Rightarrow> nat \<Rightarrow> string \<Rightarrow> nat option" where
  "parse_uint radix mx s =
     (let ds = (case s of [] \<Rightarrow> [] | c # r \<Rightarrow> if c = CHR ''+'' then r else s)
      in if ds = [] then None
         else case digits_val radix 0 ds of
                None \<Rightarrow> None | Some v \<Rightarrow> if v \<le> mx then Some v else None)"

definition parse_int :: "int \<Rightarrow> int \<Rightarrow> string \<Rightarrow> int option" where
  "parse_int lo hi s =
     (let (neg, ds) = (case s of [] \<Rightarrow> (False, [])
                       | c # r \<Rightarrow> if c = CHR ''+'' then (False, r)
                                  else if c = CHR ''-'' then (True, r) else (False, s))
      in if ds = [] then None
         else case digits_val 10 0 ds of
                None \<Rightarrow> None
              | Some v \<Rightarrow> (let x = (if neg then - int v else int v)
                          in if lo \<le> x \<and> x \<le> hi then Some x else None))"

definition parse_u8 :: "string \<Rightarrow> nat option" where "parse_u8 = parse_uint 10 255"
definition parse_u32 :: "string \<Rightarrow> nat option" where "parse_u32 = parse_uint 10 4294967295"

definition parse_i32 :: "string \<Rightarrow> int option" where
  "parse_i32 = parse_int (- 2147483648) 2147483647"

lemma parse_uint_bound: "parse_uint r mx s = Some v \<Longrightarrow> v \<le> mx"
  by (auto simp: parse_uint_def Let_def split: option.splits if_splits)

definition dec_char :: "nat \<Rightarrow> char" where
  "dec_char d = char_of (48 + d)"

definition hex_char :: "nat \<Rightarrow> char" where
  "hex_char d = (if d < 10 then char_of (48 + d) else char_of (55 + d))"

text \<open>\<open>{}\<close>, \<open>{:02}\<close>-style zero padding, and \<open>{:0wX}\<close>.\<close>

fun dec_digits :: "nat \<Rightarrow> string" where
  "dec_digits n = (if n < 10 then [dec_char n] else dec_digits (n div 10) @ [dec_char (n mod 10)])"

declare dec_digits.simps [simp del]

definition fmt_int :: "int \<Rightarrow> string" where
  "fmt_int i = (if i < 0 then CHR ''-'' # dec_digits (nat (- i)) else dec_digits (nat i))"

definition zero_pad :: "nat \<Rightarrow> string \<Rightarrow> string" where
  "zero_pad w s = replicate (w - length s) (CHR ''0'') @ s"

fun hex_fixed :: "nat \<Rightarrow> nat \<Rightarrow> string" where
  "hex_fixed 0 n = []"
| "hex_fixed (Suc w) n = hex_fixed w (n div 16) @ [hex_char (n mod 16)]"

lemma length_hex_fixed [simp]: "length (hex_fixed w n) = w"
  by (induction w arbitrary: n) auto

lemma digit_hex_char: "d < 16 \<Longrightarrow> digit 16 (hex_char d) = Some d"
  by (cases "d < 10") (simp_all add: digit_def hex_char_def Let_def)

lemma digit_dec_char: "d < 10 \<Longrightarrow> digit 10 (dec_char d) = Some d"
  by (simp add: digit_def dec_char_def Let_def)

lemma digits_val_append:
  "digits_val r acc (s @ t) = (case digits_val r acc s of None \<Rightarrow> None | Some a \<Rightarrow> digits_val r a t)"
  by (induction r acc s rule: digits_val.induct) (auto split: option.splits)

lemma digits_val_hex_fixed:
  "digits_val 16 acc (hex_fixed w n) = Some (acc * 16 ^ w + n mod 16 ^ w)"
proof (induction w arbitrary: n)
  case (Suc w)
  have "n mod (16 * 16 ^ w) = 16 * (n div 16 mod 16 ^ w) + n mod 16"
    by (simp add: mod_mult2_eq)
  then show ?case
    using Suc by (simp add: digits_val_append digit_hex_char algebra_simps)
qed simp

lemma digits_val_dec_digits: "digits_val 10 0 (dec_digits n) = Some n"
proof (induction n rule: dec_digits.induct)
  case (1 n)
  then show ?case
    by (cases "n < 10") (auto simp: dec_digits.simps[of n] digits_val_append digit_dec_char)
qed

lemma dec_digits_nonempty [simp]: "dec_digits n \<noteq> []"
  by (subst dec_digits.simps) simp

lemma dec_digits_chars: "c \<in> set (dec_digits n) \<Longrightarrow> 48 \<le> byte_of c \<and> byte_of c \<le> 57"
proof (induction n rule: dec_digits.induct)
  case (1 n)
  then show ?case
    by (cases "n < 10") (simp_all add: dec_digits.simps[of n] dec_char_def, fastforce)
qed

end
