(* ===== verification/Protection.thy ===== *)
theory Protection
  imports Rust_Str
begin

text \<open>
  Service protection of the NTP server (\<open>src/ntp/protection.rs\<close>, \<open>src/ntp/cidr_parse.rs\<close>):
  the fixed-capacity per-client rate limiter, the CIDR allowlist and the CIDR parser.

  The locale \<open>rate_gate\<close> is the interface the server polls through: a bounded memory of the
  last accepted request per client. Its client lemmas say that, as long as the clients fit,
  the bounded limiter takes exactly the decisions of an unbounded one, so accepted requests
  of one client are spaced. It is interpreted on the slot table of the source.
\<close>

section \<open>Rate limiter\<close>

definition RATE_TABLE_SIZE :: nat where "RATE_TABLE_SIZE = 32"
definition MIN_POLL_INTERVAL_US :: int where "MIN_POLL_INTERVAL_US = 2000000"
definition ACL_MAX_ENTRIES :: nat where "ACL_MAX_ENTRIES = 8"

record client_record =
  cr_addr :: u32
  cr_last_us :: i64

type_synonym rate_table = "client_record option list"

definition rate_new :: rate_table where
  "rate_new = replicate RATE_TABLE_SIZE None"

text \<open>The loop over the occupied slots: the first entry of the client decides.\<close>

fun rate_scan :: "u32 \<Rightarrow> i64 \<Rightarrow> rate_table \<Rightarrow> (bool \<times> rate_table) option" where
  "rate_scan a t [] = None"
| "rate_scan a t (None # es) = map_option (\<lambda>(ok, es'). (ok, None # es')) (rate_scan a t es)"
| "rate_scan a t (Some e # es) =
     (if cr_addr e = a
      then if sat_sub t (cr_last_us e) < MIN_POLL_INTERVAL_US then Some (False, Some e # es)
           else Some (True, Some (e\<lparr>cr_last_us := t\<rparr>) # es)
      else map_option (\<lambda>(ok, es'). (ok, Some e # es')) (rate_scan a t es))"

definition slot_key :: "client_record option \<Rightarrow> i64" where
  "slot_key e = (case e of None \<Rightarrow> i64_max | Some r \<Rightarrow> cr_last_us r)"

definition rate_slot :: "rate_table \<Rightarrow> nat" where
  "rate_slot tbl = (case position (\<lambda>e. e = None) tbl of
       Some i \<Rightarrow> i
     | None \<Rightarrow> (case min_by_key slot_key tbl of Some i \<Rightarrow> i | None \<Rightarrow> 0))"

definition rate_check :: "u32 \<Rightarrow> i64 \<Rightarrow> rate_table \<Rightarrow> bool \<times> rate_table" where
  "rate_check a t tbl = (case rate_scan a t tbl of
       Some r \<Rightarrow> r
     | None \<Rightarrow> (True, tbl[rate_slot tbl := Some \<lparr>cr_addr = a, cr_last_us = t\<rparr>]))"

text \<open>What the table remembers of a client, and its invariant: one slot per client.\<close>

fun rate_last :: "rate_table \<Rightarrow> u32 \<Rightarrow> i64 option" where
  "rate_last [] a = None"
| "rate_last (None # es) a = rate_last es a"
| "rate_last (Some e # es) a = (if cr_addr e = a then Some (cr_last_us e) else rate_last es a)"

definition rate_clients :: "rate_table \<Rightarrow> u32 list" where
  "rate_clients tbl = map cr_addr (List.map_filter id tbl)"

definition rate_inv :: "rate_table \<Rightarrow> bool" where
  "rate_inv tbl \<longleftrightarrow> length tbl = RATE_TABLE_SIZE \<and> distinct (rate_clients tbl)"

lemma rate_clients_simps [simp]:
  "rate_clients [] = []"
  "rate_clients (None # es) = rate_clients es"
  "rate_clients (Some e # es) = cr_addr e # rate_clients es"
  by (simp_all add: rate_clients_def List.map_filter_def)

lemma dom_rate_last: "dom (rate_last tbl) = set (rate_clients tbl)"
proof (induction tbl)
  case (Cons e es) then show ?case by (cases e) (auto simp: dom_def)
qed simp

lemma rate_last_None: "rate_last tbl a = None \<longleftrightarrow> a \<notin> set (rate_clients tbl)"
  using dom_rate_last[of tbl] by (auto simp: domIff)

lemma rate_scan_None: "rate_scan a t tbl = None \<longleftrightarrow> rate_last tbl a = None"
  by (induction a t tbl rule: rate_scan.induct) auto

lemma rate_scan_Some:
  assumes "rate_scan a t tbl = Some (ok, tbl')" "rate_last tbl a = Some t0"
  shows "ok = (\<not> sat_sub t t0 < MIN_POLL_INTERVAL_US)
    \<and> rate_clients tbl' = rate_clients tbl \<and> length tbl' = length tbl
    \<and> rate_last tbl' = (if ok then (rate_last tbl)(a \<mapsto> t) else rate_last tbl)"
  using assms
proof (induction a t tbl arbitrary: tbl' rule: rate_scan.induct)
  case (2 a t es) then show ?case by (auto simp: fun_eq_iff)
next
  case (3 a t e es) then show ?case by (auto simp: fun_eq_iff split: if_splits)
qed simp

lemma rate_update_free:
  assumes "i < length tbl" "tbl ! i = None" "r = \<lparr>cr_addr = a, cr_last_us = t\<rparr>"
    "a \<notin> set (rate_clients tbl)"
  shows "rate_last (tbl[i := Some r]) = (rate_last tbl)(a \<mapsto> t)
    \<and> distinct (rate_clients (tbl[i := Some r])) = distinct (rate_clients tbl)
    \<and> set (rate_clients (tbl[i := Some r])) = insert a (set (rate_clients tbl))"
  using assms
proof (induction tbl arbitrary: i)
  case (Cons e es)
  then show ?case
  proof (cases i)
    case 0 with Cons.prems show ?thesis by (cases e) (auto simp: fun_eq_iff)
  next
    case (Suc j)
    with Cons show ?thesis by (cases e) (auto simp: fun_eq_iff)
  qed
qed simp

lemma full_clients: "None \<notin> set tbl \<Longrightarrow> length (rate_clients tbl) = length tbl"
proof (induction tbl)
  case (Cons e es) then show ?case by (cases e) auto
qed simp

lemma rate_slot_free:
  assumes "rate_inv tbl" "card (dom (rate_last tbl)) < RATE_TABLE_SIZE"
  shows "rate_slot tbl < length tbl \<and> tbl ! rate_slot tbl = None"
proof -
  have "None \<in> set tbl"
  proof (rule ccontr)
    assume "None \<notin> set tbl"
    then have "length (rate_clients tbl) = RATE_TABLE_SIZE"
      using full_clients[of tbl] assms(1) by (simp add: rate_inv_def)
    then have "card (set (rate_clients tbl)) = RATE_TABLE_SIZE"
      using assms(1) by (simp add: rate_inv_def distinct_card)
    with assms(2) show False by (simp add: dom_rate_last)
  qed
  then obtain i where "position (\<lambda>e. e = None) tbl = Some i"
    by (metis (mono_tags, lifting) position_None not_Some_eq)
  then show ?thesis using position_Some[of "\<lambda>e. e = None" tbl i] by (simp add: rate_slot_def)
qed

lemma rate_check_seen:
  assumes "rate_inv tbl" "rate_last tbl a = Some t0"
  shows "fst (rate_check a t tbl) = (\<not> sat_sub t t0 < MIN_POLL_INTERVAL_US)
    \<and> rate_inv (snd (rate_check a t tbl))
    \<and> rate_last (snd (rate_check a t tbl)) =
        (if fst (rate_check a t tbl) then (rate_last tbl)(a \<mapsto> t) else rate_last tbl)"
proof -
  obtain ok tbl' where r: "rate_scan a t tbl = Some (ok, tbl')"
    using assms(2) rate_scan_None[of a t tbl] by (metis not_Some_eq prod.exhaust)
  show ?thesis
    using rate_scan_Some[OF r assms(2)] assms(1) by (auto simp: rate_check_def r rate_inv_def)
qed

lemma rate_check_new:
  assumes "rate_inv tbl" "rate_last tbl a = None" "card (dom (rate_last tbl)) < RATE_TABLE_SIZE"
  shows "fst (rate_check a t tbl) \<and> rate_inv (snd (rate_check a t tbl))
    \<and> rate_last (snd (rate_check a t tbl)) = (rate_last tbl)(a \<mapsto> t)"
  using rate_update_free[OF _ _ refl, of "rate_slot tbl" tbl a t] rate_slot_free[OF assms(1,3)]
    assms rate_scan_None[of a t tbl]
  by (simp add: rate_check_def rate_inv_def rate_last_None)

lemma rate_check_new_ok: "rate_last tbl a = None \<Longrightarrow> fst (rate_check a t tbl)"
  using rate_scan_None[of a t tbl] by (simp add: rate_check_def)

text \<open>A full table evicts the entry with the oldest accepted request.\<close>

lemma rate_evict:
  assumes "i < length tbl" "tbl ! i = Some v" "None \<notin> set tbl" "distinct (rate_clients tbl)"
    "a \<notin> set (rate_clients tbl)"
  shows "rate_last (tbl[i := Some \<lparr>cr_addr = a, cr_last_us = t\<rparr>])
      = (rate_last tbl)(cr_addr v := None, a \<mapsto> t)
    \<and> distinct (rate_clients (tbl[i := Some \<lparr>cr_addr = a, cr_last_us = t\<rparr>]))
    \<and> set (rate_clients (tbl[i := Some \<lparr>cr_addr = a, cr_last_us = t\<rparr>]))
      = insert a (set (rate_clients tbl) - {cr_addr v})"
  using assms
proof (induction tbl arbitrary: i)
  case (Cons e es)
  then obtain x where e: "e = Some x" by (cases e) auto
  show ?case
  proof (cases i)
    case 0
    have "rate_last es (cr_addr v) = None"
      using Cons.prems 0 by (auto simp: rate_last_None)
    with Cons.prems 0 e show ?thesis by (auto simp: fun_eq_iff)
  next
    case (Suc j)
    have "v \<in> set (List.map_filter id es)"
      using Cons.prems Suc by (force simp: List.map_filter_def in_set_conv_nth)
    then have "cr_addr v \<in> set (rate_clients es)" by (simp add: rate_clients_def)
    with Cons.IH[of j] Cons.prems Suc e show ?thesis by (auto simp: fun_eq_iff)
  qed
qed simp

lemma rate_check_full:
  assumes inv: "rate_inv tbl" and new: "rate_last tbl a = None" and full: "None \<notin> set tbl"
  obtains v where "Some v \<in> set tbl" "\<forall>u. Some u \<in> set tbl \<longrightarrow> cr_last_us v \<le> cr_last_us u"
    "fst (rate_check a t tbl)" "rate_inv (snd (rate_check a t tbl))"
    "rate_last (snd (rate_check a t tbl)) = (rate_last tbl)(cr_addr v := None, a \<mapsto> t)"
proof -
  have "tbl \<noteq> []" using inv by (auto simp: rate_inv_def RATE_TABLE_SIZE_def)
  then obtain i where i: "min_by_key slot_key tbl = Some i" by fastforce
  have np: "position (\<lambda>e. e = None) tbl = None"
    using full by (metis (mono_tags, lifting) position_None)
  have sl: "rate_slot tbl = i" by (simp add: rate_slot_def np i)
  from min_by_key_Some[OF i] have lt: "i < length tbl"
    and le: "\<forall>x \<in> set tbl. slot_key (tbl ! i) \<le> slot_key x" by auto
  obtain v where v: "tbl ! i = Some v" using full lt by (metis nth_mem not_Some_eq)
  show thesis
  proof (rule that)
    show "Some v \<in> set tbl" using lt v by (metis nth_mem)
    show "\<forall>u. Some u \<in> set tbl \<longrightarrow> cr_last_us v \<le> cr_last_us u"
      using le v by (fastforce simp: slot_key_def)
  qed (use rate_evict[OF lt v full, of a t] inv new rate_scan_None[of a t tbl]
       in \<open>simp_all add: rate_check_def sl rate_inv_def rate_last_None\<close>)
qed

lemma rate_check_inv [step_inv]:
  assumes "rate_inv tbl"
  shows "rate_inv (snd (rate_check a t tbl))"
proof (cases "rate_last tbl a")
  case (Some t0) with rate_check_seen[OF assms] show ?thesis by blast
next
  case None
  show ?thesis
  proof (cases "None \<in> set tbl")
    case False
    then show ?thesis using rate_check_full[OF assms None, of t] by metis
  next
    case True
    obtain i where i: "position (\<lambda>e. e = None) tbl = Some i"
      using True position_None[of "\<lambda>e. e = None" tbl] by fastforce
    with position_Some[OF i] rate_update_free[OF _ _ refl, of i tbl a t] assms None
      rate_scan_None[of a t tbl]
    show ?thesis by (simp add: rate_check_def rate_slot_def rate_inv_def rate_last_None)
  qed
qed

lemma rate_new_inv: "rate_inv rate_new" "rate_last rate_new = Map.empty"
proof -
  have "rate_clients (replicate n None) = []" for n by (induction n) auto
  then show "rate_inv rate_new" by (simp add: rate_inv_def rate_new_def)
  have "rate_last (replicate n None) = Map.empty" for n by (induction n) auto
  then show "rate_last rate_new = Map.empty" by (simp add: rate_new_def)
qed

section \<open>The interface of a rate gate\<close>

text \<open>The contract, and the unbounded limiter it is measured against.\<close>

definition ideal_check :: "int \<Rightarrow> 'a \<Rightarrow> int \<Rightarrow> ('a \<rightharpoonup> int) \<Rightarrow> bool \<times> ('a \<rightharpoonup> int)" where
  "ideal_check gap a t m =
     (case m a of
        Some t0 \<Rightarrow> if sat_sub t t0 < gap then (False, m) else (True, m(a \<mapsto> t))
      | None \<Rightarrow> (True, m(a \<mapsto> t)))"

fun gate_run :: "('a \<Rightarrow> int \<Rightarrow> 's \<Rightarrow> bool \<times> 's) \<Rightarrow> ('a \<times> int) list \<Rightarrow> 's \<Rightarrow> bool list \<times> 's" where
  "gate_run chk [] s = ([], s)"
| "gate_run chk ((a, t) # rs) s =
     (let (ok, s') = chk a t s; (oks, s'') = gate_run chk rs s' in (ok # oks, s''))"

lemma length_gate_run [simp]: "length (fst (gate_run chk rs s)) = length rs"
  by (induction chk rs s rule: gate_run.induct) (auto simp: Let_def split: prod.splits)

locale rate_gate =
  fixes check :: "'a \<Rightarrow> int \<Rightarrow> 's \<Rightarrow> bool \<times> 's"
    and last :: "'s \<Rightarrow> 'a \<rightharpoonup> int"
    and inv :: "'s \<Rightarrow> bool"
    and cap :: nat
    and gap :: int
  assumes check_inv: "inv s \<Longrightarrow> inv (snd (check a t s))"
    and seen_ok: "inv s \<Longrightarrow> last s a = Some t0 \<Longrightarrow> fst (check a t s) = (\<not> sat_sub t t0 < gap)"
    and seen_last: "inv s \<Longrightarrow> last s a = Some t0 \<Longrightarrow>
      last (snd (check a t s)) = (if fst (check a t s) then (last s)(a \<mapsto> t) else last s)"
    and new_ok: "inv s \<Longrightarrow> last s a = None \<Longrightarrow> fst (check a t s)"
    and new_last: "inv s \<Longrightarrow> last s a = None \<Longrightarrow> card (dom (last s)) < cap \<Longrightarrow>
      last (snd (check a t s)) = (last s)(a \<mapsto> t)"
    and gap_range: "0 < gap" "gap \<le> i64_max"
begin

lemma check_ideal:
  assumes "inv s" "finite C" "card C \<le> cap" "dom (last s) \<subseteq> C" "a \<in> C"
  shows "ideal_check gap a t (last s) = (fst (check a t s), last (snd (check a t s)))"
proof (cases "last s a")
  case None
  with assms(4,5) have "dom (last s) \<subset> C" by auto
  with assms(2,3) have "card (dom (last s)) < cap"
    using psubset_card_mono by (metis order.strict_trans2)
  with None assms(1) show ?thesis by (simp add: ideal_check_def new_ok new_last)
next
  case (Some t0)
  with assms(1) show ?thesis by (simp add: ideal_check_def seen_ok seen_last)
qed

lemma run_ideal:
  assumes "inv s" "finite C" "card C \<le> cap" "dom (last s) \<subseteq> C" "fst ` set rs \<subseteq> C"
  shows "gate_run (ideal_check gap) rs (last s)
    = (fst (gate_run check rs s), last (snd (gate_run check rs s)))"
  using assms(1,4,5)
proof (induction rs arbitrary: s)
  case (Cons r rs)
  obtain a t where r: "r = (a, t)" by fastforce
  with Cons.prems have a: "a \<in> C" by auto
  let ?s = "snd (check a t s)"
  have "dom (snd (ideal_check gap a t (last s))) \<subseteq> C"
    using Cons.prems a by (auto simp: ideal_check_def split: option.splits if_splits)
  then have "dom (last ?s) \<subseteq> C"
    using check_ideal[OF Cons.prems(1) assms(2,3) Cons.prems(2) a, of t] by simp
  then have "gate_run (ideal_check gap) rs (last ?s)
      = (fst (gate_run check rs ?s), last (snd (gate_run check rs ?s)))"
    using Cons by (auto intro: check_inv)
  then show ?case
    using check_ideal[OF Cons.prems(1) assms(2,3) Cons.prems(2) a, of t]
    by (simp add: r split: prod.splits)
qed simp

lemma ideal_spaced_from:
  assumes "m a = Some t0" "j < length rs" "rs ! j = (a, t)"
    "fst (gate_run (ideal_check gap) rs m) ! j"
  shows "gap \<le> t - t0"
  using assms
proof (induction rs arbitrary: m t0 j)
  case (Cons r rs)
  obtain b u where r: "r = (b, u)" by fastforce
  have *: "gap \<le> u - t0" if "b = a" "fst (ideal_check gap b u m)"
    using that Cons.prems(1) gap_range sat_sub_less_iff[of gap u t0]
    by (auto simp: ideal_check_def i64_min_def split: if_splits)
  show ?case
  proof (cases j)
    case 0 with Cons.prems r * show ?thesis by (simp split: prod.splits)
  next
    case (Suc k)
    let ?m = "snd (ideal_check gap b u m)"
    have IH: "\<And>v. ?m a = Some v \<Longrightarrow> gap \<le> t - v"
      using Cons.IH[of ?m _ k] Cons.prems Suc r by (simp split: prod.splits)
    show ?thesis
    proof (cases "b = a \<and> fst (ideal_check gap b u m)")
      case True
      then have "?m a = Some u" using Cons.prems(1) by (auto simp: ideal_check_def split: if_splits)
      with IH True * gap_range show ?thesis by fastforce
    next
      case False
      then have "?m a = Some t0"
        using Cons.prems(1) by (auto simp: ideal_check_def split: option.splits if_splits)
      with IH show ?thesis by blast
    qed
  qed
qed simp

lemma ideal_spaced:
  assumes "i < j" "j < length rs" "rs ! i = (a, t)" "rs ! j = (a, u)"
    "fst (gate_run (ideal_check gap) rs m) ! i" "fst (gate_run (ideal_check gap) rs m) ! j"
  shows "gap \<le> u - t"
  using assms
proof (induction rs arbitrary: m i j)
  case (Cons r rs)
  obtain b v where r: "r = (b, v)" by fastforce
  let ?m = "snd (ideal_check gap b v m)"
  obtain k where j: "j = Suc k" using Cons.prems(1) by (cases j) auto
  show ?case
  proof (cases i)
    case 0
    then have "?m a = Some t"
      using Cons.prems(3,5) r
      by (auto simp: ideal_check_def split: prod.splits option.splits if_splits)
    with ideal_spaced_from[of ?m a t k rs u] Cons.prems r j show ?thesis
      by (simp split: prod.splits)
  next
    case (Suc l)
    with Cons.IH[of l k ?m] Cons.prems r j show ?thesis by (simp split: prod.splits)
  qed
qed simp

lemma accepted_spaced:
  assumes "inv s" "last s = Map.empty" "card (fst ` set rs) \<le> cap"
    "i < j" "j < length rs" "rs ! i = (a, t)" "rs ! j = (a, u)"
    "fst (gate_run check rs s) ! i" "fst (gate_run check rs s) ! j"
  shows "gap \<le> u - t"
  using run_ideal[OF assms(1), of "fst ` set rs" rs] ideal_spaced[OF assms(4-7), of "last s"] assms
  by simp

end

interpretation limiter: rate_gate rate_check rate_last rate_inv RATE_TABLE_SIZE MIN_POLL_INTERVAL_US
  by unfold_locales
    (auto simp: rate_check_inv rate_check_seen rate_check_new rate_check_new_ok
      MIN_POLL_INTERVAL_US_def i64_max_def)

text \<open>While at most 32 distinct clients poll, two accepted requests of one client are at
  least \<open>MIN_POLL_INTERVAL_US\<close> apart, whatever the others send in between.\<close>

theorem limiter_spacing:
  assumes "card (fst ` set rs) \<le> RATE_TABLE_SIZE"
    and "i < j" "j < length rs" "rs ! i = (a, t)" "rs ! j = (a, u)"
    and "fst (gate_run rate_check rs rate_new) ! i" "fst (gate_run rate_check rs rate_new) ! j"
  shows "MIN_POLL_INTERVAL_US \<le> u - t"
  by (rule limiter.accepted_spaced[OF rate_new_inv assms])

theorem limiter_spacing_witness:
  "MIN_POLL_INTERVAL_US \<le> 2500000 - (0 :: int)
   \<and> fst (gate_run rate_check [(7, 0), (8, 5), (7, 100), (7, 2500000)] rate_new)
       = [True, True, False, True]"
proof -
  let ?rs = "[(7 :: u32, 0), (8, 5), (7, 100), (7, 2500000 :: i64)]"
  have run: "fst (gate_run rate_check ?rs rate_new) = [True, True, False, True]"
    by code_simp
  have "card (fst ` set ?rs) \<le> RATE_TABLE_SIZE" by (simp add: RATE_TABLE_SIZE_def card_insert_if)
  then have "MIN_POLL_INTERVAL_US \<le> 2500000 - (0 :: int)"
    by (rule limiter_spacing[where i = 0 and j = 3 and a = 7]) (simp_all only: run, simp_all)
  with run show ?thesis by blast
qed

text \<open>C21: Within the table's capacity the limiter decides every request sequence exactly as a
  limiter with unbounded memory does, and remembers the same accepted times.\<close>

theorem limiter_refines_ideal:
  assumes "card (fst ` set rs) \<le> RATE_TABLE_SIZE"
  shows "gate_run (ideal_check MIN_POLL_INTERVAL_US) rs Map.empty
    = (fst (gate_run rate_check rs rate_new), rate_last (snd (gate_run rate_check rs rate_new)))"
  using limiter.run_ideal[OF rate_new_inv(1), of "fst ` set rs" rs] assms by (simp add: rate_new_inv)

theorem limiter_refines_ideal_witness:
  "gate_run (ideal_check MIN_POLL_INTERVAL_US) [(7, 0), (7, 100)] Map.empty
    = (fst (gate_run rate_check [(7, 0), (7, 100)] rate_new),
       rate_last (snd (gate_run rate_check [(7, 0), (7, 100)] rate_new)))"
  by (rule limiter_refines_ideal) (simp add: RATE_TABLE_SIZE_def)

text \<open>A new client that finds the table full is accepted, takes the slot of a client whose
  last accepted request is the oldest, and changes no other client's record.\<close>

theorem limiter_evicts_oldest:
  assumes "rate_inv tbl" "rate_last tbl a = None" "None \<notin> set tbl"
  shows "fst (rate_check a t tbl) \<and>
    (\<exists>v. Some v \<in> set tbl \<and> list_all (\<lambda>e. cr_last_us v \<le> slot_key e) tbl \<and>
       rate_last (snd (rate_check a t tbl)) = (rate_last tbl)(cr_addr v := None, a \<mapsto> t))"
proof -
  from rate_check_full[OF assms, of t] obtain v where v: "Some v \<in> set tbl"
    "\<forall>u. Some u \<in> set tbl \<longrightarrow> cr_last_us v \<le> cr_last_us u" "fst (rate_check a t tbl)"
    "rate_last (snd (rate_check a t tbl)) = (rate_last tbl)(cr_addr v := None, a \<mapsto> t)" by metis
  have "cr_last_us v \<le> slot_key e" if "e \<in> set tbl" for e
    using v(2) that assms(3) by (cases e) (auto simp: slot_key_def)
  with v show ?thesis by (auto simp: list_all_iff)
qed

definition full_table :: rate_table where
  "full_table = map (\<lambda>i. Some \<lparr>cr_addr = of_nat i, cr_last_us = 100 - int i\<rparr>) [0..<32]"

theorem limiter_evicts_oldest_witness:
  "fst (rate_check 99 5000 full_table) \<and>
    (\<exists>v. Some v \<in> set full_table \<and> list_all (\<lambda>e. cr_last_us v \<le> slot_key e) full_table \<and>
       rate_last (snd (rate_check 99 5000 full_table))
         = (rate_last full_table)(cr_addr v := None, 99 \<mapsto> 5000))"
proof (rule limiter_evicts_oldest)
  show "rate_inv full_table" by code_simp
  show "rate_last full_table 99 = None" by code_simp
  show "None \<notin> set full_table" by (auto simp: full_table_def)
qed

section \<open>Access control list\<close>

record acl_entry =
  ae_network :: u32
  ae_mask :: u32

record acl =
  acl_entries :: "acl_entry option list"
  acl_len :: nat
  default_allow :: bool

definition entry_contains :: "acl_entry \<Rightarrow> u32 \<Rightarrow> bool" where
  "entry_contains e addr \<longleftrightarrow> (addr AND ae_mask e) = (ae_network e AND ae_mask e)"

definition allow_all :: acl where
  "allow_all = \<lparr>acl_entries = replicate ACL_MAX_ENTRIES None, acl_len = 0, default_allow = True\<rparr>"

definition deny_all :: acl where
  "deny_all = \<lparr>acl_entries = replicate ACL_MAX_ENTRIES None, acl_len = 0, default_allow = False\<rparr>"

text \<open>
  \<open>!((1u32 << (32 - prefix_bits)) - 1)\<close>: the subtraction wraps for a prefix above 32 and the
  shift amount is reduced modulo 32, as in a release build.
\<close>

definition prefix_mask :: "u8 \<Rightarrow> u32" where
  "prefix_mask p =
     (if p = 0 then 0
      else NOT (push_bit (unat ((32 - ucast p :: u32) AND 31)) 1 - 1))"

definition add_ipv4_cidr :: "acl \<Rightarrow> u8 \<Rightarrow> u8 \<Rightarrow> u8 \<Rightarrow> u8 \<Rightarrow> u8 \<Rightarrow> bool \<times> acl" where
  "add_ipv4_cidr acl a b c d p =
     (if ACL_MAX_ENTRIES \<le> acl_len acl then (False, acl)
      else let slot = (case position (\<lambda>e. e = None) (acl_entries acl) of Some i \<Rightarrow> i | None \<Rightarrow> 0)
           in (True, acl\<lparr>acl_entries := (acl_entries acl)
                           [slot := Some \<lparr>ae_network = from_be32 a b c d, ae_mask = prefix_mask p\<rparr>],
                        acl_len := acl_len acl + 1\<rparr>))"

definition private_lan :: acl where
  "private_lan =
     (let acl = deny_all;
          acl = snd (add_ipv4_cidr acl 127 0 0 0 8);
          acl = snd (add_ipv4_cidr acl 10 0 0 0 8);
          acl = snd (add_ipv4_cidr acl 172 16 0 0 12);
          acl = snd (add_ipv4_cidr acl 192 168 0 0 16)
      in acl)"

definition acl_allows :: "acl \<Rightarrow> u32 \<Rightarrow> bool" where
  "acl_allows acl addr =
     (if acl_len acl = 0 then default_allow acl
      else list_ex (\<lambda>e. case e of None \<Rightarrow> False | Some x \<Rightarrow> entry_contains x addr) (acl_entries acl))"

definition parse_ipv4_cidr :: "string \<Rightarrow> (nat \<times> nat \<times> nat \<times> nat \<times> nat) option" where
  "parse_ipv4_cidr s0 =
     (let s = trim s0 in
      if s = [] then None
      else case split_once (CHR ''/'') s of
        None \<Rightarrow> None
      | Some (addr, pre) \<Rightarrow> (case parse_u8 pre of
          None \<Rightarrow> None
        | Some p \<Rightarrow> if p > 32 then None
            else (case map parse_u8 (split_char (CHR ''.'') addr) of
                [Some a, Some b, Some c, Some d] \<Rightarrow> Some (a, b, c, d, p)
              | _ \<Rightarrow> None)))"

definition acl_from_config :: "string \<Rightarrow> acl" where
  "acl_from_config cidr =
     (case parse_ipv4_cidr cidr of
        Some (a, b, c, d, p) \<Rightarrow>
          snd (add_ipv4_cidr deny_all (of_nat a) (of_nat b) (of_nat c) (of_nat d) (of_nat p))
      | None \<Rightarrow> private_lan)"

text \<open>The table as the list of its entries: \<open>add\<close> appends, and no slot is overwritten.\<close>

definition acl_list :: "acl \<Rightarrow> acl_entry list" where
  "acl_list acl = List.map_filter id (acl_entries acl)"

definition acl_inv :: "acl \<Rightarrow> bool" where
  "acl_inv acl \<longleftrightarrow> acl_len acl \<le> ACL_MAX_ENTRIES \<and>
     acl_entries acl = map Some (acl_list acl) @ replicate (ACL_MAX_ENTRIES - acl_len acl) None \<and>
     length (acl_list acl) = acl_len acl"

lemma map_filter_id_Some [simp]: "List.map_filter id (map Some xs @ replicate n None) = xs"
  by (induction xs) (auto simp: List.map_filter_def)

lemma acl_inv_init: "acl_inv deny_all" "acl_inv allow_all" "acl_list deny_all = []" "acl_list allow_all = []"
  "acl_len deny_all = 0" "acl_len allow_all = 0"
  using map_filter_id_Some[of "[]" ACL_MAX_ENTRIES]
  by (simp_all add: acl_inv_def acl_list_def deny_all_def allow_all_def)

lemma position_replicate:
  "0 < n \<Longrightarrow> position (\<lambda>e. e = None) (map Some xs @ replicate n None) = Some (length xs)"
  by (induction xs) (auto simp: gr0_conv_Suc)

lemma acl_add:
  assumes "acl_inv acl" "acl_len acl < ACL_MAX_ENTRIES"
  shows "fst (add_ipv4_cidr acl a b c d p) \<and> acl_inv (snd (add_ipv4_cidr acl a b c d p))
    \<and> acl_list (snd (add_ipv4_cidr acl a b c d p))
      = acl_list acl @ [\<lparr>ae_network = from_be32 a b c d, ae_mask = prefix_mask p\<rparr>]
    \<and> acl_len (snd (add_ipv4_cidr acl a b c d p)) = acl_len acl + 1"
proof -
  let ?e = "\<lparr>ae_network = from_be32 a b c d, ae_mask = prefix_mask p\<rparr>"
  let ?n = "ACL_MAX_ENTRIES - acl_len acl"
  have n: "0 < ?n" "replicate ?n None = None # replicate (ACL_MAX_ENTRIES - Suc (acl_len acl)) None"
    using assms(2) by (auto simp: Suc_diff_Suc simp flip: replicate_Suc)
  have e: "acl_entries acl = map Some (acl_list acl) @ replicate ?n None"
    using assms(1) by (simp add: acl_inv_def)
  have l: "length (acl_list acl) = acl_len acl" using assms(1) by (simp add: acl_inv_def)
  have "(acl_entries acl)[length (acl_list acl) := Some ?e]
      = map Some (acl_list acl @ [?e]) @ replicate (ACL_MAX_ENTRIES - Suc (acl_len acl)) None"
    by (subst e, subst n(2)) (simp add: list_update_append)
  moreover have "position (\<lambda>e. e = None) (acl_entries acl) = Some (length (acl_list acl))"
    using position_replicate[OF n(1), of "acl_list acl"] e by simp
  ultimately show ?thesis
    using assms(2) l map_filter_id_Some[of "acl_list acl @ [?e]"]
    by (simp add: add_ipv4_cidr_def acl_inv_def acl_list_def del: map_append)
qed

lemma acl_allows_list:
  assumes "acl_inv acl"
  shows "acl_allows acl addr =
    (if acl_list acl = [] then default_allow acl
     else list_ex (\<lambda>e. entry_contains e addr) (acl_list acl))"
proof -
  have "acl_entries acl = map Some (acl_list acl) @ replicate (ACL_MAX_ENTRIES - acl_len acl) None"
    using assms by (simp add: acl_inv_def)
  then have "list_ex (\<lambda>e. case e of None \<Rightarrow> False | Some x \<Rightarrow> entry_contains x addr) (acl_entries acl)
      = list_ex (\<lambda>e. entry_contains e addr) (acl_list acl)"
    by (simp add: list_ex_iff bex_Un)
  then show ?thesis using assms by (auto simp: acl_allows_def acl_inv_def)
qed

text \<open>An entry's mask keeps the prefix: containment compares the leading bits.\<close>

lemma prefix_shift:
  assumes "0 < unat (p :: u8)" "unat p \<le> 32"
  shows "unat ((32 - ucast p :: u32) AND 31) = 32 - unat p"
proof -
  have p: "unat (ucast p :: u32) = unat p"
    using unsigned_less[of p, where ?'a = nat]
    by (simp add: unsigned_ucast_eq take_bit_nat_eq_self)
  have "unat (32 - ucast p :: u32) = 32 - unat p"
    using assms p by (subst unat_sub) (auto simp: word_le_nat_alt)
  moreover have "(32 - ucast p :: u32) AND 31 = take_bit 5 (32 - ucast p)"
    by (simp add: take_bit_eq_mask mask_eq_exp_minus_1)
  ultimately show ?thesis using assms by (simp add: take_bit_eq_mod unat_mod_distrib)
qed

lemma entry_contains_prefix:
  assumes "unat p \<le> 32"
  shows "entry_contains \<lparr>ae_network = n, ae_mask = prefix_mask p\<rparr> a
    \<longleftrightarrow> drop_bit (32 - unat p) a = drop_bit (32 - unat p) n"
proof (cases "p = 0")
  case True
  have "drop_bit 32 x = 0" for x :: u32 by (rule bit_word_eqI) (simp add: bit_simps)
  with True show ?thesis by (simp add: entry_contains_def prefix_mask_def)
next
  case False
  let ?s = "32 - unat p"
  have "0 < unat p" using False by (simp add: unat_gt_0)
  then have m: "prefix_mask p = NOT (mask ?s)"
    using False prefix_shift[of p] assms
    by (simp add: prefix_mask_def mask_eq_exp_minus_1 push_bit_eq_mult)
  have "(a AND NOT (mask ?s)) = (n AND NOT (mask ?s))
      \<longleftrightarrow> drop_bit ?s a = drop_bit ?s n"
  proof
    assume *: "(a AND NOT (mask ?s)) = (n AND NOT (mask ?s))"
    show "drop_bit ?s a = drop_bit ?s n"
    proof (rule bit_word_eqI)
      fix k assume "k < LENGTH(32)"
      have "bit (a AND NOT (mask ?s)) (?s + k) = bit (n AND NOT (mask ?s)) (?s + k)" using * by simp
      then show "bit (drop_bit ?s a) k = bit (drop_bit ?s n) k"
        by (auto simp: bit_simps dest: bit_imp_le_length)
    qed
  next
    assume *: "drop_bit ?s a = drop_bit ?s n"
    show "(a AND NOT (mask ?s)) = (n AND NOT (mask ?s))"
    proof (rule bit_word_eqI)
      fix k assume "k < LENGTH(32)"
      have "bit (drop_bit ?s a) (k - ?s) = bit (drop_bit ?s n) (k - ?s)" using * by simp
      then show "bit (a AND NOT (mask ?s)) k = bit (n AND NOT (mask ?s)) k"
        by (cases "k < ?s") (auto simp: bit_simps)
    qed
  qed
  then show ?thesis by (simp add: entry_contains_def m)
qed

text \<open>The LAN preset accepts exactly the addresses of 127.0.0.0/8, 10.0.0.0/8,
  172.16.0.0/12 and 192.168.0.0/16, and no others.\<close>

theorem private_lan_exact:
  "acl_allows private_lan addr \<longleftrightarrow>
     drop_bit 24 addr = 127 \<or> drop_bit 24 addr = 10 \<or>
     drop_bit 20 addr = 0xAC1 \<or> drop_bit 16 addr = 0xC0A8"
proof -
  define a1 where "a1 = snd (add_ipv4_cidr deny_all 127 0 0 0 8)"
  define a2 where "a2 = snd (add_ipv4_cidr a1 10 0 0 0 8)"
  define a3 where "a3 = snd (add_ipv4_cidr a2 172 16 0 0 12)"
  have d: "acl_inv deny_all" "acl_len deny_all = 0" "acl_list deny_all = []"
    by (simp_all add: acl_inv_init)
  note a1 = acl_add[OF d(1), of 127 0 0 0 8, folded a1_def]
  have i1: "acl_inv a1" "acl_len a1 = 1" using a1 d by (auto simp: ACL_MAX_ENTRIES_def)
  note a2 = acl_add[OF i1(1), of 10 0 0 0 8, folded a2_def]
  have i2: "acl_inv a2" "acl_len a2 = 2" using a2 i1 by (auto simp: ACL_MAX_ENTRIES_def)
  note a3 = acl_add[OF i2(1), of 172 16 0 0 12, folded a3_def]
  have i3: "acl_inv a3" "acl_len a3 = 3" using a3 i2 by (auto simp: ACL_MAX_ENTRIES_def)
  note a4 = acl_add[OF i3(1), of 192 168 0 0 16]
  have p: "private_lan = snd (add_ipv4_cidr a3 192 168 0 0 16)"
    by (simp add: private_lan_def a1_def a2_def a3_def Let_def)
  have "acl_inv private_lan" "acl_list private_lan =
      [\<lparr>ae_network = from_be32 127 0 0 0, ae_mask = prefix_mask 8\<rparr>,
       \<lparr>ae_network = from_be32 10 0 0 0, ae_mask = prefix_mask 8\<rparr>,
       \<lparr>ae_network = from_be32 172 16 0 0, ae_mask = prefix_mask 12\<rparr>,
       \<lparr>ae_network = from_be32 192 168 0 0, ae_mask = prefix_mask 16\<rparr>]"
    using a1 a2 a3 a4 d i1 i2 i3 by (auto simp: p ACL_MAX_ENTRIES_def)
  then show ?thesis
    by (simp add: acl_allows_list entry_contains_prefix from_be32_def)
qed

text \<open>A CIDR that the parser accepts gives an allowlist that accepts exactly the
  addresses agreeing with the network on the first \<open>p\<close> bits.\<close>

theorem acl_from_config_prefix:
  assumes "parse_ipv4_cidr s = Some (a, b, c, d, p)"
  shows "acl_allows (acl_from_config s) addr \<longleftrightarrow>
    drop_bit (32 - p) addr = drop_bit (32 - p) (from_be32 (of_nat a) (of_nat b) (of_nat c) (of_nat d))"
proof -
  have p: "p \<le> 32"
    using assms by (auto simp: parse_ipv4_cidr_def Let_def split: if_splits option.splits list.splits)
  then have u: "unat (of_nat p :: u8) = p" by (simp add: unat_of_nat)
  have d: "acl_inv deny_all" "acl_len deny_all < ACL_MAX_ENTRIES" "acl_list deny_all = []"
    by (simp_all add: acl_inv_init ACL_MAX_ENTRIES_def)
  show ?thesis
    using acl_add[OF d(1,2), of "of_nat a" "of_nat b" "of_nat c" "of_nat d" "of_nat p"] d p u assms
    by (simp add: acl_from_config_def acl_allows_list entry_contains_prefix)
qed

theorem acl_from_config_prefix_witness:
  "acl_allows (acl_from_config ''10.1.0.0/16'') 0x0A01FFFF \<longleftrightarrow>
    drop_bit (32 - 16) (0x0A01FFFF :: u32) = drop_bit (32 - 16)
      (from_be32 (of_nat 10) (of_nat 1) (of_nat 0) (of_nat 0))"
  by (rule acl_from_config_prefix) code_simp

text \<open>\<open>default_allow\<close> decides only for an empty list: a list built from \<open>allow_all\<close>
  denies every address its entry does not cover.\<close>

theorem allow_all_entry_denies_rest:
  assumes "p \<le> 32"
  shows "acl_allows allow_all addr \<and>
    (acl_allows (snd (add_ipv4_cidr allow_all a b c d p)) addr \<longleftrightarrow>
      drop_bit (32 - unat p) addr = drop_bit (32 - unat p) (from_be32 a b c d))"
proof
  show "acl_allows allow_all addr" by (simp add: acl_allows_list acl_inv_init) (simp add: allow_all_def)
  have p: "unat p \<le> 32" using assms by (simp add: word_le_nat_alt)
  have d: "acl_inv allow_all" "acl_len allow_all < ACL_MAX_ENTRIES" "acl_list allow_all = []"
    by (simp_all add: acl_inv_init ACL_MAX_ENTRIES_def)
  show "acl_allows (snd (add_ipv4_cidr allow_all a b c d p)) addr \<longleftrightarrow>
      drop_bit (32 - unat p) addr = drop_bit (32 - unat p) (from_be32 a b c d)"
    using acl_add[OF d(1,2), of a b c d p] d p by (simp add: acl_allows_list entry_contains_prefix)
qed

theorem allow_all_entry_denies_rest_witness:
  "acl_allows allow_all 0x08080808 \<and>
   \<not> acl_allows (snd (add_ipv4_cidr allow_all 10 0 0 0 8)) 0x08080808"
  using allow_all_entry_denies_rest[where p = 8 and addr = "0x08080808" and a = 10 and b = 0 and c = 0 and d = 0] by (simp add: from_be32_def)

text \<open>The documented form of a CIDR.\<close>

definition fmt_cidr :: "nat \<Rightarrow> nat \<Rightarrow> nat \<Rightarrow> nat \<Rightarrow> nat \<Rightarrow> string" where
  "fmt_cidr a b c d p = dec_digits a @ ''.'' @ dec_digits b @ ''.'' @ dec_digits c @ ''.'' @
     dec_digits d @ ''/'' @ dec_digits p"

lemma parse_dec_digits: "v \<le> mx \<Longrightarrow> parse_uint 10 mx (dec_digits v) = Some v"
proof -
  obtain x xs where x: "dec_digits v = x # xs" by (metis dec_digits_nonempty list.exhaust)
  then have "byte_of x \<ge> 48" using dec_digits_chars[of x v] by auto
  then have "x \<noteq> CHR ''+''" by auto
  then show "v \<le> mx \<Longrightarrow> ?thesis"
    using digits_val_dec_digits[of v] x by (simp add: parse_uint_def)
qed

lemma dec_digits_no_sep: "byte_of c < 48 \<Longrightarrow> c \<notin> set (dec_digits n)"
  using dec_digits_chars[of c n] by auto

lemma trim_digits:
  assumes "s \<noteq> []" "48 \<le> byte_of (hd s)" "byte_of (hd s) \<le> 57"
    "48 \<le> byte_of (last s)" "byte_of (last s) \<le> 57"
  shows "trim s = s"
proof (rule trim_id[OF assms(1)])
  show "ws_head s = 0"
    using assms(2,3) by (cases s rule: ws_head.cases) (auto simp: ascii_ws_def ws3_def)
  define t where "t = rev s"
  have "48 \<le> byte_of (hd t)" "byte_of (hd t) \<le> 57" using assms by (simp_all add: t_def hd_rev)
  then have "ws_last t = 0"
    by (cases t rule: ws_last.cases) (auto simp: ascii_ws_def ws3_def)
  then show "ws_last (rev s) = 0" by (simp add: t_def)
qed

text \<open>Printing a network and prefix in the documented \<open>a.b.c.d/p\<close> form and parsing it
  gives them back.\<close>

theorem parse_cidr_roundtrip:
  assumes "a < 256" "b < 256" "c < 256" "d < 256" "p \<le> 32"
  shows "parse_ipv4_cidr (fmt_cidr a b c d p) = Some (a, b, c, d, p)"
proof -
  let ?addr = "dec_digits a @ ''.'' @ dec_digits b @ ''.'' @ dec_digits c @ ''.'' @ dec_digits d"
  have sl: "CHR ''/'' \<notin> set ?addr" by (auto dest: dec_digits_chars)
  have dot: "CHR ''.'' \<notin> set (dec_digits n)" for n by (rule dec_digits_no_sep) simp
  have eq: "fmt_cidr a b c d p = ?addr @ CHR ''/'' # dec_digits p" by (simp add: fmt_cidr_def)
  have hl: "hd (fmt_cidr a b c d p) \<in> set (dec_digits a)" "last (fmt_cidr a b c d p) \<in> set (dec_digits p)"
    by (simp_all add: fmt_cidr_def)
  have "trim (fmt_cidr a b c d p) = fmt_cidr a b c d p"
    using dec_digits_chars[OF hl(1)] dec_digits_chars[OF hl(2)]
    by (intro trim_digits) (auto simp: fmt_cidr_def)
  moreover have "split_char (CHR ''.'') ?addr = [dec_digits a, dec_digits b, dec_digits c, dec_digits d]"
    using dot by (simp add: split_char_append split_char_no_sep)
  moreover have "fmt_cidr a b c d p \<noteq> []" by (simp add: fmt_cidr_def)
  ultimately show ?thesis
    using assms by (simp add: parse_ipv4_cidr_def eq split_once_append[OF sl, simplified]
      parse_u8_def parse_dec_digits)
qed

theorem parse_cidr_roundtrip_witness:
  "parse_ipv4_cidr (fmt_cidr 192 168 1 0 24) = Some (192, 168, 1, 0, 24)"
  by (rule parse_cidr_roundtrip) simp_all

end
