(* ===== verification/Ntp_Time.thy ===== *)
theory Ntp_Time
  imports IEEE_Float Protection
begin

text \<open>
  NTP time formats (\<open>src/ntp/mod.rs\<close>): packing Unix seconds and microseconds into a 64-bit
  NTP timestamp, the wall-clock timestamp, the precision exponent and the version mirrored
  into replies. The lemmas say what the packed words mean as numbers, and that the
  microsecond is recovered from the fraction.
\<close>

section \<open>Constants and timestamps\<close>

definition NTP_UNIX_EPOCH_OFFSET_SECS :: u64 where
  "NTP_UNIX_EPOCH_OFFSET_SECS = 2208988800"

definition NTP_FRAC_SCALE :: nat where "NTP_FRAC_SCALE = 2 ^ 32"
definition MICROS_PER_SEC :: int where "MICROS_PER_SEC = 1000000"

definition ntp_timestamp_from_unix :: "i64 \<Rightarrow> u64 \<Rightarrow> u64" where
  "ntp_timestamp_from_unix unix_seconds rem_us =
     (let ntp_seconds = (if 0 \<le> unix_seconds
                         then u64_sat_add (of_int unix_seconds) NTP_UNIX_EPOCH_OFFSET_SECS
                         else NTP_UNIX_EPOCH_OFFSET_SECS);
          ntp_fraction = of_nat (unat rem_us * NTP_FRAC_SCALE div 1000000)
      in push_bit 32 ntp_seconds OR ntp_fraction)"

text \<open>
  The wall clock since the Unix epoch, as seconds and nanoseconds; \<open>None\<close> when the clock
  is set before the epoch (the source then uses zero).
\<close>

type_synonym wall_clock = "(u64 \<times> nat) option"

definition ntp_timestamp_now :: "wall_clock \<Rightarrow> u64" where
  "ntp_timestamp_now wall =
     (let unix = (case wall of Some d \<Rightarrow> d | None \<Rightarrow> (0, 0));
          seconds = u64_sat_add (fst unix) NTP_UNIX_EPOCH_OFFSET_SECS;
          fraction = of_nat (snd unix * NTP_FRAC_SCALE div 1000000000)
      in push_bit 32 seconds OR fraction)"

definition reply_version :: "u8 \<Rightarrow> u8" where
  "reply_version request_vn = (if 1 \<le> request_vn \<and> request_vn \<le> 4 then request_vn else 4)"

text \<open>
  The precision exponent. \<open>f64::log2\<close> comes from the platform's math library, which fixes
  no rounding: it is the parameter \<open>log2\<close>.
\<close>

definition ntp_precision_from_uncertainty_us :: "(fp \<Rightarrow> fp) \<Rightarrow> fp \<Rightarrow> i8" where
  "ntp_precision_from_uncertainty_us log2 uncertainty_us =
     (let secs = fdiv F64 (fmax uncertainty_us (flit F64 1)) (flit F64 1000000)
      in fcast (- 128) 127 (fclamp (flit F64 (- 20)) (flit F64 (- 4)) (ffloor (log2 secs))))"

section \<open>Meaning of a packed timestamp\<close>

definition ts_seconds :: "u64 \<Rightarrow> int" where "ts_seconds ts = uint ts div 2 ^ 32"
definition ts_fraction :: "u64 \<Rightarrow> int" where "ts_fraction ts = uint ts mod 2 ^ 32"

lemma frac_less: "us < 1000000 \<Longrightarrow> us * 2 ^ 32 div 1000000 < (2 ^ 32 :: int)"
  by simp

lemma uint_pack:
  assumes "f < 2 ^ 32"
  shows "uint (push_bit 32 (s :: u64) OR of_nat f) = (uint s mod 2 ^ 32) * 2 ^ 32 + int f"
proof -
  have f: "uint (of_nat f :: u64) = int f"
    using assms by (simp add: uint_nat unat_of_nat take_bit_nat_eq_self)
  have d: "push_bit 32 s AND of_nat f = (0 :: u64)"
  proof (rule bit_word_eqI)
    fix n assume "n < LENGTH(64)"
    have "\<not> bit (of_nat f :: u64) n" if "32 \<le> n"
    proof -
      have "f div 2 ^ n = 0" using assms that
        by (metis div_less less_le_trans one_le_numeral power_increasing)
      then show ?thesis by (auto simp: bit_of_nat_iff) (metis bit_iff_odd even_zero)
    qed
    then show "bit (push_bit 32 s AND of_nat f :: u64) n = bit (0 :: u64) n"
      by (auto simp: bit_simps)
  qed
  have "push_bit 32 s OR of_nat f = (push_bit 32 s + of_nat f :: u64)"
    using d by (simp add: disjunctive_add_eq_or)
  also have "uint \<dots> = (uint s mod 2 ^ 32) * 2 ^ 32 + int f"
  proof -
    have "uint (push_bit 32 s) = (uint s mod 2 ^ 32) * 2 ^ 32"
    proof -
      have "uint (push_bit 32 s) = (uint s * 2 ^ 32) mod (2 ^ 32 * 2 ^ 32)"
        by (simp add: unsigned_push_bit_eq take_bit_eq_mod del: push_bit_of_1 push_bit_numeral)
          (simp add: push_bit_eq_mult)
      also have "\<dots> = (uint s mod 2 ^ 32) * 2 ^ 32" by (simp only: mod_mult_mult2)
      finally show ?thesis .
    qed
    moreover have "uint s mod 2 ^ 32 \<le> 2 ^ 32 - 1" by simp
    ultimately show ?thesis using f assms by (simp add: uint_word_ariths(1))
  qed
  finally show ?thesis .
qed

lemma uint_timestamp:
  assumes "unat us < 1000000"
  shows "uint (ntp_timestamp_from_unix t us) =
    (uint (if 0 \<le> t then u64_sat_add (of_int t) NTP_UNIX_EPOCH_OFFSET_SECS
           else NTP_UNIX_EPOCH_OFFSET_SECS) mod 2 ^ 32) * 2 ^ 32
    + uint us * 2 ^ 32 div 1000000"
proof -
  have "unat us * 2 ^ 32 div 1000000 < (2 ^ 32 :: nat)" using assms by simp
  moreover have "int (unat us * 2 ^ 32 div 1000000) = uint us * 2 ^ 32 div 1000000"
    by (simp add: zdiv_int)
  ultimately show ?thesis
    unfolding ntp_timestamp_from_unix_def Let_def NTP_FRAC_SCALE_def by (simp only: uint_pack)
qed

text \<open>The seconds of the anchor clock's range, \<open>0 .. 2 ^ 63\<close>, never saturate.\<close>

lemma ts_seconds_from_unix:
  assumes "0 \<le> t" "t \<le> i64_max" "unat us < 1000000"
  shows "ts_seconds (ntp_timestamp_from_unix t us) = (t + 2208988800) mod 2 ^ 32"
    and "ts_fraction (ntp_timestamp_from_unix t us) = uint us * 2 ^ 32 div 1000000"
proof -
  have f: "uint us * 2 ^ 32 div 1000000 < 2 ^ 32" "0 \<le> uint us * 2 ^ 32 div 1000000"
    using assms(3) frac_less[of "uint us"] by (simp_all add: uint_nat del: of_nat_unat)
  have t: "uint (of_int t :: u64) = t"
    using assms(1,2) by (simp add: uint_word_of_int_eq take_bit_int_eq_self i64_max_def)
  have "uint (u64_sat_add (of_int t) NTP_UNIX_EPOCH_OFFSET_SECS) = t + 2208988800"
    using t assms(2) by (simp add: u64_sat_add_uint NTP_UNIX_EPOCH_OFFSET_SECS_def i64_max_def)
  then show "ts_seconds (ntp_timestamp_from_unix t us) = (t + 2208988800) mod 2 ^ 32"
    and "ts_fraction (ntp_timestamp_from_unix t us) = uint us * 2 ^ 32 div 1000000"
    using f assms(1) uint_timestamp[OF assms(3), of t] by (simp_all add: ts_seconds_def ts_fraction_def)
qed

text \<open>The microsecond is the rounded-up value of the fraction.\<close>

lemma fraction_to_us:
  assumes "0 \<le> us" "us < 1000000"
  shows "\<lceil>of_int (us * 2 ^ 32 div 1000000) * 1000000 / 2 ^ 32 :: rat\<rceil> = us"
proof -
  let ?f = "us * 2 ^ 32 div 1000000"
  have "?f * 1000000 \<le> us * 2 ^ 32" "us * 2 ^ 32 - 1000000 < ?f * 1000000" by simp_all
  then have "of_int (?f * 1000000) \<le> (of_int (us * 2 ^ 32) :: rat)"
    "of_int (us * 2 ^ 32 - 1000000) < (of_int (?f * 1000000) :: rat)"
    by (simp_all only: of_int_le_iff of_int_less_iff)
  then show ?thesis by (intro ceiling_unique) (simp_all add: field_simps)
qed

text \<open>The timestamp of a Unix second and microsecond holds the NTP-era second in its high
  half, and both are read back from it: the second modulo the era, the microsecond exactly.\<close>

theorem timestamp_roundtrip:
  assumes "0 \<le> t" "t \<le> i64_max" "unat us < 1000000"
  shows "ts_seconds (ntp_timestamp_from_unix t us) = (t + 2208988800) mod 2 ^ 32
    \<and> \<lceil>of_int (ts_fraction (ntp_timestamp_from_unix t us)) * 1000000 / 2 ^ 32 :: rat\<rceil> = uint us"
  using ts_seconds_from_unix[OF assms] fraction_to_us[of "uint us"] assms(3)
  by (simp add: uint_nat del: of_nat_unat)

theorem timestamp_roundtrip_witness:
  "ts_seconds (ntp_timestamp_from_unix 2085978497 999999) = 1
    \<and> \<lceil>of_int (ts_fraction (ntp_timestamp_from_unix 2085978497 999999)) * 1000000 / 2 ^ 32 :: rat\<rceil>
        = 999999"
  using timestamp_roundtrip[of 2085978497 999999] by (simp add: i64_max_def)

end
