(* ===== verification/Discipline.thy ===== *)
theory Discipline
  imports Ntp_Time
begin

text \<open>
  The clock discipline of the NTP server (\<open>src/ntp/mod.rs\<close>): the server state, the updates
  from RTC, GPS and PPS, the frequency servo with its integer-second accounting, and the
  quality figures (stratum, leap, dispersion, precision) derived from them.

  Clock readings are arguments: \<open>now_us\<close> stands for the value \<open>monotonic_us_now()\<close> returns
  at that point, \<open>wall\<close> for the system clock. The socket is the environment of \<open>Ntp_Poll\<close>.
\<close>

section \<open>Parameters and state\<close>

text \<open>The build-time setting \<open>NMEA_PPS_FUDGE_S\<close>, from the text of the environment variable.\<close>

definition NMEA_PPS_FUDGE_S :: "string \<Rightarrow> i64" where
  "NMEA_PPS_FUDGE_S cfg = (if cfg = ''0'' then 0 else 1)"

definition SERVO_KP :: fp where "SERVO_KP = flit F64 (1 / 10)"
definition SERVO_KI :: fp where "SERVO_KI = flit F64 (1 / 100)"
definition SERVO_MAX_FREQ_PPM :: fp where "SERVO_MAX_FREQ_PPM = flit F64 500"
definition STRATUM_UNSYNC :: u8 where "STRATUM_UNSYNC = 16"
definition HOLDOVER_ENTRY_US :: int where "HOLDOVER_ENTRY_US = 10000000"
definition HOLDOVER_DISP_RATE_US_PER_SEC :: int where "HOLDOVER_DISP_RATE_US_PER_SEC = 500"
definition BASE_DISP_US :: int where "BASE_DISP_US = 1000"
definition MAX_DISP_US :: int where "MAX_DISP_US = 2000000"
definition HOLDOVER_UNSYNC_US :: int where "HOLDOVER_UNSYNC_US = 1000000"
definition PHI_US_PER_S :: int where "PHI_US_PER_S = 15"
definition MIN_HW_ACCURACY_US :: int where "MIN_HW_ACCURACY_US = 100"
definition LOOP_POLL_UNCERTAINTY_US :: int where "LOOP_POLL_UNCERTAINTY_US = 500"
definition PPS_OUTLIER_THRESHOLD_US :: int where "PPS_OUTLIER_THRESHOLD_US = 50000"
definition GPS_STALE_THRESHOLD_US :: int where "GPS_STALE_THRESHOLD_US = 2000000"

lemmas servo_consts = SERVO_KP_def SERVO_KI_def SERVO_MAX_FREQ_PPM_def

lemmas disp_consts = STRATUM_UNSYNC_def HOLDOVER_ENTRY_US_def HOLDOVER_DISP_RATE_US_PER_SEC_def
  BASE_DISP_US_def MAX_DISP_US_def HOLDOVER_UNSYNC_US_def PHI_US_PER_S_def MIN_HW_ACCURACY_US_def
  LOOP_POLL_UNCERTAINTY_US_def MICROS_PER_SEC_def

record clock_anchor =
  unix_seconds :: i64
  monotonic_us :: i64

datatype discipline_state = Locked | Holdover | Unsync

record discipline_params =
  dp_stratum :: u8
  dp_state :: discipline_state
  dp_leap :: u8
  dp_root_disp_short :: u32
  dp_root_disp_ms :: fp
  dp_ref_ts :: u64
  dp_current_ts :: u64
  dp_precision :: i8

record servo_stats =
  ss_pps_offset_us :: i32
  ss_pps_jitter_us :: fp
  ss_proc_delay_us :: fp
  ss_freq_ppm :: fp

record ntp_snapshot =
  ns_stratum :: u8
  ns_state :: discipline_state
  ns_freq_ppm :: fp
  ns_pps_offset_us :: i32
  ns_pps_jitter_us :: fp
  ns_root_disp_ms :: fp
  ns_served :: u64
  ns_rate_limited :: u64
  ns_acl_blocked :: u64
  ns_pps_glitch_count :: u32
  ns_anchor_step_count :: u32
  ns_leap_indicator :: u8
  ns_proc_delay_us :: fp
  ns_proc_delay_has_sample :: bool

definition ntp_snapshot_default :: ntp_snapshot where
  "ntp_snapshot_default =
     \<lparr>ns_stratum = 16, ns_state = Unsync, ns_freq_ppm = Num 0, ns_pps_offset_us = 0,
      ns_pps_jitter_us = Num 0, ns_root_disp_ms = flit F64 5000, ns_served = 0,
      ns_rate_limited = 0, ns_acl_blocked = 0, ns_pps_glitch_count = 0,
      ns_anchor_step_count = 0, ns_leap_indicator = 0, ns_proc_delay_us = Num 0,
      ns_proc_delay_has_sample = False\<rparr>"

record ntp_server =
  served :: u64
  clock_anchor :: "clock_anchor option"
  last_gps_utc_seconds :: "i64 option"
  pps_locked :: bool
  pps_offset_us :: i32
  pps_jitter_us :: fp
  pps_has_sample :: bool
  proc_delay_us :: fp
  proc_delay_has_sample :: bool
  freq_ppm :: fp
  last_pps_monotonic_us :: "i64 option"
  last_sync_ntp_ts :: u64
  rate_limiter :: rate_table
  server_acl :: acl
  rate_limited_total :: u64
  acl_blocked_total :: u64
  pending_leap :: u8
  pps_glitch_count :: u32
  anchor_step_count :: u32
  pending_gps_step :: "i64 option"
  last_gps_utc_update_us :: "i64 option"

definition from_socket :: ntp_server where
  "from_socket =
     \<lparr>served = 0, clock_anchor = None, last_gps_utc_seconds = None, pps_locked = False,
      pps_offset_us = 0, pps_jitter_us = Num 0, pps_has_sample = False, proc_delay_us = Num 0,
      proc_delay_has_sample = False, freq_ppm = Num 0, last_pps_monotonic_us = None,
      last_sync_ntp_ts = 0, rate_limiter = rate_new, server_acl = allow_all,
      rate_limited_total = 0, acl_blocked_total = 0, pending_leap = 0, pps_glitch_count = 0,
      anchor_step_count = 0, pending_gps_step = None, last_gps_utc_update_us = None\<rparr>"

section \<open>Configuration and time sources\<close>

definition set_acl :: "acl \<Rightarrow> ntp_server \<Rightarrow> ntp_server" where
  "set_acl a s = s\<lparr>server_acl := a\<rparr>"

text \<open>\<open>cidr\<close> is the build-time text \<open>NTP_ACL_CIDR\<close>.\<close>

definition apply_boot_acl :: "string \<Rightarrow> ntp_server \<Rightarrow> ntp_server" where
  "apply_boot_acl cidr s = set_acl (acl_from_config cidr) s"

definition set_leap_indicator :: "u8 \<Rightarrow> ntp_server \<Rightarrow> ntp_server" where
  "set_leap_indicator li s = s\<lparr>pending_leap := min li 2\<rparr>"

definition seed_utc_seconds :: "i64 \<Rightarrow> i64 \<Rightarrow> ntp_server \<Rightarrow> ntp_server" where
  "seed_utc_seconds utc now_us s =
     (if pps_locked s \<or> clock_anchor s \<noteq> None then s
      else s\<lparr>clock_anchor := Some \<lparr>unix_seconds = utc, monotonic_us = now_us\<rparr>\<rparr>)"

definition update_gps_utc_seconds :: "i64 \<Rightarrow> i64 \<Rightarrow> ntp_server \<Rightarrow> ntp_server" where
  "update_gps_utc_seconds utc now_us s =
     (let s = s\<lparr>last_gps_utc_seconds := Some utc, last_gps_utc_update_us := Some now_us\<rparr>
      in if pps_locked s then s
         else s\<lparr>clock_anchor := Some \<lparr>unix_seconds = utc, monotonic_us = now_us\<rparr>\<rparr>)"

definition gps_time_fresh :: "i64 \<Rightarrow> ntp_server \<Rightarrow> bool" where
  "gps_time_fresh edge_us s = (case last_gps_utc_update_us s of
       Some t \<Rightarrow> sat_sub edge_us t < GPS_STALE_THRESHOLD_US
     | None \<Rightarrow> False)"

definition gps_second_at_edge :: "i64 \<Rightarrow> i64 \<Rightarrow> ntp_server \<Rightarrow> i64 option" where
  "gps_second_at_edge fudge edge_us s =
     (if \<not> gps_time_fresh edge_us s then None
      else case (last_gps_utc_seconds s, last_gps_utc_update_us s) of
        (Some gps_utc, Some t_nmea) \<Rightarrow>
          (let whole_secs = sat_sub edge_us t_nmea div MICROS_PER_SEC
           in Some (sat_add (sat_add gps_utc whole_secs) fudge))
      | _ \<Rightarrow> None)"

section \<open>The servo\<close>

definition lock_anchor :: "i64 \<Rightarrow> i64 \<Rightarrow> ntp_server \<Rightarrow> ntp_server" where
  "lock_anchor secs edge_us s =
     s\<lparr>clock_anchor := Some \<lparr>unix_seconds = secs, monotonic_us = edge_us\<rparr>,
       pps_locked := True, pending_gps_step := None, last_pps_monotonic_us := Some edge_us,
       last_sync_ntp_ts := ntp_timestamp_from_unix secs 0\<rparr>"

definition corrected_elapsed_us :: "i64 \<Rightarrow> ntp_server \<Rightarrow> i64" where
  "corrected_elapsed_us raw_elapsed_us s =
     max 0 (if feq (freq_ppm s) (Num 0) then raw_elapsed_us
            else fcast i64_min i64_max
              (fmul F64 (fint F64 raw_elapsed_us)
                 (fsub F64 (flit F64 1) (fdiv F64 (freq_ppm s) (flit F64 1000000)))))"

text \<open>Blending one interval error into the frequency estimate.\<close>

definition blend_freq :: "int \<Rightarrow> fp \<Rightarrow> fp" where
  "blend_freq phase_error_us f =
     fclamp (fneg SERVO_MAX_FREQ_PPM) SERVO_MAX_FREQ_PPM
       (fadd F64 f (fmul F64 (fsub F64 (fint F64 phase_error_us) f) SERVO_KI))"

text \<open>
  Integer-second accounting of an accepted pulse: the second counted from the anchor, then
  the second the pulse marks and the GPS disagreement that now waits for confirmation.
\<close>

definition predicted_second :: "i64 \<Rightarrow> clock_anchor \<Rightarrow> ntp_server \<Rightarrow> i64" where
  "predicted_second now_us anchor s =
     (let raw_elapsed_us = sat_sub now_us (monotonic_us anchor);
          elapsed_secs = wrap_i64 (corrected_elapsed_us raw_elapsed_us s + MICROS_PER_SEC div 2)
                         div MICROS_PER_SEC
      in sat_add (unix_seconds anchor) elapsed_secs)"

definition pulse_second :: "i64 \<Rightarrow> i64 \<Rightarrow> clock_anchor \<Rightarrow> ntp_server \<Rightarrow> i64 \<times> ntp_server" where
  "pulse_second fudge now_us anchor s =
     (let predicted = predicted_second now_us anchor s
      in case gps_second_at_edge fudge now_us s of
           Some gps \<Rightarrow>
             if gps \<noteq> predicted then
               (let delta = wrap_i64 (gps - predicted)
                in if pending_gps_step s = Some delta
                   then (gps, s\<lparr>pending_gps_step := None,
                                anchor_step_count := sat_inc (anchor_step_count s)\<rparr>)
                   else (predicted, s\<lparr>pending_gps_step := Some delta\<rparr>))
             else (predicted, s\<lparr>pending_gps_step := None\<rparr>)
         | None \<Rightarrow> (predicted, s\<lparr>pending_gps_step := None\<rparr>))"

text \<open>Smoothing of the jitter and the processing delay, in single precision.\<close>

definition ewma32 :: "fp \<Rightarrow> fp \<Rightarrow> fp" where
  "ewma32 old sample =
     fadd F32 (fmul F32 old (flit F32 (8 / 10))) (fmul F32 sample (flit F32 (2 / 10)))"

definition accept_pulse :: "i64 \<Rightarrow> int \<Rightarrow> i64 \<Rightarrow> clock_anchor \<Rightarrow> ntp_server \<Rightarrow> ntp_server" where
  "accept_pulse fudge phase_error_us now_us anchor s =
     (let s = s\<lparr>freq_ppm := blend_freq phase_error_us (freq_ppm s)\<rparr>;
          (secs, s) = pulse_second fudge now_us anchor s;
          phase_correction_us =
            fcast i64_min i64_max (fmul F64 (fint F64 phase_error_us) SERVO_KP);
          sample_jitter = fint F32 \<bar>phase_error_us\<bar>
      in s\<lparr>clock_anchor := Some \<lparr>unix_seconds = secs,
                                  monotonic_us = sat_sub now_us phase_correction_us\<rparr>,
           pps_offset_us := wrap_i32 phase_error_us,
           pps_jitter_us := (if pps_has_sample s then ewma32 (pps_jitter_us s) sample_jitter
                             else sample_jitter),
           pps_has_sample := True,
           last_pps_monotonic_us := Some now_us,
           last_sync_ntp_ts := ntp_timestamp_from_unix secs 0\<rparr>)"

definition observe_pps_pulse :: "i64 \<Rightarrow> u32 option \<Rightarrow> i64 \<Rightarrow> ntp_server \<Rightarrow> ntp_server" where
  "observe_pps_pulse fudge pps_interval_us edge_us s =
     (case pps_interval_us of
        None \<Rightarrow> (case gps_second_at_edge fudge edge_us s of
            None \<Rightarrow> s
          | Some secs \<Rightarrow> lock_anchor secs edge_us s)
      | Some interval \<Rightarrow>
          if \<not> (800000 \<le> interval \<and> interval \<le> 1200000) then s
          else case (if pps_locked s then clock_anchor s else None) of
            None \<Rightarrow> (case gps_second_at_edge fudge edge_us s of
                None \<Rightarrow> s
              | Some secs \<Rightarrow> lock_anchor secs edge_us s)
          | Some anchor \<Rightarrow>
              (let phase_error_us = uint interval - 1000000
               in if pps_has_sample s \<and> \<bar>phase_error_us\<bar> > PPS_OUTLIER_THRESHOLD_US
                  then s\<lparr>pps_glitch_count := sat_inc (pps_glitch_count s)\<rparr>
                  else accept_pulse fudge phase_error_us edge_us anchor s))"

section \<open>Time and quality served\<close>

definition current_ntp_timestamp :: "i64 \<Rightarrow> wall_clock \<Rightarrow> ntp_server \<Rightarrow> u64" where
  "current_ntp_timestamp now_us wall s = (case clock_anchor s of
       Some anchor \<Rightarrow>
         (let raw_elapsed_us = sat_sub now_us (monotonic_us anchor);
              corrected = corrected_elapsed_us raw_elapsed_us s;
              elapsed_seconds = corrected div MICROS_PER_SEC;
              rem_us = of_int (corrected mod MICROS_PER_SEC)
          in ntp_timestamp_from_unix (sat_add (unix_seconds anchor) elapsed_seconds) rem_us)
     | None \<Rightarrow> ntp_timestamp_now wall)"

definition current_utc_unix_seconds :: "i64 \<Rightarrow> ntp_server \<Rightarrow> i64 option" where
  "current_utc_unix_seconds now_us s =
     map_option (\<lambda>anchor.
       let raw_elapsed_us = sat_sub now_us (monotonic_us anchor);
           elapsed_seconds = corrected_elapsed_us raw_elapsed_us s div MICROS_PER_SEC
       in sat_add (unix_seconds anchor) elapsed_seconds) (clock_anchor s)"

text \<open>
  The three parts of \<open>discipline_params\<close> that later parts read: freshness, root dispersion
  in microseconds, and the precision exponent.
\<close>

definition pps_age_us :: "i64 \<Rightarrow> ntp_server \<Rightarrow> i64" where
  "pps_age_us now_us s =
     (case last_pps_monotonic_us s of Some t \<Rightarrow> sat_sub now_us t | None \<Rightarrow> i64_max)"

definition fully_synced :: "bool \<Rightarrow> i64 \<Rightarrow> ntp_server \<Rightarrow> bool" where
  "fully_synced gps_fix now_us s \<longleftrightarrow>
     gps_fix \<and> pps_age_us now_us s < HOLDOVER_ENTRY_US \<and> clock_anchor s \<noteq> None"

definition disp_us :: "bool \<Rightarrow> i64 \<Rightarrow> ntp_server \<Rightarrow> i64" where
  "disp_us gps_fix now_us s =
     (if fully_synced gps_fix now_us s then
        (let hw_accuracy =
               (if pps_has_sample s
                then max (fcast i64_min i64_max (fround (pps_jitter_us s))) MIN_HW_ACCURACY_US
                else MIN_HW_ACCURACY_US);
             age_us = min (pps_age_us now_us s) MICROS_PER_SEC;
             phi_component = wrap_i64 (PHI_US_PER_S * age_us) sdiv MICROS_PER_SEC
         in wrap_i64 (hw_accuracy + phi_component))
      else if clock_anchor s \<noteq> None then
        (let holdover_us = max (sat_sub (pps_age_us now_us s) HOLDOVER_ENTRY_US) 0;
             holdover_secs = holdover_us div MICROS_PER_SEC;
             growth = sat_mul holdover_secs HOLDOVER_DISP_RATE_US_PER_SEC
         in min (wrap_i64 (BASE_DISP_US + growth)) MAX_DISP_US)
      else MAX_DISP_US)"

definition discipline_precision :: "(fp \<Rightarrow> fp) \<Rightarrow> bool \<Rightarrow> i64 \<Rightarrow> ntp_server \<Rightarrow> i8" where
  "discipline_precision log2 gps_fix now_us s =
     (if fully_synced gps_fix now_us s then
        (let u = (if pps_has_sample s then fmax (pps_jitter_us s) (fint F32 MIN_HW_ACCURACY_US)
                  else fint F32 MIN_HW_ACCURACY_US);
             u = fmax u (fint F32 LOOP_POLL_UNCERTAINTY_US);
             u = (if proc_delay_has_sample s then fmax u (proc_delay_us s) else u)
         in ntp_precision_from_uncertainty_us log2 (fconv F64 u))
      else if clock_anchor s \<noteq> None then
        ntp_precision_from_uncertainty_us log2 (fint F64 (disp_us gps_fix now_us s))
      else ntp_precision_from_uncertainty_us log2 (fint F64 MAX_DISP_US))"

definition root_disp_short :: "i64 \<Rightarrow> u32" where
  "root_disp_short disp = ucast (((of_int disp :: u64) * push_bit 16 1) div 1000000)"

definition discipline_params ::
    "(fp \<Rightarrow> fp) \<Rightarrow> bool \<Rightarrow> i64 \<Rightarrow> i64 \<Rightarrow> wall_clock \<Rightarrow> ntp_server \<Rightarrow> discipline_params" where
  "discipline_params log2 gps_fix now_us cur_us wall s =
     (let synced = fully_synced gps_fix now_us s;
          disp = disp_us gps_fix now_us s;
          holdover_ok = pps_locked s \<and> clock_anchor s \<noteq> None \<and> disp < HOLDOVER_UNSYNC_US;
          stratum = (if synced \<or> holdover_ok then 1 else STRATUM_UNSYNC);
          state = (if synced then Locked else if stratum = 1 then Holdover else Unsync);
          leap = (if stratum = 1 then pending_leap s else 3)
      in \<lparr>dp_stratum = stratum, dp_state = state, dp_leap = leap,
          dp_root_disp_short = root_disp_short disp,
          dp_root_disp_ms = fdiv F64 (fint F64 disp) (flit F64 1000),
          dp_ref_ts = last_sync_ntp_ts s,
          dp_current_ts = current_ntp_timestamp cur_us wall s,
          dp_precision = discipline_precision log2 gps_fix now_us s\<rparr>)"

definition get_servo_stats :: "ntp_server \<Rightarrow> servo_stats" where
  "get_servo_stats s =
     \<lparr>ss_pps_offset_us = pps_offset_us s, ss_pps_jitter_us = pps_jitter_us s,
      ss_proc_delay_us = proc_delay_us s, ss_freq_ppm = freq_ppm s\<rparr>"

definition get_ntp_snapshot ::
    "(fp \<Rightarrow> fp) \<Rightarrow> bool \<Rightarrow> i64 \<Rightarrow> i64 \<Rightarrow> wall_clock \<Rightarrow> ntp_server \<Rightarrow> ntp_snapshot" where
  "get_ntp_snapshot log2 gps_fix now_us cur_us wall s =
     (let dp = discipline_params log2 gps_fix now_us cur_us wall s
      in \<lparr>ns_stratum = dp_stratum dp, ns_state = dp_state dp, ns_freq_ppm = freq_ppm s,
          ns_pps_offset_us = pps_offset_us s, ns_pps_jitter_us = pps_jitter_us s,
          ns_root_disp_ms = dp_root_disp_ms dp, ns_served = served s,
          ns_rate_limited = rate_limited_total s, ns_acl_blocked = acl_blocked_total s,
          ns_pps_glitch_count = pps_glitch_count s, ns_anchor_step_count = anchor_step_count s,
          ns_leap_indicator = dp_leap dp,
          ns_proc_delay_us = (if proc_delay_has_sample s then proc_delay_us s else Num 0),
          ns_proc_delay_has_sample = proc_delay_has_sample s\<rparr>)"

definition record_proc_delay :: "i64 \<Rightarrow> i64 \<Rightarrow> ntp_server \<Rightarrow> ntp_server" where
  "record_proc_delay started_us finished_us s =
     (let sample_us = fint F32 (max (sat_sub finished_us started_us) 1)
      in s\<lparr>proc_delay_us := (if proc_delay_has_sample s then ewma32 (proc_delay_us s) sample_us
                             else sample_us),
           proc_delay_has_sample := True\<rparr>)"

definition try_rate_limit :: "u32 option \<Rightarrow> i64 \<Rightarrow> ntp_server \<Rightarrow> bool \<times> ntp_server" where
  "try_rate_limit src now_us s = (case src of
       None \<Rightarrow> (True, s)
     | Some ip \<Rightarrow>
         (case rate_check ip now_us (rate_limiter s) of
            (ok, tbl) \<Rightarrow>
              (ok, if ok then s\<lparr>rate_limiter := tbl\<rparr>
                   else s\<lparr>rate_limiter := tbl,
                          rate_limited_total := rate_limited_total s + 1\<rparr>)))"

end
