(* ===== verification/Servo.thy ===== *)
theory Servo
  imports Discipline
begin

text \<open>
  The arithmetic of the discipline servo (\<open>src/ntp/mod.rs\<close>): bounds on the frequency
  estimate and the smoothed figures, the accuracy and monotonicity of the frequency-corrected
  clock, the pairing of NMEA sentences with PPS edges, the counting of whole seconds over
  missed pulses, and the confirmation rule for GPS steps.
\<close>

section \<open>Constants and the frequency estimate\<close>

lemma SERVO_KI_fin: "is_fin SERVO_KI" "0 \<le> fval SERVO_KI" "fval SERVO_KI \<le> 1"
proof -
  have *: "\<bar>1 / 100 :: rat\<bar> \<le> 2 powi 100" by simp
  show "is_fin SERVO_KI" using lit64[OF *] by (simp add: SERVO_KI_def)
  show "0 \<le> fval SERVO_KI" using lit64[OF *] by (simp add: SERVO_KI_def r64.nonneg)
  show "fval SERVO_KI \<le> 1" using lit64[OF *] r64.le_int[of "1/100" 1] by (simp add: SERVO_KI_def)
qed

lemma SERVO_KP_fin: "is_fin SERVO_KP" "0 \<le> fval SERVO_KP" "fval SERVO_KP \<le> 1"
proof -
  have *: "\<bar>1 / 10 :: rat\<bar> \<le> 2 powi 100" by simp
  show "is_fin SERVO_KP" using lit64[OF *] by (simp add: SERVO_KP_def)
  show "0 \<le> fval SERVO_KP" using lit64[OF *] by (simp add: SERVO_KP_def r64.nonneg)
  show "fval SERVO_KP \<le> 1" using lit64[OF *] r64.le_int[of "1/10" 1] by (simp add: SERVO_KP_def)
qed

lemma max_freq: "SERVO_MAX_FREQ_PPM = Num 500"
  by (simp add: SERVO_MAX_FREQ_PPM_def lit64_numeral)

definition good_freq :: "fp \<Rightarrow> bool" where
  "good_freq f \<longleftrightarrow> is_fin f \<and> \<bar>fval f\<bar> \<le> 500"

lemma blend_freq_good:
  assumes "good_freq f" "\<bar>e\<bar> \<le> 200000"
  shows "good_freq (blend_freq e f)"
proof -
  have e: "fint F64 e = Num (of_int e)" using assms(2) by (intro fint64) auto
  have e': "\<bar>of_int e :: rat\<bar> \<le> 200000" using assms(2) by (metis of_int_abs of_int_le_iff of_int_numeral)
  have f: "is_fin f" "\<bar>fval f\<bar> \<le> 500" using assms(1) by (simp_all add: good_freq_def)
  let ?d = "fsub F64 (fint F64 e) f"
  have "\<bar>of_int e - fval f\<bar> \<le> of_int 200500" using e' f by simp
  note d = bounded64[OF this, simplified]
  have d1: "is_fin ?d" "\<bar>fval ?d\<bar> \<le> 200500"
    using fin_sub[of "fint F64 e" f F64] f e d by simp_all
  let ?m = "fmul F64 ?d SERVO_KI"
  have "\<bar>fval ?d * fval SERVO_KI\<bar> \<le> 200500 * 1"
    unfolding abs_mult using d1 SERVO_KI_fin by (intro mult_mono) auto
  then have "\<bar>fval ?d * fval SERVO_KI\<bar> \<le> of_int 200500" by simp
  note m = bounded64[OF this, simplified]
  have m1: "is_fin ?m" "\<bar>fval ?m\<bar> \<le> 200500"
    using fin_mul[OF d1(1) SERVO_KI_fin(1)] m by simp_all
  have "\<bar>fval f + fval ?m\<bar> \<le> of_int 201000" using f m1 by simp
  note a = bounded64[OF this, simplified]
  have a1: "is_fin (fadd F64 f ?m)" using fin_add[OF f(1) m1(1)] a by simp
  show ?thesis
    using fin_clamp[of "fneg SERVO_MAX_FREQ_PPM" SERVO_MAX_FREQ_PPM "fadd F64 f ?m"] a1
    unfolding good_freq_def blend_freq_def max_freq by (auto simp: abs_le_iff)
qed


text \<open>The scale factor of the frequency correction.\<close>

definition freq_scale :: "fp \<Rightarrow> fp" where
  "freq_scale f = fsub F64 (flit F64 1) (fdiv F64 f (flit F64 1000000))"

lemma freq_scale_props:
  assumes "good_freq f"
  shows "is_fin (freq_scale f)" "\<bar>fval (freq_scale f) - (1 - fval f / 1000000)\<bar> \<le> 2 powi (- 52)"
    "0 \<le> fval (freq_scale f)" "fval (freq_scale f) \<le> 2"
proof -
  have f: "is_fin f" "\<bar>fval f\<bar> \<le> 500" using assms by (simp_all add: good_freq_def)
  let ?x = "fval f / 1000000" and ?q = "fdiv F64 f (flit F64 1000000)"
  have x: "\<bar>?x\<bar> \<le> 1 / 2000" using f(2) by (auto simp: abs_le_iff)
  have lit: "flit F64 1 = Num 1" "flit F64 1000000 = Num 1000000" by (simp_all add: lit64_numeral)
  have "\<bar>?x\<bar> \<le> 2 powi 100" using x by simp
  then have q: "is_fin ?q" "fval ?q = rnd F64 ?x"
    using fin_div[of f "Num 1000000" F64] f lit below_top64[of ?x] by simp_all
  have "\<bar>?x\<bar> < 2 powi (- 10)" using x by (simp add: power_int_def power_divide)
  then have qe: "\<bar>fval ?q - ?x\<bar> \<le> 2 powi (- 64)"
    using rnd_abs_error[of ?x "- 10" F64] q by (simp add: F64_def)
  let ?y = "1 - fval ?q"
  have s: "(2 :: rat) powi (- 64) \<le> 1 / 1000" by (simp add: power_int_def power_divide)
  then have y: "\<bar>?y\<bar> \<le> 1 + 1 / 2000 + 1 / 1000" "0 \<le> ?y"
    using qe x by linarith+
  have "\<bar>?y\<bar> \<le> 2 powi 100" using y by simp
  then have d: "is_fin (freq_scale f)" "fval (freq_scale f) = rnd F64 ?y"
    using fin_sub[of "Num 1" ?q F64] q lit below_top64[of ?y] by (simp_all add: freq_scale_def)
  have "\<bar>?y\<bar> < 2 powi 1" using y by simp
  then have "\<bar>fval (freq_scale f) - ?y\<bar> \<le> 2 powi (- 53)"
    using rnd_abs_error[of ?y 1 F64] d by (simp add: F64_def)
  moreover have "(2 :: rat) powi (- 53) + 2 powi (- 64) \<le> 2 powi (- 52)" by (simp add: power_int_def power_divide)
  ultimately show "\<bar>fval (freq_scale f) - (1 - ?x)\<bar> \<le> 2 powi (- 52)" using qe by linarith
  show "is_fin (freq_scale f)" by (rule d)
  show "0 \<le> fval (freq_scale f)" using r64.nonneg[OF y(2)] d by simp
  show "fval (freq_scale f) \<le> 2" using r64.le_int[of ?y 2] y d by simp
qed

section \<open>The frequency-corrected clock\<close>

lemma corrected_alt:
  "corrected_elapsed_us raw s = max 0 (if feq (freq_ppm s) (Num 0) then raw
     else fcast i64_min i64_max (fmul F64 (fint F64 raw) (freq_scale (freq_ppm s))))"
  by (simp add: corrected_elapsed_us_def freq_scale_def)

lemma scaled_fin:
  assumes "good_freq f" "\<bar>raw\<bar> \<le> 2 ^ 64"
  shows "is_fin (fmul F64 (fint F64 raw) (freq_scale f))"
    "fval (fmul F64 (fint F64 raw) (freq_scale f)) = rnd F64 (rnd F64 (of_int raw) * fval (freq_scale f))"
proof -
  note n = fin_fint[OF assms(2), of F64, simplified]
  note d = freq_scale_props[OF assms(1)]
  have "\<bar>of_int raw :: rat\<bar> \<le> 2 powi 64"
    using assms(2) by (metis of_int_abs of_int_le_iff of_int_numeral of_int_power power_int_of_nat of_nat_numeral)
  then have "\<bar>rnd F64 (of_int raw)\<bar> \<le> 2 powi 64" by (rule r64.abs_le_pow) simp
  then have "\<bar>rnd F64 (of_int raw) * fval (freq_scale f)\<bar> \<le> 2 powi 64 * 2"
    unfolding abs_mult using d by (intro mult_mono) auto
  then have "\<bar>rnd F64 (of_int raw) * fval (freq_scale f)\<bar> \<le> 2 powi 100" by simp
  from below_top64[OF this] fin_mul[OF n(1) d(1)] n
  show "is_fin (fmul F64 (fint F64 raw) (freq_scale f))"
    "fval (fmul F64 (fint F64 raw) (freq_scale f)) = rnd F64 (rnd F64 (of_int raw) * fval (freq_scale f))"
    by simp_all
qed

lemma corrected_mono:
  assumes "good_freq (freq_ppm s)" "raw \<le> raw'" "in_i64 raw" "in_i64 raw'"
  shows "corrected_elapsed_us raw s \<le> corrected_elapsed_us raw' s"
proof (cases "feq (freq_ppm s) (Num 0)")
  case True with assms(2) show ?thesis by (simp add: corrected_alt)
next
  case False
  have r: "\<bar>raw\<bar> \<le> 2 ^ 64" "\<bar>raw'\<bar> \<le> 2 ^ 64"
    using assms(3,4) by (auto simp: in_i64_def i64_min_def i64_max_def)
  have "rnd F64 (rnd F64 (of_int raw) * fval (freq_scale (freq_ppm s)))
      \<le> rnd F64 (rnd F64 (of_int raw') * fval (freq_scale (freq_ppm s)))"
    using assms(2) freq_scale_props(3)[OF assms(1)] by (intro r64.mono mult_right_mono) auto
  from ftrunc_mono[OF this] show ?thesis
    using False scaled_fin[OF assms(1) r(1)] scaled_fin[OF assms(1) r(2)]
    by (auto simp: corrected_alt fin_cast clamp_int_def i64_min_def i64_max_def)
qed

lemma corrected_error:
  assumes f: "good_freq (freq_ppm s)" and raw: "0 \<le> raw" "raw \<le> 2 ^ 51"
  shows "\<bar>of_int (corrected_elapsed_us raw s) - of_int raw * (1 - fval (freq_ppm s) / 1000000)\<bar> < 2"
proof (cases "feq (freq_ppm s) (Num 0)")
  case True
  then have "fval (freq_ppm s) = 0" using f fin_compare(2)[of "freq_ppm s" "Num 0"] by (simp add: good_freq_def)
  with True raw show ?thesis by (simp add: corrected_alt)
next
  case False
  let ?d = "fval (freq_scale (freq_ppm s))" and ?e = "1 - fval (freq_ppm s) / 1000000"
  note d = freq_scale_props[OF f]
  have R: "0 \<le> (of_int raw :: rat)" "(of_int raw :: rat) \<le> 2 ^ 51"
    using raw by simp_all
  have exact: "rnd F64 (of_int raw) = of_int raw" using raw by (intro r64.int_exact) auto
  have "\<bar>raw\<bar> \<le> 2 ^ 64" using raw by auto
  note m = scaled_fin[OF f this, unfolded exact]
  define A B where "A = of_int raw * ?d" and "B = of_int raw * ?e"
  have "\<bar>A - B\<bar> \<le> 2 ^ 51 * 2 powi (- 52)"
    unfolding A_def B_def right_diff_distrib[symmetric] abs_mult using d R by (intro mult_mono) auto
  then have e1: "\<bar>A - B\<bar> \<le> 1 / 2" by (simp add: power_int_def power_divide)
  have "\<bar>?e\<bar> \<le> 1 + 1 / 1000" using f by (auto simp: good_freq_def abs_le_iff)
  then have "\<bar>B\<bar> \<le> 2 ^ 51 * (1 + 1 / 1000)"
    unfolding B_def abs_mult using R by (intro mult_mono) auto
  then have "\<bar>B\<bar> \<le> 2254051613498934" by simp
  then have b: "\<bar>A\<bar> < 4503599627370496" using e1 by linarith
  then have e2: "\<bar>rnd F64 A - A\<bar> \<le> 1 / 4"
    using rnd_abs_error[of A 52 F64] by (simp add: F64_def power_int_def power_divide)
  have nn: "0 \<le> rnd F64 A" using R d by (auto simp: A_def intro: r64.nonneg)
  have ub: "rnd F64 A < 9007199254740992" using e2 b by linarith
  note m = m[folded A_def]
  define v where "v = \<lfloor>rnd F64 A\<rfloor>"
  have v: "0 \<le> v" "v < 2 ^ 53" using nn ub by (auto simp: v_def floor_less_iff)
  have "corrected_elapsed_us raw s = v"
    using False m nn v by (simp add: corrected_alt fin_cast ftrunc_def v_def[symmetric] clamp_int_def
        i64_min_def i64_max_def)
  moreover have "of_int v \<le> rnd F64 A" "rnd F64 A < of_int v + 1"
    using floor_correct[of "rnd F64 A"] by (simp_all only: v_def of_int_add of_int_1)
  ultimately show ?thesis unfolding B_def[symmetric] using e1 e2 by linarith
qed


lemma corrected_range: "in_i64 raw \<Longrightarrow> 0 \<le> corrected_elapsed_us raw s \<and> in_i64 (corrected_elapsed_us raw s)"
  using fcast_range[of i64_min i64_max
      "fmul F64 (fint F64 raw) (freq_scale (freq_ppm s))"]
  by (auto simp: corrected_alt in_i64_def i64_min_def i64_max_def)

text \<open>The frequency-corrected elapsed time is within 2 microseconds of the exact value
  \<open>raw * (1 - freq / 10^6)\<close> over 71 years of raw time, and never runs backwards.\<close>

theorem corrected_elapsed_faithful:
  assumes "is_fin (freq_ppm s)" "\<bar>fval (freq_ppm s)\<bar> \<le> 500"
    and "0 \<le> raw" "raw \<le> raw'" "raw' \<le> 2 ^ 51"
  shows "\<bar>of_int (corrected_elapsed_us raw s) - of_int raw * (1 - fval (freq_ppm s) / 1000000)\<bar> < 2
    \<and> corrected_elapsed_us raw s \<le> corrected_elapsed_us raw' s"
proof -
  have "good_freq (freq_ppm s)" using assms by (simp add: good_freq_def)
  moreover have "in_i64 raw" "in_i64 raw'"
    using assms by (auto simp: in_i64_def i64_min_def i64_max_def)
  ultimately show ?thesis using assms corrected_error corrected_mono by simp
qed

definition fast_server :: ntp_server where
  "fast_server = from_socket\<lparr>freq_ppm := Num 40\<rparr>"

theorem corrected_elapsed_faithful_witness:
  "\<bar>of_int (corrected_elapsed_us 3600000000 fast_server)
      - of_int 3600000000 * (1 - fval (freq_ppm fast_server) / 1000000)\<bar> < 2
   \<and> corrected_elapsed_us 3600000000 fast_server \<le> corrected_elapsed_us 3600000001 fast_server"
  by (rule corrected_elapsed_faithful) (simp_all add: fast_server_def)

section \<open>Pairing sentences with edges\<close>

lemma gps_second_at_edge_eq:
  assumes "last_gps_utc_seconds s = Some utc" "last_gps_utc_update_us s = Some t"
    and "edge - t < GPS_STALE_THRESHOLD_US"
  shows "gps_second_at_edge fudge edge s
    = Some (sat_add (sat_add utc (sat_sub edge t div MICROS_PER_SEC)) fudge)"
  using assms sat_sub_less_iff[of GPS_STALE_THRESHOLD_US edge t]
  by (simp add: gps_second_at_edge_def gps_time_fresh_def GPS_STALE_THRESHOLD_US_def i64_min_def i64_max_def)

lemma gps_second_stale:
  assumes "case last_gps_utc_update_us s of None \<Rightarrow> True | Some t \<Rightarrow> GPS_STALE_THRESHOLD_US \<le> edge - t"
  shows "gps_second_at_edge fudge edge s = None"
  using assms sat_sub_less_iff[of GPS_STALE_THRESHOLD_US edge]
  by (auto simp: gps_second_at_edge_def gps_time_fresh_def GPS_STALE_THRESHOLD_US_def i64_min_def
      i64_max_def split: option.splits)

text \<open>C10: Let the edge of UTC second \<open>n\<close> fall at \<open>e\<close> and the sentence naming \<open>n\<close> be parsed
  within one second of it, after the edge with fudge 1 or up to it with fudge 0. Then the edge
  of any second \<open>m\<close>, earlier or later, is given its own second \<open>m\<close> while the sentence is
  fresh.\<close>

theorem gps_pairing:
  assumes "last_gps_utc_seconds s = Some n" "last_gps_utc_update_us s = Some t"
    and "fudge = 1 \<and> e < t \<and> t < e + 1000000 \<or> fudge = 0 \<and> e - 1000000 < t \<and> t \<le> e"
    and "e + (m - n) * 1000000 - t < 2000000"
    and "in_i64 m" "in_i64 n" "in_i64 (m - fudge)" "in_i64 (e + (m - n) * 1000000 - t)"
  shows "gps_second_at_edge fudge (e + (m - n) * 1000000) s = Some m"
proof -
  let ?x = "e + (m - n) * 1000000"
  have d: "(?x - t) div 1000000 = m - n - fudge"
  proof -
    have "(m - n - fudge) * 1000000 \<le> ?x - t" "?x - t < (m - n - fudge + 1) * 1000000"
      using assms(3) by auto
    then show ?thesis by (intro int_div_pos_eq[of _ _ _ "?x - t - (m - n - fudge) * 1000000"]) auto
  qed
  have "sat_sub ?x t div MICROS_PER_SEC = m - n - fudge"
    using d assms(8) by (simp add: sat_sub_id MICROS_PER_SEC_def)
  moreover have "sat_add n (m - n - fudge) = m - fudge" "sat_add (m - fudge) fudge = m"
    using assms(5,7) by (simp_all add: sat_add_id)
  ultimately show ?thesis
    using gps_second_at_edge_eq[OF assms(1,2), of ?x fudge] assms(4)
    by (simp add: GPS_STALE_THRESHOLD_US_def)
qed

definition paired_server :: ntp_server where
  "paired_server = from_socket\<lparr>last_gps_utc_seconds := Some 1750000000,
     last_gps_utc_update_us := Some 5300000\<rparr>"

theorem gps_pairing_witness:
  "gps_second_at_edge 1 (5000000 + (1750000001 - 1750000000) * 1000000) paired_server
    = Some 1750000001"
  by (rule gps_pairing[where t = 5300000]) (simp_all add: paired_server_def in_i64_def i64_min_def i64_max_def)

section \<open>Counting seconds\<close>

lemma pulse_elapsed_eq:
  assumes "good_freq (freq_ppm s)" "0 \<le> raw" "raw \<le> 2 ^ 51" "0 \<le> k"
    and "\<bar>of_int raw * (1 - fval (freq_ppm s) / 1000000) - of_int (k * 1000000)\<bar> \<le> 499998"
  shows "wrap_i64 (corrected_elapsed_us raw s + MICROS_PER_SEC div 2) div MICROS_PER_SEC = k"
proof -
  define c where "c = corrected_elapsed_us raw s"
  have "\<bar>of_int c - of_int (k * 1000000)\<bar> < (500000 :: rat)"
    using corrected_error[OF assms(1-3)] assms(5) unfolding c_def by linarith
  then have "of_int \<bar>c - k * 1000000\<bar> < (of_int 500000 :: rat)" by simp
  then have c: "\<bar>c - k * 1000000\<bar> < 500000" by (simp only: of_int_less_iff)
  have "c \<le> corrected_elapsed_us (2 ^ 51) s"
    unfolding c_def using assms by (intro corrected_mono) (auto simp: in_i64_def i64_min_def i64_max_def)
  have f: "\<bar>fval (freq_ppm s)\<bar> \<le> 500" using assms(1) by (simp add: good_freq_def)
  have "\<bar>of_int (2 ^ 51) * (1 - fval (freq_ppm s) / 1000000)\<bar> \<le> 2 ^ 51 * (2 :: rat)"
    unfolding abs_mult using f by (intro mult_mono) (auto simp: abs_le_iff)
  then have "of_int (corrected_elapsed_us (2 ^ 51) s) \<le> (of_int (2 ^ 53) :: rat)"
    using corrected_error[OF assms(1), of "2 ^ 51"] by simp
  then have "corrected_elapsed_us (2 ^ 51) s \<le> 2 ^ 53" by (simp only: of_int_le_iff)
  with \<open>c \<le> _\<close> have "c \<le> 2 ^ 53" by simp
  moreover have "0 \<le> c" by (simp add: c_def corrected_alt)
  ultimately have "wrap_i64 (c + 500000) = c + 500000"
    by (intro wrap_i64_id) (simp add: in_i64_def i64_min_def i64_max_def)
  moreover have "(c + 500000) div 1000000 = k"
    using c by (intro int_div_pos_eq[of _ _ _ "c + 500000 - k * 1000000"]) auto
  ultimately show ?thesis by (simp add: c_def MICROS_PER_SEC_def)
qed


lemma phase_lit: "\<bar>e\<bar> \<le> 200000 \<Longrightarrow> \<bar>fcast i64_min i64_max (fmul F64 (fint F64 e) SERVO_KP)\<bar> \<le> 200000"
proof -
  assume e: "\<bar>e\<bar> \<le> 200000"
  then have n: "fint F64 e = Num (of_int e)" by (intro fint64) auto
  have "\<bar>of_int e :: rat\<bar> \<le> 200000" using e by (metis of_int_abs of_int_le_iff of_int_numeral)
  then have "\<bar>of_int e * fval SERVO_KP\<bar> \<le> 200000 * 1"
    unfolding abs_mult using SERVO_KP_fin by (intro mult_mono) auto
  then have "\<bar>of_int e * fval SERVO_KP\<bar> \<le> of_int 200000" by simp
  note b = bounded64[OF this, simplified]
  have f: "is_fin (fmul F64 (fint F64 e) SERVO_KP)" "\<bar>fval (fmul F64 (fint F64 e) SERVO_KP)\<bar> \<le> of_int 200000"
    using fin_mul[of "fint F64 e" SERVO_KP F64] SERVO_KP_fin(1) n b by simp_all
  have "\<bar>ftrunc (fval (fmul F64 (fint F64 e) SERVO_KP))\<bar> \<le> 200000"
    using ftrunc_mono[of _ "of_int 200000"] ftrunc_mono[of "of_int (- 200000)"] f(2)
    unfolding ftrunc_of_int by (auto simp: abs_le_iff) (simp_all add: minus_le_iff)
  then show ?thesis using f(1) by (auto simp: fin_cast clamp_int_def i64_min_def i64_max_def)
qed

text \<open>The pulse lies near the \<open>k\<close>-th second after the anchor.\<close>

definition near_second :: "i64 \<Rightarrow> clock_anchor \<Rightarrow> int \<Rightarrow> bool" where
  "near_second now a k \<longleftrightarrow> 0 \<le> k \<and> k \<le> 190 \<and> 0 \<le> now - monotonic_us a \<and>
     \<bar>now - monotonic_us a - k * 1000000\<bar> \<le> 400000 \<and> in_i64 (unix_seconds a + k)"

lemma predicted_second_eq:
  assumes "good_freq (freq_ppm s)" and near: "near_second now a k"
  shows "predicted_second now a s = unix_seconds a + k"
proof -
  let ?raw = "now - monotonic_us a"
  have raw: "0 \<le> ?raw" "?raw \<le> 190400000" using near by (auto simp: near_second_def)
  have R: "0 \<le> (of_int ?raw :: rat)" "(of_int ?raw :: rat) \<le> 190400000"
    using raw by (metis of_int_0_le_iff) (use raw in \<open>metis of_int_le_iff of_int_numeral\<close>)
  have "\<bar>of_int ?raw * (fval (freq_ppm s) / 1000000)\<bar> \<le> 190400000 * (1 / 2000)"
    unfolding abs_mult using R assms(1) by (intro mult_mono) (auto simp: good_freq_def abs_le_iff)
  then have d: "\<bar>of_int ?raw * (fval (freq_ppm s) / 1000000)\<bar> \<le> 95200" by simp
  have "\<bar>of_int (?raw - k * 1000000) :: rat\<bar> \<le> of_int 400000"
    using near by (simp only: near_second_def of_int_abs[symmetric] of_int_le_iff)
  then have "\<bar>of_int ?raw * (1 - fval (freq_ppm s) / 1000000) - of_int (k * 1000000)\<bar> \<le> 499998"
    using d unfolding right_diff_distrib mult_1_right of_int_diff of_int_numeral by linarith
  then have "wrap_i64 (corrected_elapsed_us ?raw s + MICROS_PER_SEC div 2) div MICROS_PER_SEC = k"
    using raw assms(1) near by (intro pulse_elapsed_eq) (auto simp: near_second_def)
  moreover have "sat_sub now (monotonic_us a) = ?raw"
    using raw by (intro sat_sub_id) (simp add: in_i64_def i64_min_def i64_max_def)
  moreover have "sat_add (unix_seconds a) k = unix_seconds a + k"
    using near by (simp add: near_second_def sat_add_id)
  ultimately show ?thesis by (simp add: predicted_second_def Let_def)
qed

lemma interval_range:
  assumes "800000 \<le> interval" "interval \<le> (1200000 :: u32)"
  shows "\<bar>uint interval - 1000000\<bar> \<le> 200000"
  using assms by (auto simp: word_le_def)

text \<open>A pulse the servo accepts: locked, in range, and not an outlier.\<close>

definition pulse_accepted :: "u32 \<Rightarrow> clock_anchor \<Rightarrow> ntp_server \<Rightarrow> bool" where
  "pulse_accepted interval a s \<longleftrightarrow> pps_locked s \<and> clock_anchor s = Some a \<and>
     800000 \<le> interval \<and> interval \<le> 1200000 \<and>
     (pps_has_sample s \<longrightarrow> \<bar>uint interval - 1000000\<bar> \<le> PPS_OUTLIER_THRESHOLD_US)"

lemma observe_accepted:
  assumes "pulse_accepted interval a s"
  shows "observe_pps_pulse fudge (Some interval) edge s
    = accept_pulse fudge (uint interval - 1000000) edge a s"
  using assms by (auto simp: pulse_accepted_def observe_pps_pulse_def Let_def)

lemma gps_second_frame [simp]:
  "gps_second_at_edge fudge edge (s\<lparr>freq_ppm := f\<rparr>) = gps_second_at_edge fudge edge s"
  by (simp add: gps_second_at_edge_def gps_time_fresh_def)

text \<open>What an accepted pulse near the \<open>k\<close>-th second does, by what GPS says of the edge.\<close>

lemma accept_near:
  assumes "good_freq (freq_ppm s)" "\<bar>e\<bar> \<le> 200000" "near_second now a k"
    and r: "(secs, pend, step) =
      (case gps_second_at_edge fudge now s of
         None \<Rightarrow> (unix_seconds a + k, None, False)
       | Some g \<Rightarrow> if g = unix_seconds a + k then (unix_seconds a + k, None, False)
           else if pending_gps_step s = Some (wrap_i64 (g - (unix_seconds a + k))) then (g, None, True)
           else (unix_seconds a + k, Some (wrap_i64 (g - (unix_seconds a + k))), False))"
  shows "\<exists>m. \<bar>m\<bar> \<le> 200000 \<and>
      clock_anchor (accept_pulse fudge e now a s) = Some \<lparr>unix_seconds = secs, monotonic_us = sat_sub now m\<rparr>"
    and "last_sync_ntp_ts (accept_pulse fudge e now a s) = ntp_timestamp_from_unix secs 0"
    and "last_pps_monotonic_us (accept_pulse fudge e now a s) = Some now"
    and "pending_gps_step (accept_pulse fudge e now a s) = pend"
    and "anchor_step_count (accept_pulse fudge e now a s)
      = (if step then sat_inc (anchor_step_count s) else anchor_step_count s)"
    and "freq_ppm (accept_pulse fudge e now a s) = blend_freq e (freq_ppm s)"
proof -
  let ?s = "s\<lparr>freq_ppm := blend_freq e (freq_ppm s)\<rparr>"
  have "predicted_second now a ?s = unix_seconds a + k"
    using predicted_second_eq[OF _ assms(3), of ?s] blend_freq_good[OF assms(1,2)] by simp
  then have p: "pulse_second fudge now a ?s
      = (secs, if step then ?s\<lparr>pending_gps_step := pend, anchor_step_count := sat_inc (anchor_step_count s)\<rparr>
               else ?s\<lparr>pending_gps_step := pend\<rparr>)"
    using r
    by (cases "gps_second_at_edge fudge now s")
      (simp add: pulse_second_def, simp add: pulse_second_def split: if_splits, simp add: Let_def)
  show "\<exists>m. \<bar>m\<bar> \<le> 200000 \<and>
      clock_anchor (accept_pulse fudge e now a s) = Some \<lparr>unix_seconds = secs, monotonic_us = sat_sub now m\<rparr>"
    using phase_lit[OF assms(2)] by (auto simp: accept_pulse_def p Let_def)
  show "last_sync_ntp_ts (accept_pulse fudge e now a s) = ntp_timestamp_from_unix secs 0"
    "last_pps_monotonic_us (accept_pulse fudge e now a s) = Some now"
    "pending_gps_step (accept_pulse fudge e now a s) = pend"
    "anchor_step_count (accept_pulse fudge e now a s)
      = (if step then sat_inc (anchor_step_count s) else anchor_step_count s)"
    "freq_ppm (accept_pulse fudge e now a s) = blend_freq e (freq_ppm s)"
    by (simp_all add: accept_pulse_def p Let_def)
qed

text \<open>C2: An accepted pulse of a locked server is given the anchor's second plus the true number
  of seconds since it, also when up to 189 pulses in between were missed, as long as the edge is
  within 0.4 s of that second and a fresh GPS second agrees; the anchor moves to the edge up to
  the phase correction, and the pulse becomes the reference time.\<close>

theorem pulse_counts_seconds:
  assumes "pulse_accepted interval a s" "good_freq (freq_ppm s)" "near_second edge a k"
    and "gps_second_at_edge fudge edge s \<in> {None, Some (unix_seconds a + k)}"
  shows "let s' = observe_pps_pulse fudge (Some interval) edge s in
    (\<exists>m. \<bar>m\<bar> \<le> 200000 \<and>
       clock_anchor s' = Some \<lparr>unix_seconds = unix_seconds a + k, monotonic_us = sat_sub edge m\<rparr>)
    \<and> last_sync_ntp_ts s' = ntp_timestamp_from_unix (unix_seconds a + k) 0
    \<and> last_pps_monotonic_us s' = Some edge \<and> anchor_step_count s' = anchor_step_count s"
proof -
  have e: "\<bar>uint interval - 1000000\<bar> \<le> 200000"
    using assms(1) by (auto simp: pulse_accepted_def intro!: interval_range)
  have "(unix_seconds a + k, None, False) = (case gps_second_at_edge fudge edge s of
         None \<Rightarrow> (unix_seconds a + k, None, False)
       | Some g \<Rightarrow> if g = unix_seconds a + k then (unix_seconds a + k, None, False)
           else if pending_gps_step s = Some (wrap_i64 (g - (unix_seconds a + k))) then (g, None, True)
           else (unix_seconds a + k, Some (wrap_i64 (g - (unix_seconds a + k))), False))"
    using assms(4) by auto
  note n = accept_near[OF assms(2) e assms(3) this]
  show ?thesis unfolding observe_accepted[OF assms(1)] Let_def using n by simp
qed

definition locked_server :: ntp_server where
  "locked_server = from_socket\<lparr>clock_anchor := Some \<lparr>unix_seconds = 1750000000, monotonic_us = 7000000\<rparr>,
     pps_locked := True, last_pps_monotonic_us := Some 7000000, freq_ppm := Num 20,
     last_gps_utc_seconds := Some 1750000000, last_gps_utc_update_us := Some 7300000\<rparr>"

theorem pulse_counts_seconds_witness:
  "let s' = observe_pps_pulse 1 (Some 1000020) 12000100 locked_server in
    (\<exists>m. \<bar>m\<bar> \<le> 200000 \<and> clock_anchor s' = Some \<lparr>unix_seconds = unix_seconds
         \<lparr>unix_seconds = 1750000000, monotonic_us = 7000000\<rparr> + 5, monotonic_us = sat_sub 12000100 m\<rparr>)
    \<and> last_sync_ntp_ts s' = ntp_timestamp_from_unix (unix_seconds
         \<lparr>unix_seconds = 1750000000, monotonic_us = 7000000\<rparr> + 5) 0
    \<and> last_pps_monotonic_us s' = Some 12000100 \<and> anchor_step_count s' = anchor_step_count locked_server"
proof (rule pulse_counts_seconds)
  show "gps_second_at_edge 1 12000100 locked_server \<in> {None, Some (unix_seconds
      \<lparr>unix_seconds = 1750000000, monotonic_us = 7000000\<rparr> + 5)}"
    by (simp add: gps_second_stale locked_server_def GPS_STALE_THRESHOLD_US_def)
qed (simp_all add: pulse_accepted_def good_freq_def near_second_def locked_server_def from_socket_def
      in_i64_def i64_min_def i64_max_def)

lemma confirmed_step:
  assumes "pulse_accepted i1 a s" "good_freq (freq_ppm s)" "near_second e1 a k1" "d \<noteq> 0" "in_i64 d"
    and "pending_gps_step s = None" "gps_second_at_edge fudge e1 s = Some (unix_seconds a + k1 + d)"
    and "s1 = observe_pps_pulse fudge (Some i1) e1 s"
    and "s2 = update_gps_utc_seconds utc t s1" "clock_anchor s2 = Some b"
    and "pulse_accepted i2 b s2" "near_second e2 b k2"
    and "gps_second_at_edge fudge e2 s2 = Some (unix_seconds b + k2 + d)"
    and "s3 = observe_pps_pulse fudge (Some i2) e2 s2"
  shows "unix_seconds b = unix_seconds a + k1 \<and> anchor_step_count s1 = anchor_step_count s \<and>
    map_option unix_seconds (clock_anchor s3) = Some (unix_seconds b + k2 + d) \<and>
    anchor_step_count s3 = sat_inc (anchor_step_count s) \<and> pending_gps_step s3 = None"
proof -
  have e: "\<bar>uint i1 - 1000000\<bar> \<le> 200000" "\<bar>uint i2 - 1000000\<bar> \<le> 200000"
    using assms(1,11) by (auto simp: pulse_accepted_def intro!: interval_range)
  have w: "wrap_i64 d = d" by (rule wrap_i64_id[OF assms(5)])
  note n1 = accept_near[OF assms(2) e(1) assms(3), of "unix_seconds a + k1" "Some d" False fudge,
      unfolded observe_accepted[OF assms(1), symmetric] assms(8)[symmetric]]
  have s1: "map_option unix_seconds (clock_anchor s1) = Some (unix_seconds a + k1)"
    "pending_gps_step s1 = Some d" "anchor_step_count s1 = anchor_step_count s"
    "good_freq (freq_ppm s1)"
    using n1 assms(4,6,7) w blend_freq_good[OF assms(2) e(1)] by auto
  have "pps_locked s2" using assms(11) by (simp add: pulse_accepted_def)
  then have l: "pps_locked s1" using assms(9) by (cases "pps_locked s1") (simp_all add: update_gps_utc_seconds_def)
  then have s2: "clock_anchor s2 = clock_anchor s1" "pending_gps_step s2 = Some d"
    "anchor_step_count s2 = anchor_step_count s" "good_freq (freq_ppm s2)"
    using assms(9) s1 by (auto simp: update_gps_utc_seconds_def Let_def)
  have "unix_seconds b = unix_seconds a + k1" using s1(1) s2(1) assms(10) by auto
  moreover note n2 = accept_near[OF s2(4) e(2) assms(12), of "unix_seconds b + k2 + d" None True fudge,
      unfolded observe_accepted[OF assms(11), symmetric] assms(14)[symmetric]]
  ultimately show ?thesis using s1(3) s2(2,3) assms(4,13) w by auto
qed


text \<open>C8: A GPS step, such as a leap second, is not taken from the first pulse that shows it; the
  next accepted pulse that shows the same difference moves the clock to the GPS second and counts
  one correction.\<close>

theorem gps_step_followed:
  assumes "pulse_accepted i1 a s" "good_freq (freq_ppm s)" "near_second e1 a k1" "d \<noteq> 0" "in_i64 d"
    and "pending_gps_step s = None" "gps_second_at_edge fudge e1 s = Some (unix_seconds a + k1 + d)"
    and "s1 = observe_pps_pulse fudge (Some i1) e1 s"
    and "s2 = update_gps_utc_seconds utc t s1" "clock_anchor s2 = Some b"
    and "pulse_accepted i2 b s2" "near_second e2 b k2"
    and "gps_second_at_edge fudge e2 s2 = Some (unix_seconds b + k2 + d)"
    and "s3 = observe_pps_pulse fudge (Some i2) e2 s2"
  shows "unix_seconds b = unix_seconds a + k1 \<and> anchor_step_count s1 = anchor_step_count s \<and>
    map_option unix_seconds (clock_anchor s3) = Some (unix_seconds b + k2 + d) \<and>
    anchor_step_count s3 = sat_inc (anchor_step_count s) \<and> pending_gps_step s3 = None"
  by (rule confirmed_step[OF assms])

definition leap_server :: ntp_server where
  "leap_server = locked_server\<lparr>last_gps_utc_seconds := Some 1750000001\<rparr>"

lemma leap_server_pulse:
  "pulse_accepted 1000000 \<lparr>unix_seconds = 1750000000, monotonic_us = 7000000\<rparr> leap_server"
  "near_second 8000000 \<lparr>unix_seconds = 1750000000, monotonic_us = 7000000\<rparr> 1"
  "good_freq (freq_ppm leap_server)" "pending_gps_step leap_server = None"
  "gps_second_at_edge 1 8000000 leap_server = Some 1750000002"
  using gps_second_at_edge_eq[of leap_server 1750000001 7300000 8000000 1]
  by (simp_all add: leap_server_def locked_server_def from_socket_def pulse_accepted_def near_second_def
      good_freq_def in_i64_def i64_min_def i64_max_def MICROS_PER_SEC_def GPS_STALE_THRESHOLD_US_def
      sat_add_def sat_sub_def sat_i64_def)

theorem gps_step_followed_witness:
  "let s1 = observe_pps_pulse 1 (Some 1000000) 8000000 leap_server;
       s3 = observe_pps_pulse 1 (Some 1000000) 9000000 (update_gps_utc_seconds 1750000002 8300000 s1)
   in anchor_step_count s1 = 0 \<and> map_option unix_seconds (clock_anchor s3) = Some 1750000003 \<and>
      anchor_step_count s3 = 1"
proof -
  let ?a = "\<lparr>unix_seconds = 1750000000, monotonic_us = 7000000\<rparr>"
  define s1 where "s1 = observe_pps_pulse 1 (Some 1000000) 8000000 leap_server"
  define s2 where "s2 = update_gps_utc_seconds 1750000002 8300000 s1"
  define s3 where "s3 = observe_pps_pulse 1 (Some 1000000) 9000000 s2"
  note p = leap_server_pulse
  note n = accept_near[OF p(3) _ p(2), of 0 "1750000001" "Some 1" False 1]
  have o: "s1 = accept_pulse 1 0 8000000 ?a leap_server"
    using observe_accepted[OF p(1), of 1 8000000] by (simp add: s1_def)
  have "\<exists>m. \<bar>m\<bar> \<le> 200000 \<and>
      clock_anchor s1 = Some \<lparr>unix_seconds = 1750000001, monotonic_us = sat_sub 8000000 m\<rparr>"
    unfolding o using n(1) p(4,5) by (simp add: wrap_i64_def)
  then obtain m where m: "\<bar>m\<bar> \<le> 200000"
    "clock_anchor s1 = Some \<lparr>unix_seconds = 1750000001, monotonic_us = sat_sub 8000000 m\<rparr>" by blast
  have l: "pps_locked s1" "anchor_step_count leap_server = 0"
    by (simp_all add: o accept_pulse_def pulse_second_def leap_server_def locked_server_def
        from_socket_def Let_def split: option.splits)
  have ms: "sat_sub 8000000 m = 8000000 - m"
    using m(1) by (intro sat_sub_id) (auto simp: in_i64_def i64_min_def i64_max_def)
  have s2: "clock_anchor s2 = clock_anchor s1" "pps_locked s2"
    "gps_second_at_edge 1 9000000 s2 = Some 1750000003"
    using l gps_second_at_edge_eq[of s2 1750000002 8300000 9000000 1]
    by (simp_all add: s2_def update_gps_utc_seconds_def MICROS_PER_SEC_def GPS_STALE_THRESHOLD_US_def
        sat_add_def sat_sub_def sat_i64_def i64_min_def i64_max_def)
  have "pulse_accepted 1000000 \<lparr>unix_seconds = 1750000001, monotonic_us = sat_sub 8000000 m\<rparr> s2"
    using s2 m by (simp add: pulse_accepted_def PPS_OUTLIER_THRESHOLD_US_def)
  moreover have "near_second 9000000 \<lparr>unix_seconds = 1750000001, monotonic_us = sat_sub 8000000 m\<rparr> 1"
    using m(1) by (auto simp: near_second_def ms in_i64_def i64_min_def i64_max_def)
  ultimately show ?thesis
    using gps_step_followed[OF p(1,3,2) _ _ p(4) _ s1_def s2_def _ _ _ _ s3_def, of 1
        "\<lparr>unix_seconds = 1750000001, monotonic_us = sat_sub 8000000 m\<rparr>" 1] m(2) s2 p(5) l(2)
    by (simp add: s1_def s2_def s3_def in_i64_def i64_min_def i64_max_def sat_inc_def Let_def)
qed

end
