(* ===== verification/Quality.thy ===== *)
theory Quality
  imports Servo
begin

text \<open>
  What the server tells its clients (\<open>src/ntp/mod.rs\<close>): the time served between discipline
  events, the invariant of the server state, and the quality figures: stratum, leap, state and
  root dispersion when locked, in holdover and unsynchronised.
\<close>

section \<open>Time served\<close>

text \<open>The instant a timestamp of the first NTP era names, in microseconds since the Unix epoch.\<close>

definition ts_to_us :: "u64 \<Rightarrow> int" where
  "ts_to_us ts = (ts_seconds ts - 2208988800) * 1000000
     + \<lceil>of_int (ts_fraction ts) * 1000000 / 2 ^ 32 :: rat\<rceil>"

definition era_seconds :: int where "era_seconds = 2 ^ 32 - 2208988800"

lemma ts_to_us_from_unix:
  assumes "0 \<le> t" "t < era_seconds" "unat us < 1000000"
  shows "ts_to_us (ntp_timestamp_from_unix t us) = t * 1000000 + uint us"
proof -
  have t: "t \<le> i64_max" "(t + 2208988800) mod 2 ^ 32 = t + 2208988800"
    using assms(1,2) by (auto simp: era_seconds_def i64_max_def intro: mod_pos_pos_trivial)
  have "\<lceil>of_int (uint us * 2 ^ 32 div 1000000) * 1000000 / 2 ^ 32 :: rat\<rceil> = uint us"
    using assms(3) by (intro fraction_to_us) (simp_all add: uint_nat del: of_nat_unat)
  moreover have "t + 2208988800 - 2208988800 = t" by simp
  ultimately show ?thesis
    using ts_seconds_from_unix[OF assms(1) t(1) assms(3)] by (simp only: ts_to_us_def t(2))
qed

lemma rem_us: "unat (of_int (c mod 1000000) :: u64) < 1000000"
  "uint (of_int (c mod 1000000) :: u64) = c mod 1000000"
proof -
  have "c mod 1000000 < 2 ^ 64" using pos_mod_bound[of 1000000 c] by simp
  then show u: "uint (of_int (c mod 1000000) :: u64) = c mod 1000000"
    by (simp add: uint_word_of_int_eq take_bit_int_eq_self)
  have "int (unat (of_int (c mod 1000000) :: u64)) < int 1000000"
    unfolding uint_nat[symmetric] u by simp
  then show "unat (of_int (c mod 1000000) :: u64) < 1000000" by (simp only: of_nat_less_iff)
qed

text \<open>The clock of a server with an anchor, as microseconds since the Unix epoch.\<close>

lemma served_us:
  assumes "clock_anchor s = Some a" "0 \<le> unix_seconds a" "in_i64 (now - monotonic_us a)"
    and c: "c = corrected_elapsed_us (now - monotonic_us a) s"
    and "unix_seconds a + c div 1000000 < era_seconds"
  shows "ts_to_us (current_ntp_timestamp now wall s) = unix_seconds a * 1000000 + c"
    "current_utc_unix_seconds now s = Some (unix_seconds a + c div 1000000)"
proof -
  have c0: "0 \<le> c" by (simp add: c corrected_alt)
  have d: "0 \<le> c div 1000000" using c0 by simp
  have sa: "sat_add (unix_seconds a) (c div 1000000) = unix_seconds a + c div 1000000"
    using assms(2,5) d by (intro sat_add_id) (simp add: in_i64_def i64_min_def i64_max_def era_seconds_def)
  have ss: "sat_sub now (monotonic_us a) = now - monotonic_us a" by (rule sat_sub_id[OF assms(3)])
  show "current_utc_unix_seconds now s = Some (unix_seconds a + c div 1000000)"
    by (simp add: current_utc_unix_seconds_def assms(1) ss c[symmetric] sa MICROS_PER_SEC_def)
  have "ts_to_us (current_ntp_timestamp now wall s)
      = ts_to_us (ntp_timestamp_from_unix (unix_seconds a + c div 1000000) (of_int (c mod 1000000)))"
    by (simp add: current_ntp_timestamp_def assms(1) ss c[symmetric] sa MICROS_PER_SEC_def Let_def)
  also have "\<dots> = (unix_seconds a + c div 1000000) * 1000000 + c mod 1000000"
    using ts_to_us_from_unix[OF _ assms(5) rem_us(1)[of c]] assms(2) d by (simp add: rem_us)
  also have "\<dots> = unix_seconds a * 1000000 + c" by (simp add: algebra_simps)
  finally show "ts_to_us (current_ntp_timestamp now wall s) = unix_seconds a * 1000000 + c" .
qed

text \<open>C9: Between discipline events the timestamps served name the anchor's second plus the
  frequency-corrected elapsed time, to within 2 microseconds; a later reading never gives an
  earlier timestamp; and the UTC second shown to the user is the one of the timestamp.\<close>

theorem served_time:
  assumes "clock_anchor s = Some a" "good_freq (freq_ppm s)" "0 \<le> unix_seconds a"
    and "monotonic_us a \<le> now" "now \<le> later" "later - monotonic_us a \<le> 2 ^ 40"
    and "unix_seconds a + 2 ^ 41 div 1000000 < era_seconds"
  shows "\<bar>of_int (ts_to_us (current_ntp_timestamp now wall s))
        - (of_int (unix_seconds a * 1000000)
           + of_int (now - monotonic_us a) * (1 - fval (freq_ppm s) / 1000000))\<bar> < 2 \<and>
    ts_to_us (current_ntp_timestamp now wall s) \<le> ts_to_us (current_ntp_timestamp later wall s) \<and>
    current_utc_unix_seconds now s = Some (ts_to_us (current_ntp_timestamp now wall s) div 1000000)"
proof -
  let ?c = "\<lambda>t. corrected_elapsed_us (t - monotonic_us a) s"
  have i: "in_i64 (now - monotonic_us a)" "in_i64 (later - monotonic_us a)" "in_i64 (2 ^ 40)"
    using assms(4-6) by (auto simp: in_i64_def i64_min_def i64_max_def)
  have m: "?c now \<le> ?c later" using assms(5) i by (intro corrected_mono[OF assms(2)]) auto
  have f: "\<bar>fval (freq_ppm s)\<bar> \<le> 500" using assms(2) by (simp add: good_freq_def)
  have "?c later \<le> corrected_elapsed_us (2 ^ 40) s"
    using assms(6) i by (intro corrected_mono[OF assms(2)]) auto
  also have "\<dots> < 2 ^ 41"
  proof -
    have "of_int (2 ^ 40) * (1 - fval (freq_ppm s) / 1000000) \<le> 2 ^ 40 * (1 + 1 / 1000 :: rat)"
      using f by (intro mult_mono) (auto simp: abs_le_iff)
    then have "of_int (corrected_elapsed_us (2 ^ 40) s) < (of_int (2 ^ 41) :: rat)"
      using corrected_error[OF assms(2), of "2 ^ 40"] by simp
    then show ?thesis by (simp only: of_int_less_iff)
  qed
  finally have "?c later div 1000000 \<le> 2 ^ 41 div 1000000" by (intro zdiv_mono1) auto
  moreover from m have "?c now div 1000000 \<le> ?c later div 1000000" by (intro zdiv_mono1) auto
  ultimately have e: "unix_seconds a + ?c now div 1000000 < era_seconds"
    "unix_seconds a + ?c later div 1000000 < era_seconds" using assms(7) by linarith+
  note n = served_us[OF assms(1,3) i(1) refl e(1)] and l = served_us[OF assms(1,3) i(2) refl e(2)]
  have "\<bar>of_int (?c now) - of_int (now - monotonic_us a) * (1 - fval (freq_ppm s) / 1000000)\<bar> < (2 :: rat)"
    using assms(4-6) by (intro corrected_error[OF assms(2)]) auto
  then show ?thesis unfolding n l using m by (simp add: algebra_simps)
qed

lemma locked_server_fields:
  "clock_anchor locked_server = Some \<lparr>unix_seconds = 1750000000, monotonic_us = 7000000\<rparr>"
  "freq_ppm locked_server = Num 20"
  by (simp_all add: locked_server_def)

theorem served_time_witness:
  "\<bar>of_int (ts_to_us (current_ntp_timestamp 8500000 None locked_server))
      - (of_int (1750000000 * 1000000) + of_int (8500000 - 7000000) * (1 - 20 / 1000000))\<bar> < (2 :: rat) \<and>
   ts_to_us (current_ntp_timestamp 8500000 None locked_server)
     \<le> ts_to_us (current_ntp_timestamp 9000000 None locked_server) \<and>
   current_utc_unix_seconds 8500000 locked_server
     = Some (ts_to_us (current_ntp_timestamp 8500000 None locked_server) div 1000000)"
  using served_time[of locked_server "\<lparr>unix_seconds = 1750000000, monotonic_us = 7000000\<rparr>"
      8500000 9000000 None]
  by (simp add: locked_server_fields good_freq_def era_seconds_def)

section \<open>The server invariant\<close>

text \<open>A finite magnitude up to \<open>b\<close>.\<close>

definition good_mag :: "rat \<Rightarrow> fp \<Rightarrow> bool" where
  "good_mag b f \<longleftrightarrow> is_fin f \<and> 0 \<le> fval f \<and> fval f \<le> b"

lemma good_mag_simps [simp]: "good_mag b (Num x) \<longleftrightarrow> 0 \<le> x \<and> x \<le> b"
  by (simp add: good_mag_def)

lemma rnd32_le: "0 \<le> x \<Longrightarrow> rnd F32 x \<le> 1 + x * (1001 / 1000)"
proof -
  assume x: "0 \<le> x"
  show ?thesis
  proof (cases "1 \<le> x")
    case True
    have "x * 2 powi (- int 24) \<le> x * (1 / 1000)"
      using True by (intro mult_left_mono) (auto simp: power_int_def power_divide)
    then show ?thesis using r32.rel_error[of x] True by linarith
  next
    case False
    then show ?thesis using r32.le_int[of x 1] x by simp
  qed
qed

lemma ewma_weights:
  "is_fin (flit F32 (8 / 10))" "0 \<le> fval (flit F32 (8 / 10))" "fval (flit F32 (8 / 10)) \<le> 801 / 1000"
  "is_fin (flit F32 (2 / 10))" "0 \<le> fval (flit F32 (2 / 10))" "fval (flit F32 (2 / 10)) \<le> 201 / 1000"
proof -
  have l: "\<bar>8 / 10 :: rat\<bar> \<le> 2 powi 100" "\<bar>2 / 10 :: rat\<bar> \<le> 2 powi 100" by simp_all
  have e: "(2 :: rat) powi (- 25) \<le> 1 / 1000" by (simp add: power_int_def power_divide)
  have "\<bar>rnd F32 (8 / 10) - 8 / 10\<bar> \<le> 1 / 1000" "\<bar>rnd F32 (2 / 10) - 2 / 10\<bar> \<le> 1 / 1000"
    using rnd_abs_error[of "8 / 10" 0 F32] rnd_abs_error[of "2 / 10" 0 F32] e by (simp_all add: F32_def)
  then show "is_fin (flit F32 (8 / 10))" "0 \<le> fval (flit F32 (8 / 10))" "fval (flit F32 (8 / 10)) \<le> 801 / 1000"
    "is_fin (flit F32 (2 / 10))" "0 \<le> fval (flit F32 (2 / 10))" "fval (flit F32 (2 / 10)) \<le> 201 / 1000"
    using lit32[OF l(1)] lit32[OF l(2)] r32.nonneg[of "8 / 10"] r32.nonneg[of "2 / 10"] by linarith+
qed

lemma weighted32:
  assumes "good_mag b f" "is_fin w" "0 \<le> fval w" "fval w \<le> c" "c \<le> 1" "b \<le> 2 powi 64"
  shows "is_fin (fmul F32 f w)" "0 \<le> fval (fmul F32 f w)"
    "fval (fmul F32 f w) \<le> 1 + b * c * (1001 / 1000)"
proof -
  have f: "is_fin f" "0 \<le> fval f" "fval f \<le> b" using assms(1) by (simp_all add: good_mag_def)
  have n: "0 \<le> fval f * fval w" using f assms(3) by simp
  have u: "fval f * fval w \<le> b * c" using f assms(3,4) by (intro mult_mono) auto
  also have "\<dots> \<le> 2 powi 64 * 1" using f assms(3-6) by (intro mult_mono) auto
  finally have "\<bar>fval f * fval w\<bar> \<le> 2 powi 100" using n by simp
  note m = fin_mul[OF f(1) assms(2) below_top32[OF this]]
  show "is_fin (fmul F32 f w)" "0 \<le> fval (fmul F32 f w)" using m n by (simp_all add: r32.nonneg)
  have "rnd F32 (fval f * fval w) \<le> 1 + (fval f * fval w) * (1001 / 1000)" by (rule rnd32_le[OF n])
  then show "fval (fmul F32 f w) \<le> 1 + b * c * (1001 / 1000)" using m u by simp
qed

lemma ewma32_good:
  assumes "good_mag b old" "good_mag m smp" "m \<le> b / 2" "1000 \<le> b" "b \<le> 2 powi 64" "rnd F32 b = b"
  shows "good_mag b (ewma32 old smp)"
proof -
  let ?x = "fmul F32 old (flit F32 (8 / 10))" and ?y = "fmul F32 smp (flit F32 (2 / 10))"
  have "m \<le> 2 powi 64" using assms(3-5) by linarith
  then have m: "m \<le> 2 powi 64" .
  have c: "801 / 1000 \<le> (1 :: rat)" "201 / 1000 \<le> (1 :: rat)" by simp_all
  note x = weighted32[OF assms(1) ewma_weights(1-3) c(1) assms(5)]
    and y = weighted32[OF assms(2) ewma_weights(4-6) c(2) m]
  have s: "0 \<le> fval ?x + fval ?y" "fval ?x + fval ?y \<le> b" using x y assms(3,4) by linarith+
  have "\<bar>fval ?x + fval ?y\<bar> \<le> 2 powi 100" using s assms(5) by simp
  from fin_add[OF x(1) y(1) below_top32[OF this]] s
  show ?thesis using r32.mono[OF s(2)] assms(6) by (simp add: good_mag_def ewma32_def r32.nonneg)
qed

definition server_inv :: "ntp_server \<Rightarrow> bool" where
  "server_inv s \<longleftrightarrow> good_freq (freq_ppm s) \<and> good_mag 200000 (pps_jitter_us s) \<and>
     good_mag (2 ^ 64) (proc_delay_us s) \<and> \<bar>pps_offset_us s\<bar> \<le> 200000 \<and> pending_leap s \<le> 2 \<and>
     rate_inv (rate_limiter s) \<and>
     (last_pps_monotonic_us s \<noteq> None \<longleftrightarrow> pps_locked s) \<and>
     (pps_locked s \<longrightarrow> clock_anchor s \<noteq> None \<and> last_gps_utc_update_us s \<noteq> None) \<and>
     (last_gps_utc_seconds s = None \<longleftrightarrow> last_gps_utc_update_us s = None) \<and>
     (pending_gps_step s \<noteq> None \<longrightarrow> pps_locked s)"

lemma from_socket_inv: "server_inv from_socket"
  by (simp add: server_inv_def from_socket_def good_freq_def rate_new_inv)

lemma set_acl_inv [step_inv]: "server_inv s \<Longrightarrow> server_inv (set_acl a s)"
  by (simp add: server_inv_def set_acl_def)

lemma set_leap_inv [step_inv]: "server_inv s \<Longrightarrow> server_inv (set_leap_indicator li s)"
  by (simp add: server_inv_def set_leap_indicator_def)

lemma seed_inv [step_inv]: "server_inv s \<Longrightarrow> server_inv (seed_utc_seconds utc t s)"
  by (auto simp: server_inv_def seed_utc_seconds_def)

lemma update_gps_inv [step_inv]: "server_inv s \<Longrightarrow> server_inv (update_gps_utc_seconds utc t s)"
  by (auto simp: server_inv_def update_gps_utc_seconds_def Let_def)

lemma lock_anchor_inv:
  "server_inv s \<Longrightarrow> last_gps_utc_update_us s \<noteq> None \<Longrightarrow> server_inv (lock_anchor secs t s)"
  by (auto simp: server_inv_def lock_anchor_def)

lemma gps_second_Some: "gps_second_at_edge fudge t s = Some n \<Longrightarrow> last_gps_utc_update_us s \<noteq> None"
  by (auto simp: gps_second_at_edge_def gps_time_fresh_def split: option.splits)

lemma fint32_small:
  assumes "\<bar>e\<bar> \<le> 200000"
  shows "good_mag (of_int \<bar>e\<bar>) (fint F32 \<bar>e\<bar>)"
proof -
  have "\<bar>\<bar>e\<bar>\<bar> \<le> 2 ^ 64" "\<bar>\<bar>e\<bar>\<bar> < 2 ^ 24" using assms by auto
  then show ?thesis using fin_fint[of "\<bar>e\<bar>" F32] r32.int_exact[of "\<bar>e\<bar>"]
    by (simp add: good_mag_def)
qed

lemma pulse_second_frame:
  obtains p n where "snd (pulse_second fudge now a s) = s\<lparr>pending_gps_step := p, anchor_step_count := n\<rparr>"
proof (cases "gps_second_at_edge fudge now s")
  case None
  then show thesis using that[where p = None and n = "anchor_step_count s"] by (simp add: pulse_second_def)
next
  case (Some g)
  show thesis
    using that[where p = "if pending_gps_step s = Some (wrap_i64 (g - predicted_second now a s)) \<or> g = predicted_second now a s
                   then None else Some (wrap_i64 (g - predicted_second now a s))"
        and n = "if pending_gps_step s = Some (wrap_i64 (g - predicted_second now a s)) \<and> g \<noteq> predicted_second now a s
         then sat_inc (anchor_step_count s) else anchor_step_count s"] Some
    by (simp add: pulse_second_def Let_def split: if_splits)
qed

lemma accept_pulse_inv:
  assumes "server_inv s" "pulse_accepted interval a s"
  shows "server_inv (accept_pulse fudge (uint interval - 1000000) now a s)"
proof -
  let ?e = "uint interval - 1000000"
  have e: "\<bar>?e\<bar> \<le> 200000" using assms(2) by (auto simp: pulse_accepted_def intro!: interval_range)
  let ?s = "s\<lparr>freq_ppm := blend_freq ?e (freq_ppm s)\<rparr>"
  obtain secs p n where p: "pulse_second fudge now a ?s = (secs, ?s\<lparr>pending_gps_step := p, anchor_step_count := n\<rparr>)"
    using pulse_second_frame[of fudge now a ?s] by (metis prod.collapse)
  have f: "good_freq (blend_freq ?e (freq_ppm s))"
    using assms(1) by (intro blend_freq_good[OF _ e]) (simp add: server_inv_def)
  note smp = fint32_small[OF e]
  have j: "good_mag 200000 (if pps_has_sample s then ewma32 (pps_jitter_us s) (fint F32 \<bar>?e\<bar>)
             else fint F32 \<bar>?e\<bar>)"
  proof (cases "pps_has_sample s")
    case True
    then have "\<bar>?e\<bar> \<le> 50000" using assms(2) by (simp add: pulse_accepted_def PPS_OUTLIER_THRESHOLD_US_def)
    then have "(of_int \<bar>?e\<bar> :: rat) \<le> 50000" by (metis of_int_le_iff of_int_numeral)
    moreover have "rnd F32 200000 = 200000" using r32.int_exact[of 200000] by simp
    ultimately show ?thesis
      using True smp assms(1) ewma32_good[of 200000 "pps_jitter_us s" "of_int \<bar>?e\<bar>"]
      by (simp add: server_inv_def)
  next
    case False
    have "(of_int \<bar>?e\<bar> :: rat) \<le> 200000" using e by (metis of_int_le_iff of_int_numeral)
    with False smp show ?thesis by (simp add: good_mag_def)
  qed
  have "wrap_i32 ?e = ?e" using e by (intro wrap_i32_id) auto
  then show ?thesis
    using assms f j e by (auto simp: accept_pulse_def p Let_def server_inv_def pulse_accepted_def)
qed

lemma observe_pps_pulse_inv [step_inv]:
  assumes "server_inv s"
  shows "server_inv (observe_pps_pulse fudge i t s)"
proof -
  have glitch: "server_inv (s\<lparr>pps_glitch_count := n\<rparr>)" for n using assms by (simp add: server_inv_def)
  have lock: "server_inv (case gps_second_at_edge fudge t s of None \<Rightarrow> s | Some n \<Rightarrow> lock_anchor n t s)"
    using assms gps_second_Some[of fudge t s] by (auto intro: lock_anchor_inv split: option.split)
  show ?thesis
  proof (cases "\<exists>v a. i = Some v \<and> pulse_accepted v a s")
    case True
    then show ?thesis using accept_pulse_inv[OF assms] by (auto simp: observe_accepted)
  next
    case False
    then show ?thesis using assms glitch lock
      by (auto simp: observe_pps_pulse_def pulse_accepted_def Let_def split: option.split)
  qed
qed

lemma record_proc_delay_inv [step_inv]:
  assumes "server_inv s"
  shows "server_inv (record_proc_delay t u s)"
proof -
  let ?d = "max (sat_sub u t) 1"
  have d: "0 \<le> ?d" "?d \<le> 2 ^ 63" using sat_ops_range(2)[of u t] by (auto simp: in_i64_def i64_max_def)
  have "\<bar>of_int ?d :: rat\<bar> \<le> 2 powi 63"
    using d by (simp only: abs_of_nonneg of_int_0_le_iff) (metis of_int_le_iff of_int_numeral of_int_power power_int_of_nat of_nat_numeral)
  then have "\<bar>rnd F32 (of_int ?d)\<bar> \<le> 2 powi 63" by (rule r32.abs_le_pow) simp
  then have smp: "good_mag (2 ^ 63) (fint F32 ?d)"
    using fin_fint[of ?d F32] d by (simp add: good_mag_def r32.nonneg)
  moreover have "rnd F32 (2 ^ 64) = 2 ^ 64" using r32.pow_exact[of 64] by simp
  ultimately have "good_mag (2 ^ 64) (ewma32 (proc_delay_us s) (fint F32 ?d))"
    using assms ewma32_good[of "2 ^ 64" "proc_delay_us s" "2 ^ 63"] by (simp add: server_inv_def)
  moreover have "good_mag (2 ^ 64) (fint F32 ?d)" using smp by (simp add: good_mag_def)
  ultimately show ?thesis using assms by (simp add: record_proc_delay_def Let_def server_inv_def)
qed

lemma try_rate_limit_inv [step_inv]:
  "server_inv s \<Longrightarrow> server_inv (snd (try_rate_limit src t s))"
  using rate_check_inv[of "rate_limiter s"]
  by (auto simp: try_rate_limit_def server_inv_def split: option.split prod.splits if_splits)
     (metis snd_conv)+

section \<open>Stratum, leap and root dispersion\<close>

lemma pps_age_eq:
  "last_pps_monotonic_us s = Some t \<Longrightarrow> in_i64 (now - t) \<Longrightarrow> pps_age_us now s = now - t"
  by (simp add: pps_age_us_def sat_sub_id)

lemma jitter_cast:
  assumes "good_mag 200000 j"
  shows "0 \<le> fcast i64_min i64_max (fround j) \<and> fcast i64_min i64_max (fround j) \<le> 200000"
proof (cases j)
  case (Num x)
  then have x: "0 \<le> x" "x \<le> 200000" using assms by simp_all
  then have "0 \<le> \<lfloor>x + 1/2\<rfloor>" "\<lfloor>x + 1/2\<rfloor> \<le> 200000" by (simp_all add: floor_le_iff)
  with x Num show ?thesis
    by (simp add: fround_def round_away_def fcast_def clamp_int_def i64_min_def i64_max_def)
qed (use assms in \<open>auto simp: good_mag_def fround_def fcast_def clamp_int_def i64_min_def i64_max_def\<close>)

lemma disp_synced:
  assumes "server_inv s" "last_pps_monotonic_us s = Some t" "t \<le> now" "in_i64 (now - t)"
    and "fully_synced gps now s"
  shows "disp_us gps now s =
      max 100 (if pps_has_sample s then fcast i64_min i64_max (fround (pps_jitter_us s)) else 0)
      + 15 * min (now - t) 1000000 div 1000000"
    "100 \<le> disp_us gps now s" "disp_us gps now s \<le> 200015"
proof -
  let ?j = "fcast i64_min i64_max (fround (pps_jitter_us s))"
  have j: "0 \<le> ?j" "?j \<le> 200000" using jitter_cast[of "pps_jitter_us s"] assms(1) by (simp_all add: server_inv_def)
  define A where "A = min (now - t) 1000000"
  have a: "0 \<le> A" "A \<le> 1000000" using assms(3) by (auto simp: A_def)
  have w: "wrap_i64 (15 * A) = 15 * A"
    using a by (intro wrap_i64_id small_i64) linarith+
  have p: "15 * A div 1000000 \<le> 15" "0 \<le> 15 * A div 1000000"
  proof -
    have "15 * g div 1000000 \<le> 15 \<and> 0 \<le> 15 * g div 1000000" if "0 \<le> g" "g \<le> 1000000" for g :: int
      using that zdiv_mono1[of "15 * g" "15 * 1000000" 1000000]
      by (simp add: pos_imp_zdiv_nonneg_iff del: div_mult_mult1_if div_mult_mult1)
    from this[OF a] show "15 * A div 1000000 \<le> 15" "0 \<le> 15 * A div 1000000" by simp_all
  qed
  define H where "H = max 100 (if pps_has_sample s then ?j else 0)"
  have h: "100 \<le> H" "H \<le> 200000" using j by (auto simp: H_def)
  have "disp_us gps now s = wrap_i64 (H + wrap_i64 (15 * A) sdiv 1000000)"
    using assms(5) pps_age_eq[OF assms(2,4)] by (simp add: disp_us_def Let_def disp_consts max.commute A_def H_def)
  also have "wrap_i64 (15 * A) sdiv 1000000 = 15 * A div 1000000"
    unfolding w using a by (intro sdiv_nonneg) auto
  also have "wrap_i64 (H + 15 * A div 1000000) = H + 15 * A div 1000000"
    using h p by (intro wrap_i64_id small_i64) linarith+
  finally have e: "disp_us gps now s = H + 15 * A div 1000000" .
  show "disp_us gps now s = max 100 (if pps_has_sample s then ?j else 0) + 15 * min (now - t) 1000000 div 1000000"
    using e by (simp only: A_def H_def)
  show "100 \<le> disp_us gps now s" "disp_us gps now s \<le> 200015" unfolding e using h p by linarith+
qed

definition holdover_disp :: "int \<Rightarrow> int" where
  "holdover_disp age = min (1000 + 500 * (max (age - 10000000) 0 div 1000000)) 2000000"

lemma holdover_disp_mono: "a \<le> b \<Longrightarrow> holdover_disp a \<le> holdover_disp b"
  unfolding holdover_disp_def
  by (intro min.mono add_mono mult_left_mono zdiv_mono1) auto

lemma holdover_disp_range: "1000 \<le> holdover_disp a" "holdover_disp a \<le> 2000000"
  by (auto simp: holdover_disp_def)

lemma holdover_disp_unsync: "holdover_disp a < 1000000 \<longleftrightarrow> a < 2008000000"
proof -
  have "holdover_disp a < 1000000 \<longleftrightarrow> max (a - 10000000) 0 div 1000000 < 1998"
    by (auto simp: holdover_disp_def)
  also have "\<dots> \<longleftrightarrow> a < 2008000000" by linarith
  finally show ?thesis .
qed

lemma disp_by_age:
  assumes "\<not> fully_synced gps now s" "clock_anchor s \<noteq> None" "0 \<le> pps_age_us now s" "pps_age_us now s \<le> i64_max"
  shows "disp_us gps now s = holdover_disp (pps_age_us now s)"
proof -
  let ?age = "pps_age_us now s"
  let ?h = "max (?age - 10000000) 0"
  have ss: "max (sat_sub ?age 10000000) 0 = ?h"
    using assms(3,4) by (subst sat_sub_id) (auto simp: in_i64_def i64_min_def i64_max_def)
  have h: "0 \<le> ?h div 1000000" "?h div 1000000 \<le> 9223372036854"
    using assms(4) by (auto simp: i64_max_def)
  have "sat_mul (?h div 1000000) 500 = 500 * (?h div 1000000)"
    unfolding sat_mul_def using h by (subst sat_i64_id) (auto simp: in_i64_def i64_min_def i64_max_def)
  moreover have "wrap_i64 (1000 + 500 * (?h div 1000000)) = 1000 + 500 * (?h div 1000000)"
    using h by (intro wrap_i64_id) (auto simp: in_i64_def i64_min_def i64_max_def)
  ultimately show ?thesis
    using assms(1,2) by (simp add: disp_us_def Let_def disp_consts ss holdover_disp_def)
qed

lemma disp_holdover:
  assumes "last_pps_monotonic_us s = Some t" "t \<le> now" "in_i64 (now - t)"
    and "\<not> fully_synced gps now s" "clock_anchor s \<noteq> None"
  shows "disp_us gps now s = holdover_disp (now - t)"
  using disp_by_age[OF assms(4,5)] pps_age_eq[OF assms(1,3)] assms(2,3) by (simp add: in_i64_def)

lemma root_disp_short_value:
  assumes "0 \<le> d" "d \<le> 2000000"
  shows "uint (root_disp_short d) = d * 65536 div 1000000"
proof -
  have d: "uint (of_int d :: u64) = d" using assms by (simp add: uint_word_of_int_eq take_bit_int_eq_self)
  have "uint ((of_int d :: u64) * push_bit 16 1) = d * 65536"
    using assms d by (simp add: uint_word_ariths(3) push_bit_eq_mult)
  then have "uint ((of_int d :: u64) * push_bit 16 1 div 1000000) = d * 65536 div 1000000"
    by (simp add: uint_div_distrib)
  moreover have "d * 65536 div 1000000 < 2 ^ 32" "0 \<le> d * 65536 div 1000000" using assms by auto
  ultimately show ?thesis
    by (simp add: root_disp_short_def unsigned_ucast_eq take_bit_int_eq_self)
qed

lemma synced_locked:
  "server_inv s \<Longrightarrow> fully_synced gps now s \<Longrightarrow> pps_locked s"
  by (auto simp: server_inv_def fully_synced_def pps_age_us_def HOLDOVER_ENTRY_US_def i64_max_def
      split: option.splits)

lemma never_locked_unsync:
  assumes "server_inv s" "\<not> pps_locked s"
  shows "dp_stratum (discipline_params log2 gps now cur wall s) = 16"
    "dp_state (discipline_params log2 gps now cur wall s) = Unsync"
    "dp_leap (discipline_params log2 gps now cur wall s) = 3"
  using assms synced_locked[OF assms(1), of gps now]
  by (auto simp: discipline_params_def Let_def STRATUM_UNSYNC_def)

lemma stratum1_age:
  assumes "dp_stratum (discipline_params log2 gps now cur wall s) = 1"
  shows "pps_age_us now s < 2008000000"
proof (rule ccontr)
  assume "\<not> ?thesis"
  then have age: "2008000000 \<le> pps_age_us now s" by simp
  have "in_i64 (pps_age_us now s)"
    by (auto simp: pps_age_us_def sat_sub_def in_i64_def i64_min_def i64_max_def sat_i64_def split: option.split)
  then have le: "pps_age_us now s \<le> i64_max" by (simp add: in_i64_def)
  have "\<not> fully_synced gps now s" using age by (simp add: fully_synced_def HOLDOVER_ENTRY_US_def)
  with disp_by_age[OF this _ _ le] age holdover_disp_unsync[of "pps_age_us now s"] assms
  show False by (auto simp: discipline_params_def Let_def STRATUM_UNSYNC_def HOLDOVER_UNSYNC_US_def split: if_splits)
qed

lemma recent_pulse_served:
  assumes "pps_locked s" "clock_anchor s \<noteq> None" "last_pps_monotonic_us s = Some t" "t \<le> now" "now - t < 2008000000"
  shows "dp_stratum (discipline_params log2 gps now cur wall s) = 1" "dp_leap (discipline_params log2 gps now cur wall s) = pending_leap s"
proof -
  have age: "pps_age_us now s = now - t"
    by (rule pps_age_eq[OF assms(3)]) (use assms(4,5) in \<open>simp add: in_i64_def i64_min_def i64_max_def\<close>)
  show "dp_stratum (discipline_params log2 gps now cur wall s) = 1"
  proof (cases "fully_synced gps now s")
    case False
    then have "disp_us gps now s = holdover_disp (now - t)"
      using disp_by_age[OF False assms(2)] age assms(4,5) by (simp add: i64_max_def)
    then show ?thesis using assms(1,2,5) holdover_disp_unsync[of "now - t"]
      by (simp add: discipline_params_def Let_def HOLDOVER_UNSYNC_US_def)
  qed (simp add: discipline_params_def Let_def)
  then show "dp_leap (discipline_params log2 gps now cur wall s) = pending_leap s"
    by (auto simp: discipline_params_def Let_def STRATUM_UNSYNC_def split: if_splits)
qed

text \<open>C14: After the last accepted pulse at \<open>t\<close> the server stays at stratum 1 for exactly 2008 s,
  with or without a GPS fix; it reports Locked only with a fix and a pulse within 10 s, then
  Holdover, then Unsync with stratum 16 and the alarm leap value.\<close>

theorem holdover_lifetime:
  assumes "server_inv s" "last_pps_monotonic_us s = Some t" "t \<le> now" "in_i64 (now - t)"
  shows "let dp = discipline_params log2 gps now cur wall s in
    dp_stratum dp = (if now - t < 2008000000 then 1 else 16) \<and>
    dp_leap dp = (if now - t < 2008000000 then pending_leap s else 3) \<and>
    dp_state dp = (if gps \<and> now - t < 10000000 then Locked
                   else if now - t < 2008000000 then Holdover else Unsync)"
proof -
  have l: "pps_locked s" "clock_anchor s \<noteq> None" using assms(1,2) by (auto simp: server_inv_def)
  have f: "fully_synced gps now s \<longleftrightarrow> gps \<and> now - t < 10000000"
    using l(2) pps_age_eq[OF assms(2,4)] by (simp add: fully_synced_def HOLDOVER_ENTRY_US_def)
  have "disp_us gps now s < HOLDOVER_UNSYNC_US \<longleftrightarrow> now - t < 2008000000" if "\<not> fully_synced gps now s"
    using disp_holdover[OF assms(2-4) that l(2)] holdover_disp_unsync by (simp add: HOLDOVER_UNSYNC_US_def)
  then show ?thesis
    using l f by (cases "fully_synced gps now s") (auto simp: discipline_params_def Let_def STRATUM_UNSYNC_def)
qed

lemma locked_server_inv: "server_inv locked_server"
  by (simp add: server_inv_def locked_server_def from_socket_def good_freq_def rate_new_inv)

theorem holdover_lifetime_witness:
  "let dp = discipline_params id False 2014999999 0 None locked_server in
    dp_stratum dp = (if 2014999999 - 7000000 < (2008000000 :: int) then 1 else 16) \<and>
    dp_leap dp = (if 2014999999 - 7000000 < (2008000000 :: int) then pending_leap locked_server else 3) \<and>
    dp_state dp = (if False \<and> 2014999999 - 7000000 < (10000000 :: int) then Locked
                   else if 2014999999 - 7000000 < (2008000000 :: int) then Holdover else Unsync)"
  by (rule holdover_lifetime[OF locked_server_inv])
    (simp_all add: locked_server_def in_i64_def i64_min_def i64_max_def)

text \<open>C22: The root dispersion sent is the dispersion in 16.16 seconds, rounded down. Locked it is
  within 100 microseconds and 0.2 s; in holdover it is 1 ms plus 0.5 ms per whole second after the
  first ten, up to 2 s, and never shrinks while holdover lasts.\<close>

theorem root_dispersion:
  assumes "server_inv s" "last_pps_monotonic_us s = Some t" "t \<le> now" "in_i64 (now - t)"
  shows "uint (dp_root_disp_short (discipline_params log2 gps now cur wall s))
      = disp_us gps now s * 65536 div 1000000 \<and>
    (if gps \<and> now - t < 10000000 then 100 \<le> disp_us gps now s \<and> disp_us gps now s \<le> 200015
     else disp_us gps now s = holdover_disp (now - t) \<and> 1000 \<le> disp_us gps now s
       \<and> disp_us gps now s \<le> 2000000)"
proof -
  have c: "clock_anchor s \<noteq> None" using assms(1,2) by (auto simp: server_inv_def)
  have f: "fully_synced gps now s \<longleftrightarrow> gps \<and> now - t < 10000000"
    using c pps_age_eq[OF assms(2,4)] by (simp add: fully_synced_def HOLDOVER_ENTRY_US_def)
  have *: "if gps \<and> now - t < 10000000 then 100 \<le> disp_us gps now s \<and> disp_us gps now s \<le> 200015
     else disp_us gps now s = holdover_disp (now - t) \<and> 1000 \<le> disp_us gps now s
       \<and> disp_us gps now s \<le> 2000000"
    using disp_synced(2,3)[OF assms, of gps] disp_holdover[OF assms(2-4) _ c, of gps] holdover_disp_range
    unfolding f by auto
  then have "0 \<le> disp_us gps now s" "disp_us gps now s \<le> 2000000" by (auto split: if_splits)
  with * show ?thesis by (simp add: discipline_params_def Let_def root_disp_short_value)
qed

theorem root_dispersion_witness:
  "uint (dp_root_disp_short (discipline_params id True 107000000 0 None locked_server))
      = disp_us True 107000000 locked_server * 65536 div 1000000 \<and>
    (if True \<and> 107000000 - 7000000 < (10000000 :: int)
     then 100 \<le> disp_us True 107000000 locked_server \<and> disp_us True 107000000 locked_server \<le> 200015
     else disp_us True 107000000 locked_server = holdover_disp (107000000 - 7000000)
       \<and> 1000 \<le> disp_us True 107000000 locked_server \<and> disp_us True 107000000 locked_server \<le> 2000000)"
  by (rule root_dispersion[OF locked_server_inv])
    (simp_all add: locked_server_def in_i64_def i64_min_def i64_max_def)

definition jittery_server :: ntp_server where
  "jittery_server = locked_server\<lparr>pps_has_sample := True, pps_jitter_us := Num 40000\<rparr>"

text \<open>Losing the fix can lower the advertised dispersion: with a measured jitter of 40 ms the
  locked server sends 40 ms, and the same server in holdover one instant later sends 1 ms.\<close>

theorem holdover_entry_lowers_dispersion:
  "dp_state (discipline_params log2 True 7900000 cur wall jittery_server) = Locked \<and>
   disp_us True 7900000 jittery_server = 40013 \<and>
   dp_state (discipline_params log2 False 7900001 cur wall jittery_server) = Holdover \<and>
   disp_us False 7900001 jittery_server = 1000"
proof -
  have i: "server_inv jittery_server" "last_pps_monotonic_us jittery_server = Some 7000000"
    by (simp_all add: server_inv_def jittery_server_def locked_server_def from_socket_def good_freq_def
        rate_new_inv)
  have r: "in_i64 (7900000 - 7000000)" "in_i64 (7900001 - 7000000)"
    by (simp_all add: in_i64_def i64_min_def i64_max_def)
  have f: "fully_synced True 7900000 jittery_server"
    using pps_age_eq[OF i(2) r(1)]
    by (simp add: fully_synced_def HOLDOVER_ENTRY_US_def) (simp add: jittery_server_def locked_server_def)
  have "round_away 40000 = 40000" by (simp add: round_away_def)
  then have "disp_us True 7900000 jittery_server = 40013"
    using disp_synced(1)[OF i _ r(1) f]
    by (simp add: fround_def fcast_def clamp_int_def i64_min_def i64_max_def jittery_server_def ftrunc_def)
  moreover have "disp_us False 7900001 jittery_server = 1000"
    using disp_holdover[OF i(2) _ r(2), of False]
    by (simp add: fully_synced_def holdover_disp_def) (simp add: jittery_server_def locked_server_def)
  moreover have "pps_locked jittery_server" "clock_anchor jittery_server \<noteq> None"
    by (simp_all add: jittery_server_def locked_server_def)
  ultimately show ?thesis
    using f by (simp add: discipline_params_def Let_def fully_synced_def[of False] HOLDOVER_UNSYNC_US_def)
qed

end
