(* ===== verification/Packets.thy ===== *)
theory Packets
  imports Quality
begin

text \<open>
  The packets the server sends (\<open>src/ntp/mod.rs\<close>): the 48-byte time response and the
  Kiss-o'-Death, and the mode-6 control responses with their text variables. The lemmas read
  each field back from the bytes on the wire.
\<close>

definition NTP_PACKET_LEN :: nat where "NTP_PACKET_LEN = 48"
definition NTP_MAX_PACKET_LEN :: nat where "NTP_MAX_PACKET_LEN = 512"
definition NTP_CONTROL_HEADER_LEN :: nat where "NTP_CONTROL_HEADER_LEN = 12"
definition MODE_CLIENT :: u8 where "MODE_CLIENT = 3"
definition MODE_SYMMETRIC_ACTIVE :: u8 where "MODE_SYMMETRIC_ACTIVE = 1"
definition MODE_SYMMETRIC_PASSIVE :: u8 where "MODE_SYMMETRIC_PASSIVE = 2"
definition MODE_SERVER :: u8 where "MODE_SERVER = 4"
definition MODE_CONTROL :: u8 where "MODE_CONTROL = 6"
definition MODE6_OPCODE_READSTAT :: u8 where "MODE6_OPCODE_READSTAT = 1"
definition MODE6_OPCODE_READVAR :: u8 where "MODE6_OPCODE_READVAR = 2"
definition MODE6_ASSOC_ID :: u16 where "MODE6_ASSOC_ID = 1"
definition MODE6_RESPONSE_BIT :: u8 where "MODE6_RESPONSE_BIT = 0x80"
definition MODE6_ERROR_BIT :: u8 where "MODE6_ERROR_BIT = 0x40"
definition MODE6_ERR_BAD_OPCODE :: u16 where "MODE6_ERR_BAD_OPCODE = 3"
definition MODE6_ERR_BAD_ASSOC :: u16 where "MODE6_ERR_BAD_ASSOC = 4"

lemmas packet_consts = NTP_PACKET_LEN_def NTP_MAX_PACKET_LEN_def NTP_CONTROL_HEADER_LEN_def
  MODE_CLIENT_def MODE_SYMMETRIC_ACTIVE_def MODE_SYMMETRIC_PASSIVE_def MODE_SERVER_def
  MODE_CONTROL_def

lemmas mode6_consts = MODE6_OPCODE_READSTAT_def MODE6_OPCODE_READVAR_def MODE6_ASSOC_ID_def
  MODE6_RESPONSE_BIT_def MODE6_ERROR_BIT_def MODE6_ERR_BAD_OPCODE_def MODE6_ERR_BAD_ASSOC_def

section \<open>Time responses\<close>

text \<open>\<open>copy_from_slice\<close> into the bytes from \<open>i\<close> on, and the bytes of a text.\<close>

definition set_bytes :: "nat \<Rightarrow> u8 list \<Rightarrow> u8 list \<Rightarrow> u8 list" where
  "set_bytes i bs xs = take i xs @ bs @ drop (i + length bs) xs"

definition str_bytes :: "string \<Rightarrow> u8 list" where
  "str_bytes s = map (\<lambda>c. of_nat (byte_of c)) s"

definition get_bytes :: "nat \<Rightarrow> nat \<Rightarrow> u8 list \<Rightarrow> u8 list" where
  "get_bytes i j xs = take (j - i) (drop i xs)"

definition build_response :: "u8 list \<Rightarrow> discipline_params \<Rightarrow> u64 \<Rightarrow> u8 \<Rightarrow> u8 list" where
  "build_response req dp receive_ts reply_mode =
     (let resp = replicate NTP_PACKET_LEN 0;
          version = reply_version (drop_bit 3 (req ! 0) AND 7);
          resp = resp[0 := push_bit 6 (dp_leap dp) OR push_bit 3 version OR (reply_mode AND 7)];
          resp = resp[1 := (if STRATUM_UNSYNC \<le> dp_stratum dp then 0 else dp_stratum dp)];
          resp = resp[2 := req ! 2];
          resp = resp[3 := of_int (dp_precision dp)];
          resp = set_bytes 4 (be32 0) resp;
          resp = set_bytes 8 (be32 (dp_root_disp_short dp)) resp;
          resp = set_bytes 12 (str_bytes (if dp_stratum dp = 1 then ''GPS'' @ [CHR 0x00] else ''INIT'')) resp;
          reference_ts = (if dp_stratum dp = 1 then dp_ref_ts dp else 0);
          resp = set_bytes 16 (be64 reference_ts) resp;
          resp = set_bytes 24 (get_bytes 40 48 req) resp
      in set_bytes 32 (be64 receive_ts) resp)"

definition KOD_KISS_RATE :: "u8 list" where "KOD_KISS_RATE = str_bytes ''RATE''"

definition build_kod_response :: "u8 list \<Rightarrow> u8 \<Rightarrow> u8 \<Rightarrow> u8 list" where
  "build_kod_response req version reply_mode =
     (let resp = replicate NTP_PACKET_LEN 0;
          resp = resp[0 := push_bit 6 3 OR push_bit 3 (reply_version version) OR (reply_mode AND 7)];
          resp = resp[1 := 0];
          resp = set_bytes 12 KOD_KISS_RATE resp
      in set_bytes 24 (get_bytes 40 48 req) resp)"

section \<open>Mode-6 text\<close>

definition ntp_ts_to_mode6 :: "u64 \<Rightarrow> string" where
  "ntp_ts_to_mode6 ts =
     ''0x'' @ hex_fixed 8 (unat (ucast (drop_bit 32 ts) :: u32)) @ ''.'' @
     hex_fixed 8 (unat (ucast ts :: u32))"

text \<open>
  \<open>{:.3}\<close> of a floating value: the exact value rounded to thousandths, ties to even, with the
  sign of the value (also of a negative zero).
\<close>

definition fmt3 :: "fp \<Rightarrow> string" where
  "fmt3 a = (case a of
       NaN \<Rightarrow> ''NaN''
     | Inf s \<Rightarrow> (if s then ''-inf'' else ''inf'')
     | _ \<Rightarrow> (let n = nat (rne (\<bar>fval a\<bar> * 1000))
            in (if signbit a then ''-'' else '''') @ dec_digits (n div 1000) @ ''.'' @
               zero_pad 3 (dec_digits (n mod 1000))))"

definition leap_text :: "u8 \<Rightarrow> string" where
  "leap_text leap = (let l = unat (leap AND 3) in [dec_char (l div 2), dec_char (l mod 2)])"

definition us_to_ms :: "fp \<Rightarrow> fp" where
  "us_to_ms a = fdiv F64 a (flit F64 1000)"

definition system_vars :: "discipline_params \<Rightarrow> servo_stats \<Rightarrow> string" where
  "system_vars dp stats =
     (if dp_stratum dp = 1 then
        (let offset_ms = us_to_ms (fint F64 (ss_pps_offset_us stats));
             jitter_ms = us_to_ms (fconv F64 (fmax (ss_pps_jitter_us stats) (flit F32 1)));
             freq = ss_freq_ppm stats;
             freq_sign = (if fle (Num 0) freq then ''+'' else '''')
         in ''stratum='' @ dec_digits (unat (dp_stratum dp)) @ '',leap='' @ leap_text (dp_leap dp) @
            '',precision='' @ fmt_int (dp_precision dp) @
            '',rootdelay='' @ fmt3 (Num 0) @ '',rootdisp='' @ fmt3 (dp_root_disp_ms dp) @
            '',refid=GPS,reftime='' @ ntp_ts_to_mode6 (dp_ref_ts dp) @
            '',clock='' @ ntp_ts_to_mode6 (dp_current_ts dp) @
            '',offset='' @ fmt3 offset_ms @ '',frequency='' @ freq_sign @ fmt3 freq @
            '',sys_jitter='' @ fmt3 jitter_ms @ '',clk_jitter='' @ fmt3 jitter_ms @
            '',clk_wander='' @ fmt3 (fabs freq) @
            '',tc=7,mintc=3,peer=1,system=\"rust_gps_ntp\"'')
      else
        ''stratum=16,leap=11,precision='' @ fmt_int (dp_precision dp) @
        '',rootdelay='' @ fmt3 (Num 0) @ '',rootdisp='' @ fmt3 (dp_root_disp_ms dp) @
        '',refid=INIT,reftime='' @ ntp_ts_to_mode6 (dp_ref_ts dp) @
        '',clock='' @ ntp_ts_to_mode6 (dp_current_ts dp) @
        '',offset=0.000,frequency=+0.000,sys_jitter=0.000,clk_jitter=0.000,clk_wander=0.000'' @
        '',tc=7,mintc=3,peer=0,system=\"rust_gps_ntp\"'')"

definition peer_vars :: "discipline_params \<Rightarrow> servo_stats \<Rightarrow> string" where
  "peer_vars dp stats =
     (if dp_stratum dp = 1 then
        (let offset_ms = us_to_ms (fint F64 (ss_pps_offset_us stats));
             jitter_ms = us_to_ms (fconv F64 (fmax (ss_pps_jitter_us stats) (flit F32 1)));
             delay_ms = us_to_ms (fconv F64 (fmax (ss_proc_delay_us stats) (flit F32 1)))
         in ''srcadr=GPS,srcport=123,refid=GPS,stratum='' @ dec_digits (unat (dp_stratum dp)) @
            '',leap='' @ leap_text (dp_leap dp) @ '',hmode=3,pmode=4,hpoll=6,ppoll=6,reach=255'' @
            '',delay='' @ fmt3 delay_ms @ '',offset='' @ fmt3 offset_ms @ '',jitter='' @ fmt3 jitter_ms @
            '',dispersion='' @ fmt3 (dp_root_disp_ms dp) @ '',xleave=0.000'' @
            '',filtdelay='' @ fmt3 delay_ms @ '',filtoffset='' @ fmt3 offset_ms @
            '',filtdisp='' @ fmt3 jitter_ms)
      else
        ''srcadr=INIT,srcport=123,refid=INIT,stratum=16,leap=11,hmode=3,pmode=4,hpoll=6,ppoll=6,'' @
        ''reach=0,delay=0.001,offset=0.000,jitter=0.000,dispersion=5000.000,xleave=0.000,'' @
        ''filtdelay=0.001,filtoffset=0.000,filtdisp=5000.000'')"

section \<open>Mode-6 responses\<close>

definition peer_status :: "discipline_params \<Rightarrow> u16" where
  "peer_status dp = (if dp_stratum dp = 1 then push_bit 13 6 OR push_bit 12 1 OR push_bit 9 1
                     else push_bit 12 1)"

text \<open>The payload of a request, or the error code of its refusal.\<close>

definition mode6_payload ::
    "u8 \<Rightarrow> u16 \<Rightarrow> discipline_params \<Rightarrow> servo_stats \<Rightarrow> u16 + u8 list" where
  "mode6_payload opcode associd dp stats =
     (if opcode = MODE6_OPCODE_READSTAT then
        (if associd = 0 then Inr (be16 MODE6_ASSOC_ID @ be16 (peer_status dp))
         else if associd \<noteq> MODE6_ASSOC_ID then Inl MODE6_ERR_BAD_ASSOC
         else Inr [])
      else if opcode = MODE6_OPCODE_READVAR then
        (if associd = 0 then Inr (str_bytes (system_vars dp stats))
         else if associd = MODE6_ASSOC_ID then Inr (str_bytes (peer_vars dp stats))
         else Inl MODE6_ERR_BAD_ASSOC)
      else Inl MODE6_ERR_BAD_OPCODE)"

definition mode6_status :: "u8 \<Rightarrow> u16 \<Rightarrow> discipline_params \<Rightarrow> u16 + u8 list \<Rightarrow> u16" where
  "mode6_status opcode associd dp r = (case r of
       Inl code \<Rightarrow> push_bit 8 code
     | Inr _ \<Rightarrow>
         if opcode = MODE6_OPCODE_READSTAT \<and> associd \<noteq> 0 then peer_status dp
         else push_bit 14 (ucast (dp_leap dp)) OR push_bit 8 (if dp_stratum dp = 1 then 4 else 0))"

text \<open>The padding loop \<open>while !len.is_multiple_of(4) { push(0) }\<close>.\<close>

function pad4 :: "u8 list \<Rightarrow> u8 list" where
  "pad4 xs = (if 4 dvd length xs then xs else pad4 (xs @ [0]))"
  by pat_completeness auto
termination
proof (relation "measure (\<lambda>xs. (4 - length xs mod 4) mod 4)", simp)
  fix xs :: "u8 list" assume "\<not> 4 dvd length xs"
  then have "length xs mod 4 \<noteq> 0" by (simp add: dvd_eq_mod_eq_0)
  then have "Suc (length xs) mod 4 = (if length xs mod 4 = 3 then 0 else Suc (length xs mod 4))"
    by (simp add: mod_Suc)
  with \<open>length xs mod 4 \<noteq> 0\<close> show "(xs @ [0], xs) \<in> measure (\<lambda>xs. (4 - length xs mod 4) mod 4)"
    by auto
qed

declare pad4.simps [simp del]

definition build_mode6_response ::
    "u8 list \<Rightarrow> u8 \<Rightarrow> discipline_params \<Rightarrow> servo_stats \<Rightarrow> u8 list" where
  "build_mode6_response req version dp stats =
     (let vn = reply_version version;
          opcode = req ! 1 AND 0x1f;
          associd = from_be16 (req ! 6) (req ! 7);
          r = mode6_payload opcode associd dp stats;
          payload = (case r of Inl _ \<Rightarrow> [] | Inr bs \<Rightarrow> bs);
          error_bit = (case r of Inl _ \<Rightarrow> MODE6_ERROR_BIT | Inr _ \<Rightarrow> 0);
          resp = replicate NTP_CONTROL_HEADER_LEN 0;
          resp = resp[0 := push_bit 3 vn OR MODE_CONTROL];
          resp = resp[1 := MODE6_RESPONSE_BIT OR error_bit OR opcode];
          resp = resp[2 := req ! 2];
          resp = resp[3 := req ! 3];
          resp = set_bytes 4 (be16 (mode6_status opcode associd dp r)) resp;
          resp = set_bytes 6 (be16 associd) resp;
          resp = set_bytes 8 (be16 0) resp;
          count = min (length payload) 65535;
          resp = set_bytes 10 (be16 (of_nat count)) resp
      in if 0 < count then pad4 (resp @ take count payload) else resp)"

section \<open>Reading packets back\<close>

lemma length_set_bytes [simp]: "i + length bs \<le> length xs \<Longrightarrow> length (set_bytes i bs xs) = length xs"
  by (simp add: set_bytes_def)

lemma length_str_bytes [simp]: "length (str_bytes s) = length s"
  by (simp add: str_bytes_def)

lemma length_get_bytes [simp]: "i \<le> j \<Longrightarrow> j \<le> length xs \<Longrightarrow> length (get_bytes i j xs) = j - i"
  by (simp add: get_bytes_def)

lemma nth_set_bytes:
  assumes "n < length xs" "i + length bs \<le> length xs"
  shows "set_bytes i bs xs ! n = (if i \<le> n \<and> n < i + length bs then bs ! (n - i) else xs ! n)"
  using assms by (auto simp: set_bytes_def nth_append min_def)

lemma get_bytes_nth: "j \<le> length xs \<Longrightarrow> get_bytes i j xs = map (\<lambda>n. xs ! n) [i..<j]"
  by (intro nth_equalityI) (auto simp: get_bytes_def)

lemma get_set_same:
  assumes "i + length bs \<le> length xs" "j = i + length bs"
  shows "get_bytes i j (set_bytes i bs xs) = bs"
  using assms by (simp add: get_bytes_def set_bytes_def)

lemma get_set_other:
  assumes "k + length bs \<le> length xs" "j \<le> length xs" "j \<le> k \<or> k + length bs \<le> i"
  shows "get_bytes i j (set_bytes k bs xs) = get_bytes i j xs"
  using assms by (auto simp: get_bytes_nth nth_set_bytes)

text \<open>The fields of a time packet, as a client reads them.\<close>

definition pkt_leap :: "u8 list \<Rightarrow> u8" where "pkt_leap p = drop_bit 6 (p ! 0)"
definition pkt_version :: "u8 list \<Rightarrow> u8" where "pkt_version p = drop_bit 3 (p ! 0) AND 7"
definition pkt_mode :: "u8 list \<Rightarrow> u8" where "pkt_mode p = p ! 0 AND 7"

lemma header_byte:
  assumes "l \<le> 3" "v \<le> (4 :: u8)"
  shows "drop_bit 6 (push_bit 6 l OR push_bit 3 v OR (m AND 7)) = (l :: u8)"
    "drop_bit 3 (push_bit 6 l OR push_bit 3 v OR (m AND 7)) AND 7 = v"
    "(push_bit 6 l OR push_bit 3 v OR (m AND 7)) AND 7 = m AND 7"
proof -
  have 7: "(7 :: u8) = mask 3" by (simp add: mask_eq_exp_minus_1)
  have bl: "bit l n \<Longrightarrow> n < 2" for n using assms(1) by (auto simp: word_le_nat_alt dest: word_bit_bound[of l n 2])
  have bv: "bit v n \<Longrightarrow> n < 3" for n using assms(2) by (auto simp: word_le_nat_alt dest: word_bit_bound[of v n 3])
  show "drop_bit 6 (push_bit 6 l OR push_bit 3 v OR (m AND 7)) = l"
    unfolding 7 by (rule bit_word_eqI) (auto simp: bit_simps dest: bl bv)
  show "drop_bit 3 (push_bit 6 l OR push_bit 3 v OR (m AND 7)) AND 7 = v"
    unfolding 7 by (rule bit_word_eqI) (auto simp: bit_simps dest: bl bv)
  show "(push_bit 6 l OR push_bit 3 v OR (m AND 7)) AND 7 = m AND 7"
    unfolding 7 by (rule bit_word_eqI) (auto simp: bit_simps dest: bl bv)
qed


lemma reply_version_range: "1 \<le> reply_version v \<and> reply_version v \<le> 4"
  by (simp add: reply_version_def)

lemma list_update_get [simp]: "k < i \<or> j \<le> k \<Longrightarrow> j \<le> length xs \<Longrightarrow> get_bytes i j (xs[k := v]) = get_bytes i j xs"
  by (auto simp: get_bytes_nth)

lemmas wire_simps = nth_set_bytes get_set_same get_set_other packet_consts

text \<open>The time response a client reads: leap, mirrored version and reply mode; stratum 0 with
  reference id INIT and no reference time unless the server is at stratum 1; the request's poll
  value; root delay 0 and the root dispersion; the client's transmit time as originate time; and
  the receive time.\<close>

theorem response_fields:
  assumes "length req = 48" "dp_leap dp \<le> 3" "dp_stratum dp = 1 \<or> dp_stratum dp = 16"
  shows "let p = build_response req dp receive_ts mode; sync = (dp_stratum dp = 1) in
    length p = 48 \<and> pkt_leap p = dp_leap dp \<and>
    pkt_version p = reply_version (pkt_version req) \<and> pkt_mode p = mode AND 7 \<and>
    p ! 1 = (if sync then 1 else 0) \<and> p ! 2 = req ! 2 \<and> p ! 3 = of_int (dp_precision dp) \<and>
    get_bytes 4 8 p = be32 0 \<and> get_bytes 8 12 p = be32 (dp_root_disp_short dp) \<and>
    get_bytes 12 16 p = str_bytes (if sync then ''GPS'' @ [CHR 0x00] else ''INIT'') \<and>
    from_be64 (get_bytes 16 24 p) = Some (if sync then dp_ref_ts dp else 0) \<and>
    get_bytes 24 32 p = get_bytes 40 48 req \<and>
    from_be64 (get_bytes 32 40 p) = Some receive_ts"
proof -
  note r = build_response_def Let_def pkt_version_def[symmetric]
  note h = header_byte[OF assms(2), of "reply_version (pkt_version req)" mode]
  have v: "reply_version (pkt_version req) \<le> 4" using reply_version_range by blast
  have p0: "build_response req dp receive_ts mode ! 0
      = push_bit 6 (dp_leap dp) OR push_bit 3 (reply_version (pkt_version req)) OR (mode AND 7)"
    unfolding r by (simp add: wire_simps assms(1))
  have "length (build_response req dp receive_ts mode) = 48"
    unfolding r by (simp add: wire_simps assms(1))
  moreover have "build_response req dp receive_ts mode ! 1 = (if dp_stratum dp = 1 then 1 else 0)"
    unfolding r using assms(3) by (auto simp: wire_simps assms(1) STRATUM_UNSYNC_def word_le_nat_alt)
  moreover have "build_response req dp receive_ts mode ! 2 = req ! 2"
    "build_response req dp receive_ts mode ! 3 = of_int (dp_precision dp)"
    "get_bytes 4 8 (build_response req dp receive_ts mode) = be32 0"
    "get_bytes 8 12 (build_response req dp receive_ts mode) = be32 (dp_root_disp_short dp)"
    unfolding r by (simp_all add: wire_simps assms(1))
  moreover have "get_bytes 12 16 (build_response req dp receive_ts mode)
      = str_bytes (if dp_stratum dp = 1 then ''GPS'' @ [CHR 0x00] else ''INIT'')"
    "get_bytes 16 24 (build_response req dp receive_ts mode)
      = be64 (if dp_stratum dp = 1 then dp_ref_ts dp else 0)"
    "get_bytes 24 32 (build_response req dp receive_ts mode) = get_bytes 40 48 req"
    "get_bytes 32 40 (build_response req dp receive_ts mode) = be64 receive_ts"
    unfolding r by (simp_all add: wire_simps assms(1))
  ultimately show ?thesis
    unfolding Let_def pkt_leap_def pkt_mode_def pkt_version_def[of "build_response req dp receive_ts mode"] p0
    using h[OF v] by simp
qed

text \<open>A Kiss-o'-Death answers in the request's version with leap 3, stratum 0, kiss code RATE and
  the client's transmit time as originate time; every other byte is zero.\<close>

theorem kod_fields:
  assumes "length req = 48"
  shows "let p = build_kod_response req version mode in
    length p = 48 \<and> pkt_leap p = 3 \<and> pkt_version p = reply_version version \<and> pkt_mode p = mode AND 7 \<and>
    p ! 1 = 0 \<and> get_bytes 12 16 p = str_bytes ''RATE'' \<and>
    get_bytes 24 32 p = get_bytes 40 48 req \<and>
    (list_all (\<lambda>n. p ! n = 0) ([2..<12] @ [16..<24] @ [32..<48]))"
proof -
  note r = build_kod_response_def Let_def KOD_KISS_RATE_def
  have v: "reply_version version \<le> 4" using reply_version_range by blast
  have p0: "build_kod_response req version mode ! 0
      = push_bit 6 3 OR push_bit 3 (reply_version version) OR (mode AND 7)"
    unfolding r by (simp add: wire_simps assms(1))
  have "length (build_kod_response req version mode) = 48"
    "build_kod_response req version mode ! 1 = 0"
    "get_bytes 12 16 (build_kod_response req version mode) = str_bytes ''RATE''"
    "get_bytes 24 32 (build_kod_response req version mode) = get_bytes 40 48 req"
    unfolding r by (simp_all add: wire_simps assms(1))
  moreover have "list_all (\<lambda>n. build_kod_response req version mode ! n = 0) ([2..<12] @ [16..<24] @ [32..<48])"
    unfolding r list_all_iff by (auto simp: wire_simps assms(1) nth_list_update)
  ultimately show ?thesis
    unfolding Let_def pkt_leap_def pkt_mode_def pkt_version_def p0
    using header_byte[of 3 "reply_version version" mode] v by simp
qed

lemma sample_req: "length (replicate 40 0 @ be64 0xE9D1E7B48A3D71A0) = 48" by simp

theorem response_fields_witness:
  "pkt_mode (build_response (replicate 40 0 @ be64 0xE9D1E7B48A3D71A0)
      (discipline_params id True 0 0 None from_socket) 5 MODE_SERVER) = 4 \<and>
   from_be64 (get_bytes 24 32 (build_response (replicate 40 0 @ be64 0xE9D1E7B48A3D71A0)
      (discipline_params id True 0 0 None from_socket) 5 MODE_SERVER)) = Some 0xE9D1E7B48A3D71A0"
proof -
  have n: "\<not> pps_locked from_socket" by (simp add: from_socket_def)
  have "get_bytes 40 48 (replicate 40 0 @ be64 x) = be64 x" for x by (simp add: get_bytes_def)
  then show ?thesis
    using response_fields[OF sample_req, of "discipline_params id True 0 0 None from_socket" 5 MODE_SERVER]
      never_locked_unsync[OF from_socket_inv n, of id True 0 0 None]
    by (simp add: Let_def MODE_SERVER_def)
qed

theorem kod_fields_witness:
  "pkt_leap (build_kod_response (replicate 40 0 @ be64 0xE9D1E7B48A3D71A0) 4 MODE_SERVER) = 3 \<and>
   pkt_version (build_kod_response (replicate 40 0 @ be64 0xE9D1E7B48A3D71A0) 4 MODE_SERVER) = 4"
  using kod_fields[OF sample_req, of 4 MODE_SERVER] by (simp add: Let_def reply_version_def)


section \<open>Control responses\<close>

lemma pad4_eq: "\<exists>n<4. pad4 xs = xs @ replicate n 0 \<and> length (pad4 xs) = 4 * ((length xs + 3) div 4)"
proof (induction xs rule: pad4.induct)
  case (1 xs)
  show ?case
  proof (cases "4 dvd length xs")
    case True
    then show ?thesis by (auto simp: pad4.simps[of xs] intro!: exI[of _ 0])
  next
    case False
    from 1[OF False] obtain n where n: "n < 4" "pad4 (xs @ [0]) = xs @ 0 # replicate n 0"
      "length (pad4 (xs @ [0])) = 4 * ((length xs + 4) div 4)" by auto
    have "(length xs + 4) div 4 = (length xs + 3) div 4" using False by presburger
    moreover have "length xs + Suc n = 4 * ((length xs + 4) div 4)" using n(2,3) by simp
    then have "Suc n < 4" using False by presburger
    ultimately show ?thesis using n False by (intro exI[of _ "Suc n"]) (simp add: pad4.simps[of xs])
  qed
qed

definition mode6_op :: "u8 list \<Rightarrow> u8" where "mode6_op p = p ! 1 AND 0x1f"
definition mode6_assoc :: "u8 list \<Rightarrow> u16" where "mode6_assoc p = from_be16 (p ! 6) (p ! 7)"
definition mode6_count :: "u8 list \<Rightarrow> nat" where "mode6_count p = unat (from_be16 (p ! 10) (p ! 11))"

text \<open>The header bytes of a response, for a payload or an error \<open>r\<close>.\<close>

definition mode6_header :: "u8 list \<Rightarrow> u8 \<Rightarrow> discipline_params \<Rightarrow> servo_stats \<Rightarrow> u8 list" where
  "mode6_header req version dp stats =
     (let r = mode6_payload (mode6_op req) (mode6_assoc req) dp stats
      in [push_bit 3 (reply_version version) OR MODE_CONTROL,
          MODE6_RESPONSE_BIT OR (case r of Inl _ \<Rightarrow> MODE6_ERROR_BIT | Inr _ \<Rightarrow> 0) OR mode6_op req,
          req ! 2, req ! 3] @ be16 (mode6_status (mode6_op req) (mode6_assoc req) dp r) @
         be16 (mode6_assoc req) @ be16 0 @
         be16 (of_nat (min (length (case r of Inl _ \<Rightarrow> [] | Inr bs \<Rightarrow> bs)) 65535)))"

lemma length_mode6_header [simp]: "length (mode6_header req version dp stats) = 12"
  by (simp add: mode6_header_def Let_def)

lemma be16_nth: "be16 w = [be16 w ! 0, be16 w ! 1]"
  by (simp add: be16_def)

lemma set_bytes_be16:
  "set_bytes 4 (be16 w) [a0, a1, a2, a3, a4, a5, a6, a7, a8, a9, a10, a11]
     = [a0, a1, a2, a3] @ be16 w @ [a6, a7, a8, a9, a10, a11]"
  "set_bytes 6 (be16 w) [a0, a1, a2, a3, a4, a5, a6, a7, a8, a9, a10, a11]
     = [a0, a1, a2, a3, a4, a5] @ be16 w @ [a8, a9, a10, a11]"
  "set_bytes 8 (be16 w) [a0, a1, a2, a3, a4, a5, a6, a7, a8, a9, a10, a11]
     = [a0, a1, a2, a3, a4, a5, a6, a7] @ be16 w @ [a10, a11]"
  "set_bytes 10 (be16 w) [a0, a1, a2, a3, a4, a5, a6, a7, a8, a9, a10, a11]
     = [a0, a1, a2, a3, a4, a5, a6, a7, a8, a9] @ be16 w"
  by (simp_all add: set_bytes_def)

lemma mode6_response_eq:
  "build_mode6_response req version dp stats =
     (let r = mode6_payload (mode6_op req) (mode6_assoc req) dp stats;
          payload = (case r of Inl _ \<Rightarrow> [] | Inr bs \<Rightarrow> bs);
          count = min (length payload) 65535
      in if 0 < count then pad4 (mode6_header req version dp stats @ take count payload)
         else mode6_header req version dp stats)"
proof -
  have r: "replicate NTP_CONTROL_HEADER_LEN (0 :: u8) = [0,0,0,0,0,0,0,0,0,0,0,0]"
    by (simp add: packet_consts numeral_eq_Suc)
  show ?thesis
    unfolding build_mode6_response_def mode6_header_def Let_def r mode6_op_def[symmetric]
      mode6_assoc_def[symmetric]
    by (simp add: be16_def set_bytes_def)
qed

lemma mode6_split:
  obtains tl where "build_mode6_response req version dp stats = mode6_header req version dp stats @ tl"
    "4 dvd length tl"
    "tl = [] \<longleftrightarrow> (case mode6_payload (mode6_op req) (mode6_assoc req) dp stats of Inl _ \<Rightarrow> True | Inr bs \<Rightarrow> bs = [])"
    "\<And>bs. mode6_payload (mode6_op req) (mode6_assoc req) dp stats = Inr bs \<Longrightarrow>
       length bs \<le> 65535 \<Longrightarrow> take (length bs) tl = bs \<and> length tl = 4 * ((length bs + 3) div 4)"
proof -
  let ?r = "mode6_payload (mode6_op req) (mode6_assoc req) dp stats"
  let ?p = "case ?r of Inl _ \<Rightarrow> [] | Inr bs \<Rightarrow> bs"
  let ?c = "min (length ?p) 65535"
  let ?h = "mode6_header req version dp stats"
  obtain n where n: "n < 4" "pad4 (?h @ take ?c ?p) = (?h @ take ?c ?p) @ replicate n 0"
    "length (pad4 (?h @ take ?c ?p)) = 4 * ((length (?h @ take ?c ?p) + 3) div 4)"
    using pad4_eq by blast
  define tl where "tl = (if 0 < ?c then take ?c ?p @ replicate n 0 else [])"
  have e: "build_mode6_response req version dp stats = ?h @ tl"
    using n(2) by (simp add: mode6_response_eq Let_def tl_def)
  have l: "length tl = 4 * ((?c + 3) div 4)"
  proof (cases "0 < ?c")
    case True
    have "12 + ?c + n = 4 * ((12 + ?c + 3) div 4)" using n(2,3) by simp
    also have "4 * ((12 + c + 3) div 4) = 12 + 4 * ((c + 3) div 4)" for c :: nat by presburger
    finally show ?thesis using True by (simp add: tl_def)
  qed (simp add: tl_def)
  show thesis
  proof (rule that[OF e])
    show "4 dvd length tl" using l by simp
    show "tl = [] \<longleftrightarrow> (case ?r of Inl _ \<Rightarrow> True | Inr bs \<Rightarrow> bs = [])"
      by (auto simp: tl_def split: sum.splits)
    show "take (length bs) tl = bs \<and> length tl = 4 * ((length bs + 3) div 4)"
      if "?r = Inr bs" "length bs \<le> 65535" for bs
      using that l by (auto simp: tl_def)
  qed
qed


definition mode6_refused :: "u8 list \<Rightarrow> bool" where
  "mode6_refused req \<longleftrightarrow> mode6_op req \<noteq> 1 \<and> mode6_op req \<noteq> 2 \<or>
     mode6_assoc req \<noteq> 0 \<and> mode6_assoc req \<noteq> 1"

lemma mode6_payload_cases:
  "mode6_payload (mode6_op req) (mode6_assoc req) dp stats =
     (if mode6_op req \<noteq> 1 \<and> mode6_op req \<noteq> 2 then Inl 3
      else if mode6_assoc req \<noteq> 0 \<and> mode6_assoc req \<noteq> 1 then Inl 4
      else if mode6_op req = 2
        then Inr (str_bytes (if mode6_assoc req = 0 then system_vars dp stats else peer_vars dp stats))
      else Inr (if mode6_assoc req = 0 then be16 1 @ be16 (peer_status dp) else []))"
  by (auto simp: mode6_payload_def mode6_consts)

text \<open>Every answer to a control request is a well-formed mode-6 response: no leap, mirrored
  version, mode 6, response bit set, opcode, sequence and association echoed, offset 0, total length
  a multiple of four. The error bit is set exactly for an unknown opcode or association; then the
  packet is the bare header with count 0 and the RFC 1305 code, opcode errors before association
  errors.\<close>

theorem mode6_framing:
  assumes "NTP_CONTROL_HEADER_LEN \<le> length req"
  shows "let r = build_mode6_response req version dp stats in
    pkt_leap r = 0 \<and> pkt_version r = reply_version version \<and> pkt_mode r = MODE_CONTROL \<and>
    bit (r ! 1) 7 \<and> mode6_op r = mode6_op req \<and> r ! 2 = req ! 2 \<and> r ! 3 = req ! 3 \<and>
    mode6_assoc r = mode6_assoc req \<and> get_bytes 8 10 r = [0, 0] \<and> 4 dvd length r \<and>
    (bit (r ! 1) 6 \<longleftrightarrow> mode6_refused req) \<and>
    (if mode6_refused req
     then length r = 12 \<and> mode6_count r = 0 \<and> get_bytes 4 6 r =
       [if mode6_op req \<noteq> 1 \<and> mode6_op req \<noteq> 2 then 3 else 4, 0]
     else 12 \<le> length r)"
proof -
  let ?R = "build_mode6_response req version dp stats"
  let ?p = "mode6_payload (mode6_op req) (mode6_assoc req) dp stats"
  let ?h = "mode6_header req version dp stats"
  obtain tl where tl: "?R = ?h @ tl" "4 dvd length tl"
    "tl = [] \<longleftrightarrow> (case ?p of Inl _ \<Rightarrow> True | Inr bs \<Rightarrow> bs = [])"
    by (rule mode6_split[of req version dp stats]) blast
  have nth: "?R ! n = ?h ! n" if "n < 12" for n using that tl(1) by (simp add: nth_append)
  have v: "reply_version version \<le> 4" using reply_version_range by blast
  have r0: "?R ! 0 = push_bit 6 0 OR push_bit 3 (reply_version version) OR (6 AND 7)"
    using nth[of 0] by (simp add: mode6_header_def Let_def MODE_CONTROL_def)
  define e :: u8 where "e = (case ?p of Inl _ \<Rightarrow> 0x40 | Inr _ \<Rightarrow> 0)"
  have r1: "?R ! 1 = 0x80 OR e OR (req ! 1 AND 0x1f)"
    using nth[of 1] by (simp add: mode6_header_def Let_def mode6_consts mode6_op_def e_def split: sum.split)
  have e: "e = (if mode6_refused req then 0x40 else 0)"
    by (simp add: e_def mode6_payload_cases mode6_refused_def)
  have op: "mode6_op ?R = mode6_op req"
    unfolding mode6_op_def r1 e by (simp add: bit.conj_disj_distrib2 and.assoc)
  have bits: "bit (?R ! 1) 7" "bit (?R ! 1) 6 \<longleftrightarrow> mode6_refused req"
    unfolding r1 e by (simp_all add: bit_or_iff bit_and_iff)
  have h: "?R ! 2 = req ! 2" "?R ! 3 = req ! 3" "?R ! 6 = be16 (mode6_assoc req) ! 0"
    "?R ! 7 = be16 (mode6_assoc req) ! 1" "?R ! 8 = 0" "?R ! 9 = 0"
    "?R ! 4 = be16 (mode6_status (mode6_op req) (mode6_assoc req) dp ?p) ! 0"
    "?R ! 5 = be16 (mode6_status (mode6_op req) (mode6_assoc req) dp ?p) ! 1"
    using nth[of 2] nth[of 3] nth[of 4] nth[of 5] nth[of 6] nth[of 7] nth[of 8] nth[of 9]
    by (simp_all add: mode6_header_def Let_def nth_append be16_def)
  have assoc: "mode6_assoc ?R = mode6_assoc req"
    unfolding mode6_assoc_def[of ?R] h by (simp add: be16_def from_be16_inverse)
  have len: "length ?R = 12 + length tl" using tl(1) by simp
  have g: "get_bytes 8 10 ?R = [0, 0]" "get_bytes 4 6 ?R = [?R ! 4, ?R ! 5]"
    using len h(5,6) by (simp_all add: get_bytes_nth upt_rec)
  have err: "length ?R = 12 \<and> mode6_count ?R = 0 \<and> get_bytes 4 6 ?R =
       [if mode6_op req \<noteq> 1 \<and> mode6_op req \<noteq> 2 then 3 else 4, 0]" if "mode6_refused req"
  proof -
    have "\<exists>c. ?p = Inl c \<and> c = (if mode6_op req \<noteq> 1 \<and> mode6_op req \<noteq> 2 then 3 else 4)"
      using that by (auto simp: mode6_payload_cases mode6_refused_def)
    then obtain c where c: "?p = Inl c" "c = (if mode6_op req \<noteq> 1 \<and> mode6_op req \<noteq> 2 then 3 else 4)"
      by blast
    have "tl = []" using tl(3) c by simp
    moreover have "?R ! 10 = 0" "?R ! 11 = 0"
      using nth[of 10] nth[of 11] by (simp_all add: mode6_header_def Let_def nth_append be16_def c(1))
    ultimately show ?thesis
      using len g(2) h(7,8) c by (simp add: mode6_count_def mode6_status_def be16_def from_be16_def)
  qed
  have "4 dvd length ?R" using len tl(2) by simp
  then show ?thesis
    unfolding Let_def pkt_leap_def pkt_version_def pkt_mode_def r0
    using header_byte[OF _ v, of 0 6] op bits h(1,2) assoc g(1) err len by (simp add: MODE_CONTROL_def)
qed

theorem mode6_framing_witness:
  "length (build_mode6_response [0x16, 5, 0, 7, 0, 0, 0, 0, 0, 0, 0, 0] 2
      (discipline_params id True 0 0 None from_socket) (get_servo_stats from_socket)) = 12 \<and>
   get_bytes 4 6 (build_mode6_response [0x16, 5, 0, 7, 0, 0, 0, 0, 0, 0, 0, 0] 2
      (discipline_params id True 0 0 None from_socket) (get_servo_stats from_socket)) = [3, 0]"
  using mode6_framing[of "[0x16, 5, 0, 7, 0, 0, 0, 0, 0, 0, 0, 0]" 2
      "discipline_params id True 0 0 None from_socket" "get_servo_stats from_socket"]
  by (simp add: Let_def packet_consts mode6_refused_def mode6_op_def)

section \<open>The text of a READVAR answer\<close>

lemma length_dec_digits: "0 < k \<Longrightarrow> n < 10 ^ k \<Longrightarrow> length (dec_digits n) \<le> k"
proof (induction n arbitrary: k rule: dec_digits.induct)
  case (1 n)
  show ?case
  proof (cases "n < 10")
    case True with 1 show ?thesis by (simp add: dec_digits.simps[of n])
  next
    case False
    obtain j where j: "k = Suc j" using 1(2) by (cases k) auto
    have "0 < j" using False 1(3) j by (cases j) auto
    moreover have "n div 10 < 10 ^ j" using 1(3) j by (simp add: less_mult_imp_div_less mult.commute)
    ultimately show ?thesis using 1(1)[OF False] j False by (simp add: dec_digits.simps[of n])
  qed
qed

text \<open>Values whose text stays short.\<close>

definition tame :: "fp \<Rightarrow> bool" where
  "tame a \<longleftrightarrow> is_fin a \<and> \<bar>fval a\<bar> \<le> 2 ^ 64"

lemma length_fmt3:
  assumes "tame a"
  shows "length (fmt3 a) \<le> 26"
proof -
  let ?n = "nat (rne (\<bar>fval a\<bar> * 1000))"
  have "\<bar>fval a\<bar> * 1000 \<le> of_int (2 ^ 64 * 1000)" using assms by (simp add: tame_def)
  then have "rne (\<bar>fval a\<bar> * 1000) \<le> 2 ^ 64 * 1000" by (rule rne_le_of_int)
  then have "?n < 10 ^ 20 * 1000" by (simp add: nat_less_iff)
  then have "?n div 1000 < 10 ^ 20" by (simp add: less_mult_imp_div_less)
  then have "length (dec_digits (?n div 1000)) \<le> 20" by (intro length_dec_digits) auto
  moreover have "length (dec_digits (?n mod 1000)) \<le> 3" by (intro length_dec_digits) auto
  ultimately show ?thesis using assms by (cases a) (auto simp: fmt3_def tame_def Let_def zero_pad_def)
qed

lemma tame_simps:
  "tame (Num 0)" "\<bar>n\<bar> \<le> 2 ^ 63 \<Longrightarrow> F = F64 \<or> F = F32 \<Longrightarrow> tame (fint F n)"
proof -
  show "tame (Num 0)" by (simp add: tame_def)
  assume n: "\<bar>n\<bar> \<le> 2 ^ 63" and F: "F = F64 \<or> F = F32"
  have "\<bar>of_int n :: rat\<bar> \<le> of_int (2 ^ 63)" using n by (simp only: of_int_abs[symmetric] of_int_le_iff)
  then have m: "\<bar>of_int n :: rat\<bar> \<le> 2 powi 64" by simp
  have "\<bar>rnd F (of_int n)\<bar> \<le> 2 powi 64" using F r64.abs_le_pow[OF m] r32.abs_le_pow[OF m] by auto
  moreover have "\<bar>n\<bar> \<le> 2 ^ 64" using n by auto
  ultimately show "tame (fint F n)" using fin_fint[of n F] F by (simp add: tame_def)
qed

lemma tame_pow: "\<bar>x\<bar> \<le> 2 ^ 64 \<Longrightarrow> \<bar>x\<bar> \<le> (2 :: rat) powi 64" "\<bar>x\<bar> \<le> 2 ^ 64 \<Longrightarrow> \<bar>x\<bar> \<le> (2 :: rat) powi 100"
  by simp_all

lemma tame_us_to_ms: "tame a \<Longrightarrow> tame (us_to_ms a)"
proof -
  assume a: "tame a"
  have l: "flit F64 1000 = Num 1000" by (simp add: lit64_numeral)
  have q: "\<bar>fval a / 1000\<bar> \<le> 2 ^ 64" using a by (simp add: tame_def)
  show ?thesis
    using fin_div[of a "Num 1000" F64] below_top64[OF tame_pow(2)[OF q]] r64.abs_le_pow[OF tame_pow(1)[OF q]] a
    by (simp add: us_to_ms_def l tame_def)
qed

lemma tame_fconv: "tame a \<Longrightarrow> tame (fconv F64 a)"
proof -
  assume a: "tame a"
  then have q: "\<bar>fval a\<bar> \<le> 2 ^ 64" by (simp add: tame_def)
  show ?thesis
    using a fin_pack[OF below_top64[OF tame_pow(2)[OF q]]] r64.abs_le_pow[OF tame_pow(1)[OF q]]
    by (cases a) (simp_all add: fconv_def tame_def)
qed

lemma tame_fmax: "tame a \<Longrightarrow> tame b \<Longrightarrow> tame (fmax a b)"
  by (simp add: tame_def fin_max max_def)

lemma tame_one: "tame (flit F32 1)"
proof -
  have "flit F32 1 = fint F32 1" by (simp add: flit_def fint_def)
  then show ?thesis using tame_simps(2)[of 1 F32] by simp
qed

lemma tame_fabs: "tame a \<Longrightarrow> tame (fabs a)"
  by (simp add: tame_def fabs_def)

lemma disp_us_range: "in_i64 (disp_us gps now s)"
  unfolding disp_us_def Let_def
  by (auto simp: min_def MAX_DISP_US_def intro: wrap_i64_range) (simp_all add: small_i64)

lemma tame_root_disp: "tame (dp_root_disp_ms (discipline_params log2 gps now cur wall s))"
proof -
  have "\<bar>disp_us gps now s\<bar> \<le> 2 ^ 63"
    using disp_us_range[of gps now s] by (auto simp: in_i64_def i64_min_def i64_max_def)
  then show ?thesis
    using tame_us_to_ms[OF tame_simps(2), of "disp_us gps now s" F64]
    by (simp add: discipline_params_def Let_def us_to_ms_def)
qed

lemma length_precision:
  "length (fmt_int (dp_precision (discipline_params log2 gps now cur wall s))) \<le> 4"
proof -
  have "- 128 \<le> ntp_precision_from_uncertainty_us log2 u \<and> ntp_precision_from_uncertainty_us log2 u \<le> 127" for u
    unfolding ntp_precision_from_uncertainty_us_def Let_def by (rule fcast_range) simp_all
  then have p: "- 128 \<le> discipline_precision log2 gps now s" "discipline_precision log2 gps now s \<le> 127"
    unfolding discipline_precision_def Let_def by auto
  have "length (dec_digits (nat (discipline_precision log2 gps now s))) \<le> 3"
    "length (dec_digits (nat (- discipline_precision log2 gps now s))) \<le> 3"
    using p by (auto intro!: length_dec_digits simp: nat_less_iff)
  then show ?thesis by (simp add: discipline_params_def Let_def fmt_int_def)
qed

lemma length_texts [simp]: "length (ntp_ts_to_mode6 ts) = 19" "length (leap_text l) = 2"
  by (simp_all add: ntp_ts_to_mode6_def leap_text_def Let_def)

lemma length_byte: "length (dec_digits (unat (w :: u8))) \<le> 3"
  using unsigned_less[of w, where ?'a = nat] by (intro length_dec_digits) simp_all

lemma vars_short:
  assumes "server_inv s" and dp: "dp = discipline_params log2 gps now cur wall s"
  shows "length (system_vars dp (get_servo_stats s)) \<le> 600"
    "length (peer_vars dp (get_servo_stats s)) \<le> 600"
proof -
  let ?st = "get_servo_stats s"
  have o: "length (fmt3 (us_to_ms (fint F64 (ss_pps_offset_us ?st)))) \<le> 26"
    using assms(1) by (intro length_fmt3 tame_us_to_ms tame_simps) (auto simp: server_inv_def get_servo_stats_def)
  have t: "tame (ss_pps_jitter_us ?st)" "tame (ss_proc_delay_us ?st)" "tame (ss_freq_ppm ?st)"
    using assms(1) by (auto simp: server_inv_def get_servo_stats_def tame_def good_mag_def good_freq_def)
  have j: "length (fmt3 (us_to_ms (fconv F64 (fmax (ss_pps_jitter_us ?st) (flit F32 1))))) \<le> 26"
    "length (fmt3 (us_to_ms (fconv F64 (fmax (ss_proc_delay_us ?st) (flit F32 1))))) \<le> 26"
    "length (fmt3 (ss_freq_ppm ?st)) \<le> 26" "length (fmt3 (fabs (ss_freq_ppm ?st))) \<le> 26"
    "length (fmt3 (dp_root_disp_ms dp)) \<le> 26" "length (fmt3 (Num 0)) \<le> 26"
    by (intro length_fmt3 tame_us_to_ms tame_fconv tame_fmax tame_one tame_fabs t tame_simps
        | simp add: dp tame_root_disp)+
  note p = length_precision[of log2 gps now cur wall s, folded dp] length_byte[of "dp_stratum dp"]
  show "length (system_vars dp ?st) \<le> 600" "length (peer_vars dp ?st) \<le> 600"
    using o j p length_byte[of 1] by (auto simp: system_vars_def peer_vars_def Let_def)
qed

text \<open>A READVAR answer carries the whole variable text, never truncated: the count field is its
  length, the bytes after the header are the text, and the packet is at most 612 bytes. For a
  synchronised server the system text starts with its stratum, otherwise with stratum 16 and the
  alarm leap bits.\<close>

theorem mode6_readvar:
  assumes "server_inv s" "dp = discipline_params log2 gps now cur wall s"
    and "mode6_op req = 2" "mode6_assoc req = 0 \<or> mode6_assoc req = 1"
    and "text = (if mode6_assoc req = 0 then system_vars dp (get_servo_stats s)
                 else peer_vars dp (get_servo_stats s))"
  shows "let r = build_mode6_response req version dp (get_servo_stats s) in
    mode6_count r = length text \<and> take (mode6_count r) (drop 12 r) = str_bytes text \<and>
    length r \<le> 612 \<and>
    (mode6_assoc req = 0 \<longrightarrow>
       prefix (if dp_stratum dp = 1 then ''stratum=1,leap='' else ''stratum=16,leap=11,'') text)"
proof -
  let ?R = "build_mode6_response req version dp (get_servo_stats s)"
  let ?h = "mode6_header req version dp (get_servo_stats s)"
  have l: "length text \<le> 600" using vars_short[OF assms(1,2)] assms(5) by simp
  have p: "mode6_payload (mode6_op req) (mode6_assoc req) dp (get_servo_stats s) = Inr (str_bytes text)"
    using assms(3-5) by (auto simp: mode6_payload_def mode6_consts)
  obtain tl where t: "?R = ?h @ tl"
    "\<And>bs. mode6_payload (mode6_op req) (mode6_assoc req) dp (get_servo_stats s) = Inr bs \<Longrightarrow>
       length bs \<le> 65535 \<Longrightarrow> take (length bs) tl = bs \<and> length tl = 4 * ((length bs + 3) div 4)"
    by (rule mode6_split[of req version dp "get_servo_stats s"]) blast
  have tl: "?R = ?h @ tl" "take (length text) tl = str_bytes text"
    "length tl = 4 * ((length text + 3) div 4)"
    using t(1) t(2)[OF p] l by simp_all
  have "?R ! 10 = be16 (of_nat (length text)) ! 0" "?R ! 11 = be16 (of_nat (length text)) ! 1"
    using l by (simp_all add: tl(1) nth_append mode6_header_def Let_def p be16_def)
  then have c: "mode6_count ?R = length text"
    using l by (simp add: mode6_count_def be16_def from_be16_inverse unat_of_nat)
  have d: "dec_digits (Suc 0) = ''1''" by code_simp
  have "mode6_assoc req = 0 \<longrightarrow>
       prefix (if dp_stratum dp = 1 then ''stratum=1,leap='' else ''stratum=16,leap=11,'') text"
    using assms(5) by (auto simp: system_vars_def Let_def d)
  moreover have "length ?R \<le> 612" using l tl(3) by (simp add: tl(1))
  ultimately show ?thesis unfolding Let_def c using tl by simp
qed

theorem mode6_readvar_witness:
  "mode6_count (build_mode6_response [0x16, 2, 0, 7, 0, 0, 0, 0, 0, 0, 0, 0] 2
      (discipline_params id True 0 0 None from_socket) (get_servo_stats from_socket))
    = length (system_vars (discipline_params id True 0 0 None from_socket) (get_servo_stats from_socket))"
  using mode6_readvar[OF from_socket_inv refl, of "[0x16, 2, 0, 7, 0, 0, 0, 0, 0, 0, 0, 0]" _ id True 0 0 None 2]
  by (simp add: Let_def mode6_op_def mode6_assoc_def from_be16_def)

text \<open>The mode-6 timestamp text is the two hexadecimal halves: parsing them gives the timestamp
  back.\<close>

theorem mode6_timestamp_roundtrip:
  "length (ntp_ts_to_mode6 ts) = 19 \<and>
   parse_uint 16 0xFFFFFFFF (take 8 (drop 2 (ntp_ts_to_mode6 ts))) = Some (unat ts div 2 ^ 32) \<and>
   parse_uint 16 0xFFFFFFFF (drop 11 (ntp_ts_to_mode6 ts)) = Some (unat ts mod 2 ^ 32)"
proof -
  have hexc: "hex_char (n mod 16) \<noteq> CHR ''+''" for n
  proof -
    have "digit 16 (hex_char (n mod 16)) = Some (n mod 16)" by (intro digit_hex_char) simp
    moreover have "digit 16 (CHR ''+'') = None" by (simp add: digit_def)
    ultimately show ?thesis by auto
  qed
  have hd: "w > 0 \<Longrightarrow> \<exists>c r. hex_fixed w n = c # r \<and> c \<noteq> CHR ''+''" for w n
  proof (induction w arbitrary: n)
    case (Suc w)
    show ?case
    proof (cases "w = 0")
      case True then show ?thesis using hexc by simp
    next
      case False
      with Suc.IH[of "n div 16"] show ?thesis by auto
    qed
  qed simp
  have p: "parse_uint 16 0xFFFFFFFF (hex_fixed 8 n) = Some n" if "n < 2 ^ 32" for n
  proof -
    obtain c r where c: "hex_fixed 8 n = c # r" "c \<noteq> CHR ''+''" using hd[of 8 n] by auto
    have "digits_val 16 0 (c # r) = Some n"
      using digits_val_hex_fixed[of 0 8 n] that by (simp add: c(1))
    then show ?thesis using c that by (simp add: parse_uint_def)
  qed
  have b: "unat ts div 2 ^ 32 < 2 ^ 32"
    using unsigned_less[of ts, where ?'a = nat] by (simp add: less_mult_imp_div_less)
  have "unat (ucast (drop_bit 32 ts) :: u32) = take_bit 32 (unat ts div 2 ^ 32)"
    by (simp only: unsigned_ucast_eq unsigned_drop_bit_eq drop_bit_eq_div) (simp add: unat_div_distrib)
  then have hi: "unat (ucast (drop_bit 32 ts) :: u32) = unat ts div 2 ^ 32"
    using b by (simp only: take_bit_nat_eq_self)
  have lo: "unat (ucast ts :: u32) = unat ts mod 2 ^ 32"
    by (simp add: unsigned_ucast_eq take_bit_eq_mod)
  show ?thesis using b p[of "unat ts div 2 ^ 32"] p[of "unat ts mod 2 ^ 32"] hi lo
    by (simp add: ntp_ts_to_mode6_def)
qed

end
