(* ===== verification/Ntp_Poll.thy ===== *)
theory Ntp_Poll
  imports Packets
begin

text \<open>
  The receive loop of the NTP server (\<open>NtpServer::poll\<close> in \<open>src/ntp/mod.rs\<close>): the access and
  rate checks, the dispatch on the packet mode, the replies and the counters.

  The socket is the environment: a poll consumes the list of results its \<open>recv_from\<close> calls
  return, each datagram with the clock readings taken while it is handled and whether the
  send succeeds. The receive buffer is shared by the iterations, as in the source.
\<close>

section \<open>Environment\<close>

datatype socket_addr = V4 u32 u16 | V6 "u8 list" u16

record readings =
  t_receive :: i64
  w_receive :: wall_clock
  t_limit :: i64
  t_disp :: i64
  t_cur :: i64
  w_cur :: wall_clock
  t_start :: i64
  t_xmit :: i64
  w_xmit :: wall_clock
  t_finish :: i64
  send_ok :: bool

datatype recv_event = Datagram "u8 list" socket_addr readings | Would_Block | Recv_Error

datatype poll_error = Send_Failed | Recv_Failed

text \<open>\<open>recv_from\<close> copies at most the buffer's length and leaves the rest of the buffer.\<close>

definition recv_into :: "u8 list \<Rightarrow> u8 list \<Rightarrow> nat \<times> u8 list" where
  "recv_into buf bytes = (let b = take (length buf) bytes in (length b, b @ drop (length b) buf))"

definition src_ip_v4 :: "socket_addr \<Rightarrow> u32 option" where
  "src_ip_v4 peer = (case peer of V4 ip _ \<Rightarrow> Some ip | V6 _ _ \<Rightarrow> None)"

section \<open>Handling one datagram\<close>

datatype outcome = Skipped | Answered | Failed

type_synonym sent = "u8 list \<times> socket_addr"

definition handle_control ::
    "(fp \<Rightarrow> fp) \<Rightarrow> bool \<Rightarrow> nat \<Rightarrow> u8 list \<Rightarrow> socket_addr \<Rightarrow> readings \<Rightarrow> ntp_server
     \<Rightarrow> outcome \<times> sent list \<times> ntp_server" where
  "handle_control log2 gps_fix len req peer rd s =
     (if len < NTP_CONTROL_HEADER_LEN then (Skipped, [], s)
      else if req ! 1 AND MODE6_RESPONSE_BIT \<noteq> 0 then (Skipped, [], s)
      else let (ok, s) = try_rate_limit (src_ip_v4 peer) (t_limit rd) s in
        if \<not> ok then (Skipped, [], s)
        else let dp = discipline_params log2 gps_fix (t_disp rd) (t_cur rd) (w_cur rd) s;
                 version = drop_bit 3 (req ! 0) AND 7;
                 resp = build_mode6_response (take len req) version dp (get_servo_stats s)
             in if \<not> send_ok rd then (Failed, [], s)
                else (Answered, [(resp, peer)], record_proc_delay (t_start rd) (t_finish rd) s))"

definition handle_time ::
    "(fp \<Rightarrow> fp) \<Rightarrow> bool \<Rightarrow> nat \<Rightarrow> u8 list \<Rightarrow> u8 \<Rightarrow> u64 \<Rightarrow> socket_addr \<Rightarrow> readings \<Rightarrow> ntp_server
     \<Rightarrow> outcome \<times> sent list \<times> ntp_server" where
  "handle_time log2 gps_fix len req mode receive_ntp_ts peer rd s =
     (if len < NTP_PACKET_LEN then (Skipped, [], s)
      else let reply_mode = (if mode = MODE_CLIENT then MODE_SERVER else MODE_SYMMETRIC_PASSIVE);
               version = drop_bit 3 (req ! 0) AND 7;
               req48 = take NTP_PACKET_LEN req;
               (ok, s) = try_rate_limit (src_ip_v4 peer) (t_limit rd) s in
        if \<not> ok then
          (Skipped, if send_ok rd then [(build_kod_response req48 version reply_mode, peer)] else [], s)
        else let dp = discipline_params log2 gps_fix (t_disp rd) (t_cur rd) (w_cur rd) s;
                 resp = build_response req48 dp receive_ntp_ts reply_mode;
                 transmit_ts = current_ntp_timestamp (t_xmit rd) (w_xmit rd) s;
                 resp = set_bytes 40 (be64 transmit_ts) resp
             in if \<not> send_ok rd then (Failed, [], s)
                else (Answered, [(resp, peer)], record_proc_delay (t_start rd) (t_finish rd) s))"

definition handle_datagram ::
    "(fp \<Rightarrow> fp) \<Rightarrow> bool \<Rightarrow> nat \<Rightarrow> u8 list \<Rightarrow> socket_addr \<Rightarrow> readings \<Rightarrow> ntp_server
     \<Rightarrow> outcome \<times> sent list \<times> ntp_server" where
  "handle_datagram log2 gps_fix len req peer rd s =
     (if len = 0 then (Skipped, [], s)
      else let receive_ntp_ts = current_ntp_timestamp (t_receive rd) (w_receive rd) s in
        if (case src_ip_v4 peer of Some ip \<Rightarrow> \<not> acl_allows (server_acl s) ip | None \<Rightarrow> False)
        then (Skipped, [], s\<lparr>acl_blocked_total := acl_blocked_total s + 1\<rparr>)
        else let mode = req ! 0 AND 7 in
          if mode = MODE_CONTROL then handle_control log2 gps_fix len req peer rd s
          else if mode = MODE_CLIENT \<or> mode = MODE_SYMMETRIC_ACTIVE
            then handle_time log2 gps_fix len req mode receive_ntp_ts peer rd s
          else (Skipped, [], s))"

section \<open>The loop\<close>

text \<open>
  One iteration counts an answered request; a failed send ends the poll with an error. The list
  of events is what the socket delivers until it would block.
\<close>

fun poll_loop ::
    "(fp \<Rightarrow> fp) \<Rightarrow> bool \<Rightarrow> u8 list \<Rightarrow> recv_event list \<Rightarrow> ntp_server
     \<Rightarrow> sent list \<times> (poll_error + unit) \<times> ntp_server" where
  "poll_loop log2 gps_fix req [] s = ([], Inr (), s)"
| "poll_loop log2 gps_fix req (Would_Block # evs) s = ([], Inr (), s)"
| "poll_loop log2 gps_fix req (Recv_Error # evs) s = ([], Inl Recv_Failed, s)"
| "poll_loop log2 gps_fix req (Datagram bytes peer rd # evs) s =
     (let (len, req') = recv_into req bytes;
          (r, out, s') = handle_datagram log2 gps_fix len req' peer rd s
      in case r of
           Failed \<Rightarrow> (out, Inl Send_Failed, s')
         | Skipped \<Rightarrow> (let (out', res, s'') = poll_loop log2 gps_fix req' evs s'
                     in (out @ out', res, s''))
         | Answered \<Rightarrow> (let (out', res, s'') =
                            poll_loop log2 gps_fix req' evs (s'\<lparr>served := served s' + 1\<rparr>)
                      in (out @ out', res, s'')))"

definition poll ::
    "(fp \<Rightarrow> fp) \<Rightarrow> bool \<Rightarrow> recv_event list \<Rightarrow> ntp_server
     \<Rightarrow> sent list \<times> (poll_error + unit) \<times> ntp_server" where
  "poll log2 gps_fix evs s = poll_loop log2 gps_fix (replicate NTP_MAX_PACKET_LEN 0) evs s"

section \<open>Frame and invariant\<close>

text \<open>Serving packets leaves the discipline state alone.\<close>

definition discipline_part where
  "discipline_part s =
     (clock_anchor s, last_gps_utc_seconds s, pps_locked s, freq_ppm s, server_acl s,
      last_pps_monotonic_us s, last_sync_ntp_ts s, pending_gps_step s, last_gps_utc_update_us s,
      pps_has_sample s, pps_jitter_us s, pending_leap s, anchor_step_count s, pps_glitch_count s,
      pps_offset_us s)"

lemma discipline_part_fields:
  assumes "discipline_part s = discipline_part s'"
  shows "clock_anchor s = clock_anchor s'" "last_gps_utc_seconds s = last_gps_utc_seconds s'"
    "pps_locked s = pps_locked s'" "freq_ppm s = freq_ppm s'" "server_acl s = server_acl s'"
    "last_pps_monotonic_us s = last_pps_monotonic_us s'" "last_sync_ntp_ts s = last_sync_ntp_ts s'"
    "pending_gps_step s = pending_gps_step s'" "last_gps_utc_update_us s = last_gps_utc_update_us s'"
    "pps_has_sample s = pps_has_sample s'" "pps_jitter_us s = pps_jitter_us s'"
    "pending_leap s = pending_leap s'" "anchor_step_count s = anchor_step_count s'"
    "pps_glitch_count s = pps_glitch_count s'" "pps_offset_us s = pps_offset_us s'"
  using assms by (simp_all add: discipline_part_def)

lemma discipline_part_simps [simp]:
  "discipline_part (s\<lparr>served := a\<rparr>) = discipline_part s"
  "discipline_part (s\<lparr>rate_limiter := b\<rparr>) = discipline_part s"
  "discipline_part (s\<lparr>rate_limiter := b, rate_limited_total := c\<rparr>) = discipline_part s"
  "discipline_part (s\<lparr>acl_blocked_total := d\<rparr>) = discipline_part s"
  "discipline_part (record_proc_delay t u s) = discipline_part s"
  by (simp_all add: discipline_part_def record_proc_delay_def Let_def)

lemma try_rate_limit_part [simp]: "discipline_part (snd (try_rate_limit src t s)) = discipline_part s"
  by (auto simp: try_rate_limit_def split: option.split prod.split)

lemma handle_part:
  "discipline_part (snd (snd (handle_datagram log2 gps len req peer rd s))) = discipline_part s"
proof -
  have t: "discipline_part s' = discipline_part s" if "try_rate_limit src t s = (ok, s')" for src t ok s'
    using try_rate_limit_part[of src t s] that by simp
  show ?thesis
    by (auto simp: handle_datagram_def handle_control_def handle_time_def Let_def t split: prod.split option.split)
qed

lemma handle_inv [step_inv]:
  assumes "server_inv s"
  shows "server_inv (snd (snd (handle_datagram log2 gps len req peer rd s)))"
proof -
  have t: "server_inv s'" if "try_rate_limit src t s = (ok, s')" for src t ok s'
    using try_rate_limit_inv[OF assms, of src t] that by simp
  have b: "server_inv (s\<lparr>acl_blocked_total := n\<rparr>)" for n using assms by (simp add: server_inv_def)
  show ?thesis
    using assms b by (auto simp: handle_datagram_def handle_control_def handle_time_def Let_def
        split: prod.split option.split intro: record_proc_delay_inv dest: t)
qed

lemma served_inv [step_inv]: "server_inv s \<Longrightarrow> server_inv (s\<lparr>served := n\<rparr>)"
  by (simp add: server_inv_def)

lemma poll_frame:
  "discipline_part (snd (snd (poll_loop log2 gps req evs s))) = discipline_part s \<and>
   (server_inv s \<longrightarrow> server_inv (snd (snd (poll_loop log2 gps req evs s))))"
proof (induction log2 gps req evs s rule: poll_loop.induct)
  case (4 log2 gps req bytes peer rd evs s)
  obtain len req' where r: "recv_into req bytes = (len, req')" by fastforce
  obtain o' out s' where h: "handle_datagram log2 gps len req' peer rd s = (o', out, s')"
    by (metis prod_cases3)
  have s': "discipline_part s' = discipline_part s" "server_inv s \<longrightarrow> server_inv s'"
    using handle_part[of log2 gps len req' peer rd s] handle_inv[of s log2 gps len req' peer rd] h by simp_all
  show ?case
    using 4[OF r[symmetric] refl h[symmetric] refl] s'
    by (cases o') (auto simp: r h Let_def served_inv split: prod.split)
qed simp_all

section \<open>Which datagrams reach the limiter\<close>

text \<open>The call of the limiter a datagram causes, if it gets that far.\<close>

definition wants_service :: "nat \<Rightarrow> u8 list \<Rightarrow> bool" where
  "wants_service len req \<longleftrightarrow>
     req ! 0 AND 7 = 6 \<and> 12 \<le> len \<and> req ! 1 AND 0x80 = 0 \<or>
     (req ! 0 AND 7 = 3 \<or> req ! 0 AND 7 = 1) \<and> 48 \<le> len"

definition admitted :: "nat \<Rightarrow> u8 list \<Rightarrow> socket_addr \<Rightarrow> ntp_server \<Rightarrow> bool" where
  "admitted len req peer s \<longleftrightarrow> wants_service len req \<and>
     (case src_ip_v4 peer of Some ip \<Rightarrow> acl_allows (server_acl s) ip | None \<Rightarrow> True)"

lemma handle_modes:
  assumes "0 < len" "case src_ip_v4 peer of Some ip \<Rightarrow> acl_allows (server_acl s) ip | None \<Rightarrow> True"
  shows "handle_datagram log2 gps len req peer rd s =
    (if req ! 0 AND 7 = 6 then handle_control log2 gps len req peer rd s
     else if req ! 0 AND 7 = 3 \<or> req ! 0 AND 7 = 1
       then handle_time log2 gps len req (req ! 0 AND 7)
              (current_ntp_timestamp (t_receive rd) (w_receive rd) s) peer rd s
     else (Skipped, [], s))"
  using assms by (simp add: handle_datagram_def packet_consts split: option.splits)

lemma handle_denied:
  assumes "\<not> (case src_ip_v4 peer of Some ip \<Rightarrow> acl_allows (server_acl s) ip | None \<Rightarrow> True)" "0 < len"
  shows "handle_datagram log2 gps len req peer rd s = (Skipped, [], s\<lparr>acl_blocked_total := acl_blocked_total s + 1\<rparr>)"
  using assms by (simp add: handle_datagram_def split: option.splits)

lemma not_admitted_silent:
  assumes "\<not> admitted len req peer s"
  shows "handle_datagram log2 gps len req peer rd s = (Skipped, [], s) \<or>
    handle_datagram log2 gps len req peer rd s = (Skipped, [], s\<lparr>acl_blocked_total := acl_blocked_total s + 1\<rparr>)"
proof (cases "len = 0")
  case True then show ?thesis by (simp add: handle_datagram_def)
next
  case False
  show ?thesis
  proof (cases "case src_ip_v4 peer of Some ip \<Rightarrow> acl_allows (server_acl s) ip | None \<Rightarrow> True")
    case False with \<open>len \<noteq> 0\<close> show ?thesis by (simp add: handle_denied)
  next
    case True
    then have w: "\<not> wants_service len req" using assms by (simp add: admitted_def)
    have c: "req ! 0 AND 7 = 6 \<Longrightarrow> handle_control log2 gps len req peer rd s = (Skipped, [], s)"
      using w by (auto simp: wants_service_def handle_control_def packet_consts mode6_consts)
    have t: "req ! 0 AND 7 = 3 \<or> req ! 0 AND 7 = 1 \<Longrightarrow>
        handle_time log2 gps len req (req ! 0 AND 7) ts peer rd s = (Skipped, [], s)" for ts
      using w by (auto simp: wants_service_def handle_time_def packet_consts)
    from c t handle_modes[OF _ True, of len log2 gps req rd] \<open>len \<noteq> 0\<close> show ?thesis by auto
  qed
qed

lemma admitted_handle:
  assumes "admitted len req peer s"
  shows "handle_datagram log2 gps len req peer rd s =
    (if req ! 0 AND 7 = 6 then handle_control log2 gps len req peer rd s
     else handle_time log2 gps len req (req ! 0 AND 7)
            (current_ntp_timestamp (t_receive rd) (w_receive rd) s) peer rd s)"
proof -
  have "0 < len" using assms by (auto simp: admitted_def wants_service_def)
  from handle_modes[OF this] assms show ?thesis by (auto simp: admitted_def wants_service_def)
qed

lemma limiter_refuses:
  assumes "admitted len req peer s" "try_rate_limit (src_ip_v4 peer) (t_limit rd) s = (False, s')"
  shows "handle_datagram log2 gps len req peer rd s =
    (Skipped,
     if req ! 0 AND 7 = 6 \<or> \<not> send_ok rd then []
     else [(build_kod_response (take 48 req) (drop_bit 3 (req ! 0) AND 7)
              (if req ! 0 AND 7 = 3 then MODE_SERVER else MODE_SYMMETRIC_PASSIVE), peer)], s')"
  unfolding admitted_handle[OF assms(1)] handle_control_def handle_time_def
  using assms by (auto simp: admitted_def wants_service_def Let_def packet_consts mode6_consts)

lemma limiter_accepts:
  assumes "admitted len req peer s" "try_rate_limit (src_ip_v4 peer) (t_limit rd) s = (True, s')"
    and dp: "dp = discipline_params log2 gps (t_disp rd) (t_cur rd) (w_cur rd) s'"
  shows "handle_datagram log2 gps len req peer rd s =
    (if \<not> send_ok rd then (Failed, [], s')
     else (Answered,
       [(if req ! 0 AND 7 = 6
         then build_mode6_response (take len req) (drop_bit 3 (req ! 0) AND 7) dp (get_servo_stats s')
         else set_bytes 40 (be64 (current_ntp_timestamp (t_xmit rd) (w_xmit rd) s'))
                (build_response (take 48 req) dp (current_ntp_timestamp (t_receive rd) (w_receive rd) s)
                  (if req ! 0 AND 7 = 3 then MODE_SERVER else MODE_SYMMETRIC_PASSIVE)), peer)],
       record_proc_delay (t_start rd) (t_finish rd) s'))"
  unfolding admitted_handle[OF assms(1)] handle_control_def handle_time_def
  using assms by (auto simp: admitted_def wants_service_def Let_def packet_consts mode6_consts)

section \<open>What a datagram can cause\<close>

text \<open>Everything but an admitted client, symmetric-active or control request is dropped without
  an answer: denied sources, replies and other modes, mode-6 packets with the response bit, and
  short packets. Only the access-list counter may change.\<close>

theorem unwanted_dropped:
  assumes "\<not> admitted len req peer s"
  shows "fst (handle_datagram log2 gps len req peer rd s) = Skipped \<and>
    fst (snd (handle_datagram log2 gps len req peer rd s)) = [] \<and>
    snd (snd (handle_datagram log2 gps len req peer rd s)) \<in>
      {s, s\<lparr>acl_blocked_total := acl_blocked_total s + 1\<rparr>}"
  using not_admitted_silent[OF assms, of log2 gps rd] by auto

definition no_readings :: readings where
  "no_readings = \<lparr>t_receive = 0, w_receive = None, t_limit = 0, t_disp = 0, t_cur = 0, w_cur = None,
     t_start = 0, t_xmit = 0, w_xmit = None, t_finish = 0, send_ok = True\<rparr>"

theorem unwanted_dropped_witness:
  "fst (handle_datagram id True 48 (0x24 # replicate 511 0) (V4 0x0A000001 123) no_readings from_socket) = Skipped \<and>
   fst (snd (handle_datagram id True 48 (0x24 # replicate 511 0) (V4 0x0A000001 123) no_readings from_socket)) = [] \<and>
   snd (snd (handle_datagram id True 48 (0x24 # replicate 511 0) (V4 0x0A000001 123) no_readings from_socket)) \<in>
     {from_socket, from_socket\<lparr>acl_blocked_total := acl_blocked_total from_socket + 1\<rparr>}"
  by (rule unwanted_dropped) (simp add: admitted_def wants_service_def)

lemma limit_result:
  assumes "try_rate_limit src t s = (ok, s')"
  shows "discipline_part s' = discipline_part s" "server_inv s \<Longrightarrow> server_inv s'"
  using try_rate_limit_part[of src t s] try_rate_limit_inv[of s src t] assms by simp_all

lemma params_leap:
  assumes "server_inv s"
  shows "dp_leap (discipline_params log2 gps now cur wall s) \<le> 3"
    "dp_stratum (discipline_params log2 gps now cur wall s) = 1 \<or>
     dp_stratum (discipline_params log2 gps now cur wall s) = 16"
proof -
  have "pending_leap s \<le> 2" using assms by (simp add: server_inv_def)
  then have "pending_leap s \<le> 3" by (simp add: word_le_nat_alt)
  then show "dp_leap (discipline_params log2 gps now cur wall s) \<le> 3"
    by (simp add: discipline_params_def Let_def)
qed (simp add: discipline_params_def Let_def STRATUM_UNSYNC_def)

lemma wants_service_mode:
  "wants_service len req \<Longrightarrow> req ! 0 AND 7 = 6 \<and> 12 \<le> len \<or> (req ! 0 AND 7 = 3 \<or> req ! 0 AND 7 = 1) \<and> 48 \<le> len"
  by (auto simp: wants_service_def)

text \<open>A packet that the server sends is a reply: mode 2 or 4, or mode 6 with the response bit.\<close>

text \<open>The packet a datagram causes, by its kind.\<close>

lemma sent_packet:
  assumes "server_inv s" "len \<le> length req" "(p, q) \<in> set (fst (snd (handle_datagram log2 gps len req peer rd s)))"
    and m: "m = (if req ! 0 AND 7 = 3 then MODE_SERVER else MODE_SYMMETRIC_PASSIVE)"
  obtains (control) dp stats where "q = peer" "NTP_CONTROL_HEADER_LEN \<le> length (take len req)"
      "p = build_mode6_response (take len req) (drop_bit 3 (req ! 0) AND 7) dp stats"
    | (kod) "q = peer" "length (take 48 req) = 48" "p = build_kod_response (take 48 req) (drop_bit 3 (req ! 0) AND 7) m"
    | (time) s' rx tx where "q = peer" "length (take 48 req) = 48" "server_inv s'" "discipline_part s' = discipline_part s"
      "p = set_bytes 40 (be64 tx)
        (build_response (take 48 req) (discipline_params log2 gps (t_disp rd) (t_cur rd) (w_cur rd) s') rx m)"
proof -
  have adm: "admitted len req peer s"
    using not_admitted_silent[of len req peer s log2 gps rd] assms(3) by fastforce
  then have w: "wants_service len req" by (simp add: admitted_def)
  obtain ok s' where t: "try_rate_limit (src_ip_v4 peer) (t_limit rd) s = (ok, s')" by fastforce
  note h = limiter_accepts[OF adm _ refl, of rd s' log2 gps] limiter_refuses[OF adm, of rd s' log2 gps]
  show thesis
  proof (cases "req ! 0 AND 7 = 6")
    case True
    with w assms(2) have "NTP_CONTROL_HEADER_LEN \<le> length (take len req)"
      by (auto simp: packet_consts dest: wants_service_mode)
    with True h t assms(3) control show thesis by (cases ok) (auto split: if_splits)
  next
    case False
    with w assms(2) have "length (take 48 req) = 48" by (auto dest: wants_service_mode)
    with False h t assms(3) kod time[OF _ _ limit_result(2)[OF t assms(1)] limit_result(1)[OF t]] m
    show thesis by (cases ok) (auto split: if_splits)
  qed
qed

lemma sent_is_reply:
  assumes "server_inv s" "len \<le> length req"
    and "(p, q) \<in> set (fst (snd (handle_datagram log2 gps len req peer rd s)))"
  shows "q = peer \<and> (length p = 48 \<and> p ! 0 AND 7 \<in> {2, 4} \<or> p ! 0 AND 7 = 6 \<and> bit (p ! 1) 7 \<and> 12 \<le> length p)"
proof -
  have mm: "(if req ! 0 AND 7 = 3 then MODE_SERVER else MODE_SYMMETRIC_PASSIVE) AND 7 \<in> {2, 4}" by (simp add: packet_consts)
  show ?thesis
  proof (cases rule: sent_packet[OF assms refl, case_names control kod time])
    case (control dp stats)
    with mode6_framing[OF control(2), of "drop_bit 3 (req ! 0) AND 7" dp stats] show ?thesis
      by (auto simp: Let_def pkt_mode_def packet_consts split: if_splits)
  next
    case kod
    with kod_fields[OF kod(2), of "drop_bit 3 (req ! 0) AND 7"] mm show ?thesis by (simp add: Let_def pkt_mode_def)
  next
    case (time s' rx tx)
    note f = response_fields[OF time(2) params_leap[OF time(3)], of log2 gps "t_disp rd" "t_cur rd" "w_cur rd" rx]
    show ?thesis using time f mm by (simp add: Let_def pkt_mode_def nth_set_bytes)
  qed
qed


text \<open>C18: No packet the server sends, a time reply, a Kiss-o'-Death or a control response, is ever
  answered by this server or another running the same code, in any state: two servers cannot bounce
  packets between each other.\<close>

theorem no_reply_loop:
  assumes "server_inv s" "len \<le> length req"
    and "(p, q) \<in> set (fst (snd (handle_datagram log2 gps len req peer rd s)))"
  shows "q = peer \<and>
    fst (snd (handle_datagram log2' gps' (length p) (p @ rest) peer' rd' s')) = []"
proof -
  note r = sent_is_reply[OF assms]
  have n: "0 < length p" "1 < length p" using r by auto
  have "\<not> wants_service (length p) (p @ rest)"
  proof (cases "p ! 0 AND 7 = 6")
    case False
    with r have "p ! 0 AND 7 \<in> {2, 4}" by auto
    then show ?thesis using n by (auto simp: wants_service_def nth_append)
  next
    case True
    with r have "bit (p ! 1) 7" by auto
    then have "bit (p ! 1 AND 0x80) 7" by (simp add: bit_and_iff)
    then have "p ! 1 AND 0x80 \<noteq> 0" by (metis bit_0_eq bot_apply bot_bool_def)
    with True n show ?thesis by (auto simp: wants_service_def nth_append)
  qed
  then have "\<not> admitted (length p) (p @ rest) peer' s'" by (simp add: admitted_def)
  from not_admitted_silent[OF this, of log2' gps' rd'] r show ?thesis by auto
qed

definition time_request :: "u8 list" where
  "time_request = 0x23 # replicate 39 0 @ be64 0xE9D1E7B48A3D71A0 @ replicate 464 0"

lemma time_request_simps: "time_request ! 0 = 0x23" "length time_request = 512"
  "get_bytes 40 48 (take 48 time_request) = be64 0xE9D1E7B48A3D71A0"
  by (simp_all add: time_request_def get_bytes_def)

lemma fresh_admits: "admitted 48 time_request (V4 0x0A000001 123) from_socket"
  by (simp add: admitted_def wants_service_def time_request_simps src_ip_v4_def from_socket_def
      acl_allows_list acl_inv_init) (simp add: allow_all_def)

lemma fresh_limit:
  "try_rate_limit (src_ip_v4 (V4 0x0A000001 123)) 0 from_socket
     = (True, from_socket\<lparr>rate_limiter := snd (rate_check 0x0A000001 0 rate_new)\<rparr>)"
proof -
  obtain tbl where "rate_check 0x0A000001 0 rate_new = (True, tbl)"
    using rate_check_new_ok[of rate_new "0x0A000001" 0] rate_new_inv(2) by (metis (full_types) prod.collapse)
  then show ?thesis by (simp add: try_rate_limit_def src_ip_v4_def from_socket_def)
qed

theorem no_reply_loop_witness:
  "\<exists>p. fst (snd (handle_datagram id True 48 time_request (V4 0x0A000001 123) no_readings from_socket))
        = [(p, V4 0x0A000001 123)] \<and>
     fst (snd (handle_datagram id True (length p) (p @ []) (V4 0x0A000002 123) no_readings from_socket)) = []"
proof -
  have "\<exists>p. fst (snd (handle_datagram id True 48 time_request (V4 0x0A000001 123) no_readings from_socket))
      = [(p, V4 0x0A000001 123)]"
    using limiter_accepts[OF fresh_admits, of no_readings, OF _ refl, of _ id True] fresh_limit
    by (simp add: no_readings_def)
  then obtain p where p: "fst (snd (handle_datagram id True 48 time_request (V4 0x0A000001 123) no_readings from_socket))
      = [(p, V4 0x0A000001 123)]" by blast
  have "(p, V4 0x0A000001 123) \<in> set (fst (snd (handle_datagram id True 48 time_request (V4 0x0A000001 123)
      no_readings from_socket)))" by (simp add: p)
  from no_reply_loop[OF from_socket_inv _ this, where rest = "[]"] p show ?thesis by (auto simp: time_request_simps)
qed


lemma same_timestamp: "discipline_part s' = discipline_part s \<Longrightarrow> current_ntp_timestamp t w s' = current_ntp_timestamp t w s"
proof -
  assume d: "discipline_part s' = discipline_part s"
  have "corrected_elapsed_us raw s' = corrected_elapsed_us raw s" for raw
    using discipline_part_fields(4)[OF d] by (simp add: corrected_elapsed_us_def)
  then show ?thesis using discipline_part_fields(1)[OF d] by (simp add: current_ntp_timestamp_def split: option.split)
qed

text \<open>The transmit timestamp is stamped last and touches no other field.\<close>

lemma stamp_fields:
  assumes "length b = 48"
  shows "set_bytes 40 (be64 tx) b ! 0 = b ! 0" "set_bytes 40 (be64 tx) b ! 1 = b ! 1"
    "get_bytes 12 16 (set_bytes 40 (be64 tx) b) = get_bytes 12 16 b" "get_bytes 24 32 (set_bytes 40 (be64 tx) b) = get_bytes 24 32 b"
    "get_bytes 32 40 (set_bytes 40 (be64 tx) b) = get_bytes 32 40 b" "get_bytes 40 48 (set_bytes 40 (be64 tx) b) = be64 tx"
  using assms by (simp_all add: nth_set_bytes get_set_other get_set_same)

lemma stamped_header:
  assumes "length req = 48" "server_inv s" "dp = discipline_params log2 gps t c w s"
    and p: "p = set_bytes 40 (be64 tx) (build_response req dp rx m)"
  shows "pkt_leap p = dp_leap dp" "p ! 1 = (if dp_stratum dp = 1 then 1 else 0)" "pkt_mode p = m AND 7"
proof -
  have f: "length (build_response req dp rx m) = 48" "pkt_leap (build_response req dp rx m) = dp_leap dp"
    "build_response req dp rx m ! 1 = (if dp_stratum dp = 1 then 1 else 0)" "pkt_mode (build_response req dp rx m) = m AND 7"
    using response_fields[OF assms(1) params_leap[OF assms(2)]] by (simp_all add: Let_def assms(3))
  show "pkt_leap p = dp_leap dp" "p ! 1 = (if dp_stratum dp = 1 then 1 else 0)" "pkt_mode p = m AND 7"
    using f stamp_fields(1,2)[OF f(1), of tx] by (simp_all add: p pkt_leap_def pkt_mode_def)
qed

text \<open>C19: An admitted client or symmetric-active request gets exactly one answer, sent to its source.
  Refused by the limiter it is a Kiss-o'-Death in the request's version, and the refusal is counted.
  Accepted it is a time reply in mode 4 or 2 that echoes the client's transmit time and carries the
  server's time at reception and at transmission, the stratum deciding the reference id.\<close>

theorem time_request_answer:
  assumes "server_inv s" "admitted len req peer s" "req ! 0 AND 7 \<noteq> 6" "len \<le> length req" "send_ok rd"
  shows "case handle_datagram log2 gps len req peer rd s of (r, out, s') \<Rightarrow>
    \<exists>p. out = [(p, peer)] \<and> length p = 48 \<and> pkt_version p = reply_version (drop_bit 3 (req ! 0) AND 7) \<and>
      pkt_mode p = (if req ! 0 AND 7 = 3 then 4 else 2) \<and> get_bytes 24 32 p = get_bytes 40 48 (take 48 req) \<and>
      (if r = Skipped
       then pkt_leap p = 3 \<and> p ! 1 = 0 \<and> get_bytes 12 16 p = str_bytes ''RATE'' \<and>
         rate_limited_total s' = rate_limited_total s + 1
       else r = Answered \<and> rate_limited_total s' = rate_limited_total s \<and>
         from_be64 (get_bytes 32 40 p) = Some (current_ntp_timestamp (t_receive rd) (w_receive rd) s) \<and>
         from_be64 (get_bytes 40 48 p) = Some (current_ntp_timestamp (t_xmit rd) (w_xmit rd) s) \<and>
         get_bytes 12 16 p = str_bytes (if p ! 1 = 1 then ''GPS'' @ [CHR 0x00] else ''INIT'') \<and>
         (p ! 1 = 1 \<or> p ! 1 = 0 \<and> pkt_leap p = 3))"
proof -
  have m: "req ! 0 AND 7 = 3 \<or> req ! 0 AND 7 = 1" "48 \<le> len"
    using wants_service_mode[of len req] assms(2,3) by (auto simp: admitted_def)
  obtain ok s' where t: "try_rate_limit (src_ip_v4 peer) (t_limit rd) s = (ok, s')" by fastforce
  have inv: "server_inv s'" by (rule limit_result(2)[OF t assms(1)])
  have dpt: "discipline_part s' = discipline_part s" by (rule limit_result(1)[OF t])
  let ?dp = "discipline_params log2 gps (t_disp rd) (t_cur rd) (w_cur rd) s'"
  let ?m = "if req ! 0 AND 7 = 3 then MODE_SERVER else MODE_SYMMETRIC_PASSIVE"
  let ?rx = "current_ntp_timestamp (t_receive rd) (w_receive rd) s"
  let ?tx = "current_ntp_timestamp (t_xmit rd) (w_xmit rd) s'"
  have mm: "?m AND 7 = (if req ! 0 AND 7 = 3 then 4 else 2)" by (simp add: packet_consts)
  have l: "length (take 48 req) = 48" using m(2) assms(4) by auto
  have v: "pkt_version (take 48 req) = drop_bit 3 (req ! 0) AND 7" by (simp add: pkt_version_def)
  have count: "rate_limited_total s' = (if ok then rate_limited_total s else rate_limited_total s + 1)"
    using t by (auto simp: try_rate_limit_def split: option.splits prod.splits if_splits)
  show ?thesis
  proof (cases ok)
    case False
    then show ?thesis
      using limiter_refuses[OF assms(2), of rd s' log2 gps] t assms(3,5) count mm
        kod_fields[OF l, of "drop_bit 3 (req ! 0) AND 7" ?m]
      by (simp add: Let_def)
  next
    case True
    note tx = same_timestamp[OF dpt, of "t_xmit rd" "w_xmit rd"]
    let ?b = "build_response (take 48 req) ?dp ?rx ?m"
    note f = response_fields[OF l params_leap[OF inv], of log2 gps "t_disp rd" "t_cur rd" "w_cur rd" ?rx ?m,
        unfolded Let_def]
    have lp: "dp_stratum ?dp \<noteq> 1 \<Longrightarrow> dp_leap ?dp = 3" by (simp add: discipline_params_def Let_def)
    have h: "handle_datagram log2 gps len req peer rd s =
        (Answered, [(set_bytes 40 (be64 ?tx) ?b, peer)], record_proc_delay (t_start rd) (t_finish rd) s')"
      using limiter_accepts[OF assms(2), of rd s' ?dp log2 gps] t True assms(3,5) by simp
    note st = stamp_fields[of ?b ?tx]
    have rl: "rate_limited_total (record_proc_delay (t_start rd) (t_finish rd) s') = rate_limited_total s"
      using count True by (simp add: record_proc_delay_def Let_def)
    show ?thesis
      unfolding h prod.case
      by (rule exI[of _ "set_bytes 40 (be64 ?tx) ?b"])
        (use f st mm lp rl v in \<open>auto simp: pkt_leap_def pkt_version_def pkt_mode_def tx split: if_splits\<close>)
  qed
qed

theorem time_request_answer_witness:
  "case handle_datagram id True 48 time_request (V4 0x0A000001 123) no_readings from_socket of (r, out, s') \<Rightarrow>
    \<exists>p. out = [(p, V4 0x0A000001 123)] \<and> length p = 48 \<and> pkt_version p = 4 \<and> pkt_mode p = 4 \<and>
      get_bytes 24 32 p = be64 0xE9D1E7B48A3D71A0"
proof -
  have a: "drop_bit 3 (0x23 :: u8) AND 7 = 4" "(0x23 :: u8) AND 7 = 3" by simp_all
  show ?thesis
    using time_request_answer[OF from_socket_inv fresh_admits, of no_readings id True]
    by (auto simp: time_request_simps no_readings_def reply_version_def a split: prod.splits)
qed

section \<open>What a claim of synchronisation rests on\<close>

lemma claims_sync:
  assumes "server_inv s" "len \<le> length req" "(p, q) \<in> set (fst (snd (handle_datagram log2 gps len req peer rd s)))"
    "pkt_mode p \<noteq> 6" "pkt_leap p \<noteq> 3 \<or> p ! 1 \<noteq> 0"
  shows "q = peer \<and> pps_locked s \<and> pps_age_us (t_disp rd) s < 2008000000"
proof (cases rule: sent_packet[OF assms(1-3) refl, case_names control kod time])
  case (control dp stats)
  with mode6_framing[OF control(2), of "drop_bit 3 (req ! 0) AND 7" dp stats] assms(4) show ?thesis
    by (simp add: Let_def packet_consts)
next
  case kod
  with kod_fields[OF kod(2), of "drop_bit 3 (req ! 0) AND 7"] assms(5) show ?thesis by (simp add: Let_def)
next
  case (time s' rx tx)
  let ?dp = "discipline_params log2 gps (t_disp rd) (t_cur rd) (w_cur rd) s'"
  have "dp_stratum ?dp \<noteq> 1 \<Longrightarrow> dp_leap ?dp = 3" by (simp add: discipline_params_def Let_def)
  then have one: "dp_stratum ?dp = 1"
    using assms(5) stamped_header(1,2)[OF time(2,3) refl time(5)] by (auto split: if_splits)
  then have "pps_locked s'" using never_locked_unsync(1)[OF time(3), of log2 gps "t_disp rd" "t_cur rd" "w_cur rd"] by fastforce
  with stratum1_age[OF one] time(1) discipline_part_fields(3,6)[OF time(4)] show ?thesis by (simp add: pps_age_us_def)
qed

lemma poll_claims_sync:
  assumes "server_inv s" "(p, q) \<in> set (fst (poll_loop log2 gps req evs s))" "pkt_mode p \<noteq> 6" "pkt_leap p \<noteq> 3 \<or> p ! 1 \<noteq> 0"
  shows "pps_locked s \<and> (\<exists>bytes rd. Datagram bytes q rd \<in> set evs \<and> pps_age_us (t_disp rd) s < 2008000000)"
  using assms
proof (induction log2 gps req evs s rule: poll_loop.induct)
  case (4 log2 gps req bytes peer rd evs s)
  obtain len req' where r: "recv_into req bytes = (len, req')" by fastforce
  obtain o' out s' where h: "handle_datagram log2 gps len req' peer rd s = (o', out, s')" by (metis prod_cases3)
  have len: "len \<le> length req'" using r by (auto simp: recv_into_def Let_def)
  have d: "discipline_part s' = discipline_part s" "server_inv s'"
    using handle_part[of log2 gps len req' peer rd s] handle_inv[OF "4.prems"(1), of log2 gps len req' peer rd] h by simp_all
  have e: "pps_locked s' = pps_locked s" "pps_age_us t s' = pps_age_us t s" "pps_age_us t (s'\<lparr>served := n\<rparr>) = pps_age_us t s" for t n
    using discipline_part_fields(3,6)[OF d(1)] by (simp_all add: pps_age_us_def)
  show ?case
  proof (cases "(p, q) \<in> set out")
    case True
    then have "(p, q) \<in> set (fst (snd (handle_datagram log2 gps len req' peer rd s)))" by (simp add: h)
    from claims_sync[OF "4.prems"(1) len this "4.prems"(3,4)] show ?thesis by auto
  next
    case False
    then show ?thesis
      using "4.IH"[OF r[symmetric] refl h[symmetric] refl] "4.prems" d(2) e
      by (cases o') (auto simp: r h Let_def served_inv split: prod.splits)
  qed
qed simp_all

section \<open>Service spacing\<close>

definition limiter_call :: "nat \<Rightarrow> u8 list \<Rightarrow> socket_addr \<Rightarrow> readings \<Rightarrow> ntp_server \<Rightarrow> (u32 \<times> i64) option" where
  "limiter_call len req peer rd s =
     (if admitted len req peer s then map_option (\<lambda>ip. (ip, t_limit rd)) (src_ip_v4 peer) else None)"

lemma handle_limiter:
  assumes "handle_datagram log2 gps len req peer rd s = (r, out, s')"
  shows "case limiter_call len req peer rd s of
      Some (ip, t) \<Rightarrow> rate_check ip t (rate_limiter s) = (r \<noteq> Skipped, rate_limiter s')
    | None \<Rightarrow> rate_limiter s' = rate_limiter s"
proof (cases "admitted len req peer s")
  case False
  then show ?thesis using not_admitted_silent[OF False, of log2 gps rd] assms by (auto simp: limiter_call_def)
next
  case True
  obtain ok s1 where t: "try_rate_limit (src_ip_v4 peer) (t_limit rd) s = (ok, s1)" by fastforce
  have "rate_limiter s' = rate_limiter s1 \<and> (r \<noteq> Skipped) = ok"
  proof (cases ok)
    case True
    with t limiter_accepts[OF \<open>admitted len req peer s\<close>, of rd s1 _ log2 gps, OF _ refl] assms
    show ?thesis by (auto simp: record_proc_delay_def Let_def split: if_splits)
  next
    case False
    with t limiter_refuses[OF \<open>admitted len req peer s\<close>, of rd s1 log2 gps] assms show ?thesis by auto
  qed
  then show ?thesis
    using t True by (auto simp: limiter_call_def try_rate_limit_def split: option.splits prod.splits if_splits)
qed

text \<open>The limiter calls of a poll, each with its verdict: answered or not.\<close>

fun poll_calls ::
    "(fp \<Rightarrow> fp) \<Rightarrow> bool \<Rightarrow> u8 list \<Rightarrow> recv_event list \<Rightarrow> ntp_server \<Rightarrow> ((u32 \<times> i64) \<times> bool) list" where
  "poll_calls log2 gps req [] s = []"
| "poll_calls log2 gps req (Would_Block # evs) s = []"
| "poll_calls log2 gps req (Recv_Error # evs) s = []"
| "poll_calls log2 gps req (Datagram bytes peer rd # evs) s =
     (let (len, req') = recv_into req bytes;
          (r, out, s') = handle_datagram log2 gps len req' peer rd s;
          rest = (case r of Failed \<Rightarrow> []
                  | Skipped \<Rightarrow> poll_calls log2 gps req' evs s'
                  | Answered \<Rightarrow> poll_calls log2 gps req' evs (s'\<lparr>served := served s' + 1\<rparr>))
      in case limiter_call len req' peer rd s of None \<Rightarrow> rest | Some c \<Rightarrow> (c, r \<noteq> Skipped) # rest)"

lemma poll_calls_run:
  "gate_run rate_check (map fst (poll_calls log2 gps req evs s)) (rate_limiter s)
    = (map snd (poll_calls log2 gps req evs s), rate_limiter (snd (snd (poll_loop log2 gps req evs s))))"
proof (induction log2 gps req evs s rule: poll_calls.induct)
  case (4 log2 gps req bytes peer rd evs s)
  obtain len req' where r: "recv_into req bytes = (len, req')" by fastforce
  obtain o' out s' where h: "handle_datagram log2 gps len req' peer rd s = (o', out, s')"
    by (metis prod_cases3)
  show ?case
    using 4[OF r[symmetric] refl h[symmetric] refl] handle_limiter[OF h]
    by (cases o') (auto simp: r h Let_def split: prod.split option.splits)
qed simp_all



lemma send_ok_not_failed:
  assumes "send_ok rd"
  shows "fst (handle_datagram log2 gps len req peer rd s) \<noteq> Failed"
proof (cases "admitted len req peer s")
  case True
  obtain ok s1 where t: "try_rate_limit (src_ip_v4 peer) (t_limit rd) s = (ok, s1)" by fastforce
  show ?thesis
    using limiter_accepts[OF True, of rd s1 _ log2 gps, OF _ refl] limiter_refuses[OF True, of rd s1 log2 gps] t assms
    by (cases ok) auto
next
  case False
  from not_admitted_silent[OF False, of log2 gps rd] show ?thesis by auto
qed

lemma poll_calls_step:
  assumes "send_ok rd" "recv_into req bytes = (len, req')"
  obtains s'' where "discipline_part s'' = discipline_part s"
    "map fst (poll_calls log2 gps req (Datagram bytes peer rd # evs) s)
      = (case limiter_call len req' peer rd s of None \<Rightarrow> [] | Some c \<Rightarrow> [c])
        @ map fst (poll_calls log2 gps req' evs s'')"
proof -
  obtain o' out s' where h: "handle_datagram log2 gps len req' peer rd s = (o', out, s')"
    by (metis prod_cases3)
  have d: "discipline_part s' = discipline_part s" "o' \<noteq> Failed"
    using handle_part[of log2 gps len req' peer rd s] send_ok_not_failed[OF assms(1), of log2 gps len req' peer s] h
    by simp_all
  show thesis
    by (rule that[of "if o' = Answered then s'\<lparr>served := served s' + 1\<rparr> else s'"])
      (use d in \<open>cases o'; simp add: assms(2) h Let_def split: option.split\<close>)+
qed

definition later_readings :: readings where
  "later_readings = no_readings\<lparr>t_limit := 2500000\<rparr>"


end
