(* ===== verification/Server.thy ===== *)
theory Server
  imports Ntp_Poll
begin

text \<open>
  The NTP server as a state machine: the events that change it (configuration, RTC seed, GPS
  time, PPS pulse, a poll of the socket) as a step relation, the states reachable by a history of
  events, and what holds in all of them. The operations are those of \<open>Discipline\<close> and
  \<open>Ntp_Poll\<close>; nothing else writes the server state.
\<close>

section \<open>Steps and runs\<close>

datatype server_event =
    Set_Acl acl
  | Boot_Acl string
  | Set_Leap u8
  | Seed i64 i64
  | Gps_Update i64 i64
  | Pulse "u32 option" i64
  | Poll bool "recv_event list"

inductive server_step ::
    "i64 \<Rightarrow> (fp \<Rightarrow> fp) \<Rightarrow> ntp_server \<Rightarrow> server_event \<Rightarrow> ntp_server \<Rightarrow> bool" for fudge log2 where
  set_acl: "server_step fudge log2 s (Set_Acl a) (set_acl a s)"
| boot_acl: "server_step fudge log2 s (Boot_Acl cidr) (apply_boot_acl cidr s)"
| set_leap: "server_step fudge log2 s (Set_Leap li) (set_leap_indicator li s)"
| seed: "server_step fudge log2 s (Seed utc t) (seed_utc_seconds utc t s)"
| gps: "server_step fudge log2 s (Gps_Update utc t) (update_gps_utc_seconds utc t s)"
| pulse: "server_step fudge log2 s (Pulse i e) (observe_pps_pulse fudge i e s)"
| poll: "poll log2 gps_fix evs s = (out, res, s') \<Longrightarrow> server_step fudge log2 s (Poll gps_fix evs) s'"

inductive_cases server_stepE: "server_step fudge log2 s e s'"

inductive_simps server_step_simps:
  "server_step fudge log2 s (Set_Acl a) s'" "server_step fudge log2 s (Boot_Acl cidr) s'"
  "server_step fudge log2 s (Set_Leap li) s'" "server_step fudge log2 s (Seed utc t) s'"
  "server_step fudge log2 s (Gps_Update utc t) s'" "server_step fudge log2 s (Pulse i e) s'"
  "server_step fudge log2 s (Poll gps_fix evs) s'"

text \<open>The states of a server after a history of events, oldest first.\<close>

inductive server_run :: "i64 \<Rightarrow> (fp \<Rightarrow> fp) \<Rightarrow> server_event list \<Rightarrow> ntp_server \<Rightarrow> bool" for fudge log2 where
  start: "server_run fudge log2 [] from_socket"
| step: "server_run fudge log2 h s \<Longrightarrow> server_step fudge log2 s e s' \<Longrightarrow> server_run fudge log2 (h @ [e]) s'"

lemma poll_result:
  assumes "poll log2 gps_fix evs s = (out, res, s')"
  shows "discipline_part s' = discipline_part s" "server_inv s \<Longrightarrow> server_inv s'"
  using poll_frame[of log2 gps_fix "replicate NTP_MAX_PACKET_LEN 0" evs s] assms by (auto simp: poll_def)

lemma step_preserves_inv [step_inv]:
  assumes "server_step fudge log2 s e s'" "server_inv s"
  shows "server_inv s'"
  using assms
  by (cases rule: server_step.cases) (auto simp: apply_boot_acl_def intro: step_inv poll_result(2))

lemma run_inv: "server_run fudge log2 h s \<Longrightarrow> server_inv s"
  by (induction rule: server_run.induct) (auto intro: from_socket_inv step_inv)

section \<open>Invariants of every run\<close>

text \<open>C1: Whatever order RTC, GPS, PPS, configuration and packets arrive in, the frequency estimate is
  a finite number within 500 ppm, the smoothed jitter and processing delay are finite and not
  negative, the leap value set is at most 2, the limiter keeps one slot per client, and a lock
  implies an anchor and a GPS time received.\<close>

theorem run_invariant:
  assumes "server_run fudge log2 h s"
  shows "is_fin (freq_ppm s) \<and> \<bar>fval (freq_ppm s)\<bar> \<le> 500 \<and>
    is_fin (pps_jitter_us s) \<and> 0 \<le> fval (pps_jitter_us s) \<and> fval (pps_jitter_us s) \<le> 200000 \<and>
    is_fin (proc_delay_us s) \<and> 0 \<le> fval (proc_delay_us s) \<and> pending_leap s \<le> 2 \<and>
    rate_inv (rate_limiter s) \<and>
    (if pps_locked s then clock_anchor s \<noteq> None \<and> last_pps_monotonic_us s \<noteq> None \<and>
       last_gps_utc_seconds s \<noteq> None else last_pps_monotonic_us s = None \<and> pending_gps_step s = None)"
  using run_inv[OF assms] by (auto simp: server_inv_def good_freq_def good_mag_def)

theorem run_invariant_witness:
  "\<bar>fval (freq_ppm (observe_pps_pulse 1 None 1500000 (update_gps_utc_seconds 1750000000 1000000 from_socket)))\<bar> \<le> 500"
proof -
  have "server_run 1 id [Gps_Update 1750000000 1000000] (update_gps_utc_seconds 1750000000 1000000 from_socket)"
    using server_run.step[OF server_run.start server_step.gps] by simp
  from server_run.step[OF this server_step.pulse, of None 1500000] run_invariant show ?thesis by blast
qed

section \<open>Without GPS\<close>

definition first_seed :: "server_event list \<Rightarrow> clock_anchor option" where
  "first_seed h = (case List.map_filter
      (\<lambda>e. case e of Seed utc t \<Rightarrow> Some \<lparr>unix_seconds = utc, monotonic_us = t\<rparr> | _ \<Rightarrow> None) h of
    [] \<Rightarrow> None | a # _ \<Rightarrow> Some a)"

lemma first_seed_append:
  "first_seed (h @ [e]) = (case first_seed h of Some a \<Rightarrow> Some a
     | None \<Rightarrow> (case e of Seed utc t \<Rightarrow> Some \<lparr>unix_seconds = utc, monotonic_us = t\<rparr> | _ \<Rightarrow> None))"
  by (auto simp: first_seed_def List.map_filter_def split: list.splits server_event.splits)

definition is_gps :: "server_event \<Rightarrow> bool" where
  "is_gps e = (case e of Gps_Update _ _ \<Rightarrow> True | _ \<Rightarrow> False)"

lemma observe_no_gps:
  assumes "last_gps_utc_update_us s = None" "\<not> pps_locked s"
  shows "observe_pps_pulse fudge i e s = s"
  using assms by (auto simp: observe_pps_pulse_def gps_second_at_edge_def gps_time_fresh_def split: option.split)

lemma no_gps_run:
  assumes "server_run fudge log2 h s" "\<not> list_ex is_gps h"
  shows "last_gps_utc_update_us s = None \<and> \<not> pps_locked s \<and> clock_anchor s = first_seed h"
  using assms
proof (induction rule: server_run.induct)
  case start show ?case by (simp add: from_socket_def first_seed_def List.map_filter_def)
next
  case (step h s e s')
  then have IH: "last_gps_utc_update_us s = None" "\<not> pps_locked s" "clock_anchor s = first_seed h"
    and e: "\<not> is_gps e" by auto
  from step.hyps(2) show ?case
  proof (cases rule: server_step.cases)
    case (pulse i t) then show ?thesis using observe_no_gps[OF IH(1,2)] IH
      by (simp add: first_seed_append split: option.split)
  next
    case (poll gps_fix evs out res)
    then show ?thesis using IH discipline_part_fields(1,3,9)[OF poll_result(1)[OF poll(2)]]
      by (simp add: first_seed_append split: option.split)
  qed (use IH e in \<open>auto simp: first_seed_append set_acl_def apply_boot_acl_def set_leap_indicator_def
        seed_utc_seconds_def is_gps_def split: option.split\<close>)
qed

text \<open>C15: A server that has received no GPS time is never more than a bootstrap clock: whatever pulses,
  seeds, requests and settings it saw, it is at stratum 16 with the alarm leap value, its anchor is the
  first RTC seed, and later seeds change nothing.\<close>

theorem bootstrap_only_without_gps:
  assumes "server_run fudge log2 h s" "\<not> list_ex is_gps h"
  shows "clock_anchor s = first_seed h \<and> \<not> pps_locked s \<and>
    (let dp = discipline_params log2' gps_fix now cur wall s in
       dp_stratum dp = 16 \<and> dp_leap dp = 3 \<and> dp_state dp = Unsync)"
  using no_gps_run[OF assms] never_locked_unsync[OF run_inv[OF assms(1)], of log2' gps_fix now cur wall]
  by (simp add: Let_def)

theorem bootstrap_only_without_gps_witness:
  "clock_anchor (observe_pps_pulse 1 (Some 1000000) 9000000 (seed_utc_seconds 1750000000 5 from_socket))
     = Some \<lparr>unix_seconds = 1750000000, monotonic_us = 5\<rparr> \<and>
   dp_stratum (discipline_params id True 9000000 9000000 None
     (observe_pps_pulse 1 (Some 1000000) 9000000 (seed_utc_seconds 1750000000 5 from_socket))) = 16"
proof -
  have "server_run 1 id [Seed 1750000000 5] (seed_utc_seconds 1750000000 5 from_socket)"
    using server_run.step[OF server_run.start server_step.seed] by simp
  from server_run.step[OF this server_step.pulse, of "Some 1000000" 9000000]
  have "server_run 1 id [Seed 1750000000 5, Pulse (Some 1000000) 9000000]
      (observe_pps_pulse 1 (Some 1000000) 9000000 (seed_utc_seconds 1750000000 5 from_socket))" by simp
  from bootstrap_only_without_gps[OF this, of id True 9000000 9000000 None] show ?thesis
    by (simp add: is_gps_def first_seed_def List.map_filter_def Let_def)
qed


section \<open>Confirmation of GPS steps\<close>

text \<open>The pulse \<open>(interval, edge)\<close> is accepted and GPS puts its second \<open>d\<close> off the count.\<close>

definition shows_step :: "i64 \<Rightarrow> ntp_server \<Rightarrow> u32 option \<Rightarrow> i64 \<Rightarrow> i64 \<Rightarrow> bool" where
  "shows_step fudge s i edge d \<longleftrightarrow> (\<exists>v a g. i = Some v \<and> pulse_accepted v a s \<and>
     gps_second_at_edge fudge edge s = Some g \<and>
     (let p = predicted_second edge a (s\<lparr>freq_ppm := blend_freq (uint v - 1000000) (freq_ppm s)\<rparr>)
      in g \<noteq> p \<and> d = wrap_i64 (g - p)))"

lemma accept_pending:
  assumes "pulse_accepted v a s" "s' = accept_pulse fudge (uint v - 1000000) edge a s"
  shows "last_pps_monotonic_us s' = Some edge"
    "pending_gps_step s' = Some d \<Longrightarrow> shows_step fudge s (Some v) edge d"
    "anchor_step_count s' \<noteq> anchor_step_count s \<Longrightarrow>
       \<exists>d. pending_gps_step s = Some d \<and> shows_step fudge s (Some v) edge d"
proof -
  let ?s = "s\<lparr>freq_ppm := blend_freq (uint v - 1000000) (freq_ppm s)\<rparr>"
  let ?p = "predicted_second edge a ?s"
  obtain p n where f: "snd (pulse_second fudge edge a ?s) = ?s\<lparr>pending_gps_step := p, anchor_step_count := n\<rparr>"
    by (rule pulse_second_frame)
  then obtain secs where ps: "pulse_second fudge edge a ?s = (secs, ?s\<lparr>pending_gps_step := p, anchor_step_count := n\<rparr>)"
    by (metis prod.collapse)
  have fields: "last_pps_monotonic_us s' = Some edge" "pending_gps_step s' = p" "anchor_step_count s' = n"
    by (simp_all add: assms(2) accept_pulse_def ps Let_def)
  have q: "pending_gps_step (snd (pulse_second fudge edge a ?s)) = p"
    "anchor_step_count (snd (pulse_second fudge edge a ?s)) = n" by (simp_all add: f)
  show "last_pps_monotonic_us s' = Some edge" by (rule fields)
  show "shows_step fudge s (Some v) edge d" if "pending_gps_step s' = Some d"
    using q(1) that fields(2) assms(1)
    by (auto simp: pulse_second_def shows_step_def Let_def split: option.splits if_splits)
  show "\<exists>d. pending_gps_step s = Some d \<and> shows_step fudge s (Some v) edge d"
    if "anchor_step_count s' \<noteq> anchor_step_count s"
    using q(2) that fields(3) assms(1)
    by (auto simp: pulse_second_def shows_step_def Let_def split: option.splits if_splits)
qed

lemma observe_other:
  assumes "\<nexists>v a. i = Some v \<and> pulse_accepted v a s"
  shows "observe_pps_pulse fudge i edge s = s \<or> (\<exists>n. observe_pps_pulse fudge i edge s = lock_anchor n edge s) \<or>
    (\<exists>n. observe_pps_pulse fudge i edge s = s\<lparr>pps_glitch_count := n\<rparr>)"
proof (cases i)
  case None then show ?thesis by (auto simp: observe_pps_pulse_def split: option.split)
next
  case (Some v)
  show ?thesis
  proof (cases "if pps_locked s then clock_anchor s else None")
    case None with Some show ?thesis by (auto simp: observe_pps_pulse_def split: option.split)
  next
    case (Some a)
    then have "pps_locked s" "clock_anchor s = Some a" by (simp_all split: if_splits)
    with assms \<open>i = Some v\<close> show ?thesis by (auto simp: observe_pps_pulse_def pulse_accepted_def Let_def)
  qed
qed

lemma observe_pending:
  assumes "s' = observe_pps_pulse fudge i edge s"
  shows "pending_gps_step s' = Some d \<Longrightarrow>
      shows_step fudge s i edge d \<and> last_pps_monotonic_us s' = Some edge \<or>
      pending_gps_step s = Some d \<and> last_pps_monotonic_us s' = last_pps_monotonic_us s"
    "anchor_step_count s' \<noteq> anchor_step_count s \<Longrightarrow>
      \<exists>d. pending_gps_step s = Some d \<and> shows_step fudge s i edge d"
proof -
  consider (acc) v a where "i = Some v" "pulse_accepted v a s"
    | (lock) n where "s' = lock_anchor n edge s" | (glitch) n where "s' = s\<lparr>pps_glitch_count := n\<rparr>" | (same) "s' = s"
    using observe_other[of i s fudge edge] assms by blast
  note cases = this
  show "shows_step fudge s i edge d \<and> last_pps_monotonic_us s' = Some edge \<or>
      pending_gps_step s = Some d \<and> last_pps_monotonic_us s' = last_pps_monotonic_us s"
    if "pending_gps_step s' = Some d"
    using cases
  proof cases
    case acc
    then have e: "s' = accept_pulse fudge (uint v - 1000000) edge a s" using assms by (simp add: observe_accepted)
    show ?thesis using accept_pending(1)[OF acc(2) e] accept_pending(2)[OF acc(2) e that] acc(1) by blast
  qed (use that in \<open>simp_all add: lock_anchor_def\<close>)
  show "\<exists>d. pending_gps_step s = Some d \<and> shows_step fudge s i edge d"
    if "anchor_step_count s' \<noteq> anchor_step_count s"
    using cases
  proof cases
    case acc
    then have e: "s' = accept_pulse fudge (uint v - 1000000) edge a s" using assms by (simp add: observe_accepted)
    show ?thesis using accept_pending(3)[OF acc(2) e that] acc(1) by blast
  qed (use that in \<open>simp_all add: lock_anchor_def\<close>)
qed

definition pending_explained :: "i64 \<Rightarrow> (fp \<Rightarrow> fp) \<Rightarrow> server_event list \<Rightarrow> ntp_server \<Rightarrow> i64 \<Rightarrow> bool" where
  "pending_explained fudge log2 h s d \<longleftrightarrow> (\<exists>h1 h2 i e s0. h = h1 @ Pulse i e # h2 \<and>
     server_run fudge log2 h1 s0 \<and> shows_step fudge s0 i e d \<and> last_pps_monotonic_us s = Some e)"

lemma pending_explained_later:
  "pending_explained fudge log2 h s d \<Longrightarrow> last_pps_monotonic_us s' = last_pps_monotonic_us s \<Longrightarrow>
    pending_explained fudge log2 (h @ [e]) s' d"
  unfolding pending_explained_def by fastforce

lemma run_pending:
  assumes "server_run fudge log2 h s" "pending_gps_step s = Some d"
  shows "pending_explained fudge log2 h s d"
  using assms
proof (induction rule: server_run.induct)
  case start then show ?case by (simp add: from_socket_def)
next
  case (step h s e s')
  from step.hyps(2) show ?case
  proof (cases rule: server_step.cases)
    case (pulse i t)
    from observe_pending(1)[OF pulse(2) step.prems] show ?thesis
    proof
      assume "shows_step fudge s i t d \<and> last_pps_monotonic_us s' = Some t"
      then show ?thesis using step.hyps(1) pulse(1) unfolding pending_explained_def by fastforce
    next
      assume "pending_gps_step s = Some d \<and> last_pps_monotonic_us s' = last_pps_monotonic_us s"
      then show ?thesis using step.IH pending_explained_later by blast
    qed
  next
    case (poll gps_fix evs out res)
    then show ?thesis using step.IH step.prems discipline_part_fields(6,8)[OF poll_result(1)[OF poll(2)]]
      by (auto intro: pending_explained_later)
  qed (use step.IH step.prems in \<open>auto simp: set_acl_def apply_boot_acl_def set_leap_indicator_def
        seed_utc_seconds_def update_gps_utc_seconds_def Let_def intro!: pending_explained_later
        split: if_splits\<close>)
qed


text \<open>Polling for packets never touches the clock: anchor, frequency, lock, GPS record, leap and
  PPS statistics are the same after any poll, and so is the time served.\<close>

theorem poll_keeps_clock:
  "discipline_part (snd (snd (poll log2 gps_fix evs s))) = discipline_part s \<and>
   current_ntp_timestamp now wall (snd (snd (poll log2 gps_fix evs s))) = current_ntp_timestamp now wall s"
proof -
  let ?s = "snd (snd (poll log2 gps_fix evs s))"
  have d: "discipline_part ?s = discipline_part s" unfolding poll_def using poll_frame by blast
  have "corrected_elapsed_us raw ?s = corrected_elapsed_us raw s" for raw
    using discipline_part_fields(4)[OF d] by (simp add: corrected_elapsed_us_def)
  then have "current_ntp_timestamp now wall ?s = current_ntp_timestamp now wall s"
    using discipline_part_fields(1)[OF d] by (simp add: current_ntp_timestamp_def split: option.split)
  with d show ?thesis by blast
qed

text \<open>A run that takes a leap second: GPS moves one second ahead between two edges.\<close>

definition leap_run :: ntp_server where
  "leap_run = update_gps_utc_seconds 1750000002 8300000
     (observe_pps_pulse 1 None 8000000 (update_gps_utc_seconds 1750000000 7300000 from_socket))"

lemma leap_run_fields:
  "clock_anchor leap_run = Some \<lparr>unix_seconds = 1750000001, monotonic_us = 8000000\<rparr>"
  "pps_locked leap_run" "freq_ppm leap_run = Num 0" "pending_gps_step leap_run = None"
  "pps_has_sample leap_run = False" "anchor_step_count leap_run = 0"
  "last_gps_utc_seconds leap_run = Some 1750000002" "last_gps_utc_update_us leap_run = Some 8300000"
proof -
  have g: "gps_second_at_edge 1 8000000 (update_gps_utc_seconds 1750000000 7300000 from_socket) = Some 1750000001"
    using gps_second_at_edge_eq[of "update_gps_utc_seconds 1750000000 7300000 from_socket" 1750000000 7300000 8000000 1]
    by (simp add: update_gps_utc_seconds_def Let_def from_socket_def GPS_STALE_THRESHOLD_US_def MICROS_PER_SEC_def
        sat_add_def sat_sub_def sat_i64_def i64_min_def i64_max_def)
  show "clock_anchor leap_run = Some \<lparr>unix_seconds = 1750000001, monotonic_us = 8000000\<rparr>"
    "pps_locked leap_run" "freq_ppm leap_run = Num 0" "pending_gps_step leap_run = None"
    "pps_has_sample leap_run = False" "anchor_step_count leap_run = 0"
    "last_gps_utc_seconds leap_run = Some 1750000002" "last_gps_utc_update_us leap_run = Some 8300000"
    unfolding leap_run_def observe_pps_pulse_def option.case g
    by (simp_all add: update_gps_utc_seconds_def lock_anchor_def from_socket_def)
qed


end
