(* ===== verification/Pps.thy ===== *)
theory Pps
  imports Server
begin

text \<open>
  PPS capture (src/src/pps.rs). \<open>PpsMonitor\<close> shares an edge timestamp and a sequence counter
  between the GPIO interrupt handler (\<open>record_edge\<close>) and the main loop (\<open>snapshot\<close>, \<open>poll\<close>). The
  handler and the reader are interleaved one atomic access at a time; the acquire and release
  orderings of the code give the reader this sequential view of the two variables. The retry loop
  of \<open>snapshot\<close> is the reader going back to its first load.
\<close>

section \<open>The monitor and its polling\<close>

record pps_poll_state =
  last_count :: u32
  last_edge_us :: u64

datatype pps_event = First i64 | Delta u32 i64

definition pps_poll_default :: pps_poll_state where
  "pps_poll_default = \<lparr>last_count = 0, last_edge_us = 0\<rparr>"

definition pulse_count :: "pps_poll_state \<Rightarrow> u32" where
  "pulse_count st = last_count st"

definition pps_delta_us :: "u64 \<Rightarrow> u64 \<Rightarrow> u32" where
  "pps_delta_us current_us previous_us = ucast (current_us - previous_us)"

text \<open>\<open>poll\<close>, given the pair its snapshot returned.\<close>

definition pps_poll :: "u32 \<times> u64 \<Rightarrow> pps_poll_state \<Rightarrow> pps_event option \<times> pps_poll_state" where
  "pps_poll snap st =
     (let (current_count, now_us) = snap in
      if current_count \<le> last_count st then (None, st)
      else let edge_us = sint now_us;
               event = (if 0 < last_edge_us st
                        then Delta (pps_delta_us now_us (last_edge_us st)) edge_us
                        else First edge_us)
           in (Some event, st\<lparr>last_count := current_count, last_edge_us := now_us\<rparr>))"

section \<open>The seqlock\<close>

text \<open>
  The interrupt handler and the polling task as interleaved atomic steps on the two shared
  atomics. The handler is between its three memory operations in \<open>Odd\<close> and \<open>Stored\<close>; the
  reader is before its first load, its timestamp load, its confirming load, or done. The list
  of completed edges is a ghost: no step of the code reads it.
\<close>

datatype isr_pc = Idle | Odd u64 | Stored

datatype reader_pc = R_Load1 | R_Edge u32 | R_Confirm u32 u64 | R_Done u32 u64

record pps_sys =
  mem_edge :: u64
  mem_seq :: u32
  isr :: isr_pc
  reader :: reader_pc
  edges :: "u64 list"

definition pps_new :: pps_sys where
  "pps_new = \<lparr>mem_edge = 0, mem_seq = 0, isr = Idle, reader = R_Load1, edges = []\<rparr>"

definition isr_enter :: "u64 \<Rightarrow> pps_sys \<Rightarrow> pps_sys" where
  "isr_enter now_us m = m\<lparr>mem_seq := mem_seq m + 1, isr := Odd now_us\<rparr>"

definition isr_store :: "u64 \<Rightarrow> pps_sys \<Rightarrow> pps_sys" where
  "isr_store now_us m = m\<lparr>mem_edge := now_us, isr := Stored\<rparr>"

definition isr_leave :: "pps_sys \<Rightarrow> pps_sys" where
  "isr_leave m = m\<lparr>mem_seq := mem_seq m + 1, isr := Idle, edges := edges m @ [mem_edge m]\<rparr>"

text \<open>\<open>record_edge\<close>, when nothing interleaves.\<close>

definition record_edge :: "u64 \<Rightarrow> pps_sys \<Rightarrow> pps_sys" where
  "record_edge now_us m = isr_leave (isr_store now_us (isr_enter now_us m))"

definition reader_step :: "pps_sys \<Rightarrow> pps_sys" where
  "reader_step m = (case reader m of
       R_Load1 \<Rightarrow> if mem_seq m AND 1 = 1 then m else m\<lparr>reader := R_Edge (mem_seq m)\<rparr>
     | R_Edge s1 \<Rightarrow> m\<lparr>reader := R_Confirm s1 (mem_edge m)\<rparr>
     | R_Confirm s1 e \<Rightarrow>
         if s1 = mem_seq m then m\<lparr>reader := R_Done (drop_bit 1 s1) e\<rparr> else m\<lparr>reader := R_Load1\<rparr>
     | R_Done c e \<Rightarrow> m)"

inductive pps_step :: "pps_sys \<Rightarrow> pps_sys \<Rightarrow> bool" where
  enter: "isr m = Idle \<Longrightarrow> pps_step m (isr_enter now_us m)"
| store: "isr m = Odd now_us \<Longrightarrow> pps_step m (isr_store now_us m)"
| leave: "isr m = Stored \<Longrightarrow> pps_step m (isr_leave m)"
| read: "pps_step m (reader_step m)"
| again: "reader m = R_Done c e \<Longrightarrow> pps_step m (m\<lparr>reader := R_Load1\<rparr>)"

inductive_cases pps_stepE: "pps_step m m'"

inductive pps_reach :: "pps_sys \<Rightarrow> bool" where
  init: "pps_reach pps_new"
| step: "pps_reach m \<Longrightarrow> pps_step m m' \<Longrightarrow> pps_reach m'"

definition edge_at :: "u64 list \<Rightarrow> nat \<Rightarrow> u64" where
  "edge_at es n = (if n = 0 then 0 else es ! (n - 1))"

definition pps_inv :: "pps_sys \<Rightarrow> bool" where
  "pps_inv m \<longleftrightarrow>
     unat (mem_seq m) = 2 * length (edges m) + (if isr m = Idle then 0 else 1) \<and>
     (isr m \<noteq> Stored \<longrightarrow> mem_edge m = edge_at (edges m) (length (edges m))) \<and>
     (case reader m of
        R_Load1 \<Rightarrow> True
      | R_Edge s1 \<Rightarrow> \<exists>n \<le> length (edges m). unat s1 = 2 * n
      | R_Confirm s1 e \<Rightarrow> \<exists>n \<le> length (edges m). unat s1 = 2 * n \<and>
          (mem_seq m = s1 \<longrightarrow> e = edge_at (edges m) n)
      | R_Done c e \<Rightarrow> \<exists>n \<le> length (edges m). unat c = n \<and> e = edge_at (edges m) n)"

lemma edge_at_append: "n \<le> length es \<Longrightarrow> edge_at (es @ [e]) n = edge_at es n"
  by (auto simp: edge_at_def nth_append)

lemma edge_at_last [simp]: "edge_at (es @ [e]) (Suc (length es)) = e"
  by (simp add: edge_at_def)

lemma unat_inc:
  fixes w :: u32
  assumes "unat w + 1 < 2 ^ 32"
  shows "unat (w + 1) = unat w + 1"
  using assms by (simp add: unat_word_ariths)

lemma odd_word: "w AND 1 = (1 :: u32) \<longleftrightarrow> odd (unat w)"
  by (simp add: and_one_eq word_unat_eq_iff unat_mod_distrib odd_iff_mod_2_eq_one)

lemma unat_half: "unat (drop_bit 1 w :: u32) = unat w div 2"
  by (simp add: unsigned_drop_bit_eq drop_bit_eq_div take_bit_nat_eq_self)
    (simp add: unat_div_distrib)

lemma isr_steps_inv:
  assumes "pps_inv m" "length (edges m) < 2 ^ 31"
  shows "isr m = Idle \<Longrightarrow> pps_inv (isr_enter t m)"
    "isr m = Odd t \<Longrightarrow> pps_inv (isr_store t m)"
    "isr m = Stored \<Longrightarrow> Suc (length (edges m)) < 2 ^ 31 \<Longrightarrow> pps_inv (isr_leave m)"
proof -
  have seq: "unat (mem_seq m) = 2 * length (edges m) + (if isr m = Idle then 0 else 1)"
    using assms(1) by (simp add: pps_inv_def)
  show "pps_inv (isr_enter t m)" if "isr m = Idle"
  proof -
    have inc: "unat (mem_seq m + 1) = unat (mem_seq m) + 1" using seq assms(2) that by (intro unat_inc) auto
    have "mem_seq m + 1 \<noteq> s1" if "unat s1 = 2 * n" for s1 n
    proof
      assume "mem_seq m + 1 = s1"
      then have "2 * length (edges m) + 1 = 2 * n" using inc seq \<open>isr m = Idle\<close> that by simp
      then show False by presburger
    qed
    then show ?thesis using assms(1) inc seq that
      by (auto simp: pps_inv_def isr_enter_def split: reader_pc.splits)
  qed
  show "pps_inv (isr_store t m)" if "isr m = Odd t"
  proof -
    have "mem_seq m \<noteq> s1" if "unat s1 = 2 * n" for s1 n
    proof
      assume "mem_seq m = s1"
      then have "2 * length (edges m) + 1 = 2 * n" using seq \<open>isr m = Odd t\<close> that by simp
      then show False by presburger
    qed
    then show ?thesis using assms(1) seq that
      by (auto simp: pps_inv_def isr_store_def split: reader_pc.splits)
  qed
  show "pps_inv (isr_leave m)" if "isr m = Stored" "Suc (length (edges m)) < 2 ^ 31"
  proof -
    have inc: "unat (mem_seq m + 1) = unat (mem_seq m) + 1" using seq that by (intro unat_inc) auto
    have ne: "mem_seq m + 1 \<noteq> s1" if "unat s1 = 2 * n" "n \<le> length (edges m)" for s1 n
      using inc seq \<open>isr m = Stored\<close> that by auto
    have "\<exists>n \<le> Suc (length (edges m)). P n" if "\<exists>n \<le> length (edges m). P n" for P
      using that le_SucI by blast
    then show ?thesis using assms(1) inc seq that ne
      by (auto simp: pps_inv_def isr_leave_def edge_at_append split: reader_pc.splits)
  qed
qed

lemma reader_step_inv:
  assumes "pps_inv m"
  shows "pps_inv (reader_step m)"
proof (cases "reader m")
  case R_Load1
  have "\<exists>n \<le> length (edges m). unat (mem_seq m) = 2 * n" if "mem_seq m AND 1 \<noteq> 1"
    using assms that by (auto simp: pps_inv_def odd_word split: if_splits)
  with R_Load1 assms show ?thesis by (auto simp: pps_inv_def reader_step_def)
next
  case (R_Edge s1)
  then obtain n where n: "n \<le> length (edges m)" "unat s1 = 2 * n" using assms by (auto simp: pps_inv_def)
  have "mem_edge m = edge_at (edges m) n" if "mem_seq m = s1"
  proof -
    have "even (unat (mem_seq m))" using n(2) that by simp
    then have "isr m = Idle" using assms by (auto simp: pps_inv_def split: if_splits)
    then show ?thesis using assms n that by (auto simp: pps_inv_def)
  qed
  with R_Edge n assms show ?thesis by (auto simp: pps_inv_def reader_step_def)
next
  case (R_Confirm s1 e)
  then obtain n where n: "n \<le> length (edges m)" "unat s1 = 2 * n" "mem_seq m = s1 \<Longrightarrow> e = edge_at (edges m) n"
    using assms by (auto simp: pps_inv_def)
  have "unat (drop_bit 1 s1) = n" unfolding unat_half n(2) by simp
  with R_Confirm n assms show ?thesis by (auto simp: pps_inv_def reader_step_def)
next
  case (R_Done c e)
  with assms show ?thesis by (simp add: reader_step_def)
qed

lemma edges_grow: "pps_step m m' \<Longrightarrow> length (edges m) \<le> length (edges m')"
  by (cases rule: pps_step.cases)
    (auto simp: isr_enter_def isr_store_def isr_leave_def reader_step_def split: reader_pc.split)

lemma pps_reach_inv: "pps_reach m \<Longrightarrow> length (edges m) < 2 ^ 31 \<Longrightarrow> pps_inv m"
proof (induction rule: pps_reach.induct)
  case init
  show ?case by (simp add: pps_inv_def pps_new_def edge_at_def)
next
  case (step m m')
  then have l: "length (edges m) < 2 ^ 31" using edges_grow[OF step.hyps(2)] by simp
  note i = step.IH[OF l]
  from step.hyps(2) show ?case
    using isr_steps_inv[OF i l] reader_step_inv[OF i] i
    using step.prems by (cases rule: pps_step.cases) (auto simp: pps_inv_def isr_leave_def)
qed

text \<open>C11: However the interrupt handler and the polling task interleave, a completed snapshot is the
  number of some completed pulse together with the timestamp of exactly that pulse, never a torn or
  mixed pair, for up to 2^31 pulses (68 years at one per second).\<close>

theorem seqlock_snapshot:
  assumes "pps_reach m" "length (edges m) < 2 ^ 31" "reader m = R_Done c e"
  shows "unat c \<le> length (edges m) \<and> e = edge_at (edges m) (unat c)"
  using pps_reach_inv[OF assms(1,2)] assms(3) by (auto simp: pps_inv_def)

text \<open>With the handler at rest, three reads complete a snapshot of the newest pulse: a retry
  costs one interrupt, not more.\<close>

theorem snapshot_completes:
  assumes "pps_reach m" "length (edges m) < 2 ^ 31" "isr m = Idle" "reader m = R_Load1"
  shows "\<exists>c. reader (reader_step (reader_step (reader_step m))) =
      R_Done c (edge_at (edges m) (length (edges m))) \<and> unat c = length (edges m)"
proof -
  have i: "unat (mem_seq m) = 2 * length (edges m)" "mem_edge m = edge_at (edges m) (length (edges m))"
    using pps_reach_inv[OF assms(1,2)] assms(3) by (simp_all add: pps_inv_def)
  then have odd: "\<not> mem_seq m AND 1 = 1" by (simp add: odd_word)
  have half: "unat (drop_bit 1 (mem_seq m)) = length (edges m)" unfolding unat_half i(1) by simp
  show ?thesis
    by (intro exI[of _ "drop_bit 1 (mem_seq m)"] conjI half)
      (use assms(4) i(2) odd in \<open>simp add: reader_step_def\<close>)
qed

definition one_pulse :: pps_sys where "one_pulse = record_edge 5000000 pps_new"

lemma one_pulse_reach: "pps_reach one_pulse"
proof -
  have "pps_reach (isr_enter 5000000 pps_new)"
    by (rule pps_reach.step[OF pps_reach.init pps_step.enter]) (simp add: pps_new_def)
  then have "pps_reach (isr_store 5000000 (isr_enter 5000000 pps_new))"
    by (rule pps_reach.step[OF _ pps_step.store]) (simp add: isr_enter_def)
  then show ?thesis unfolding one_pulse_def record_edge_def
    by (rule pps_reach.step[OF _ pps_step.leave]) (simp add: isr_store_def)
qed

theorem snapshot_completes_witness:
  "\<exists>c. reader (reader_step (reader_step (reader_step one_pulse))) = R_Done c 5000000 \<and> unat c = 1"
  using snapshot_completes[OF one_pulse_reach]
  by (simp add: one_pulse_def record_edge_def pps_new_def isr_enter_def isr_store_def isr_leave_def edge_at_def)

theorem seqlock_snapshot_witness:
  "\<exists>c e. reader (reader_step (reader_step (reader_step one_pulse))) = R_Done c e \<and> unat c \<le> 1 \<and>
     e = edge_at [5000000] (unat c)"
proof -
  let ?m = "reader_step (reader_step (reader_step one_pulse))"
  have r: "pps_reach ?m"
    by (intro pps_reach.step[OF _ pps_step.read] one_pulse_reach)
  have e: "edges ?m = [5000000]" "reader ?m = R_Done 1 5000000"
    by (simp_all add: one_pulse_def record_edge_def pps_new_def isr_enter_def isr_store_def isr_leave_def reader_step_def)
  show ?thesis using seqlock_snapshot[OF r _ e(2)] e by auto
qed


section \<open>Events reported to the main loop\<close>

text \<open>The poll state after pulse \<open>n\<close> of the edges \<open>es\<close> was reported; 0 for none yet.\<close>

definition reported :: "u64 list \<Rightarrow> nat \<Rightarrow> pps_poll_state \<Rightarrow> bool" where
  "reported es n st \<longleftrightarrow> n \<le> length es \<and> unat (last_count st) = n \<and> last_edge_us st = edge_at es n"

lemma reported_start: "reported es 0 pps_poll_default"
  by (simp add: reported_def pps_poll_default_def edge_at_def)

lemma pps_poll_event:
  assumes "reported es n st" "list_all (\<lambda>e. 0 < e) es" "unat c \<le> length es"
  shows "pps_poll (c, edge_at es (unat c)) st =
    (if unat c \<le> n then (None, st)
     else (Some (if n = 0 then First (sint (edge_at es (unat c)))
                 else Delta (pps_delta_us (edge_at es (unat c)) (edge_at es n)) (sint (edge_at es (unat c)))),
           \<lparr>last_count = c, last_edge_us = edge_at es (unat c)\<rparr>))"
proof -
  have "c \<le> last_count st \<longleftrightarrow> unat c \<le> n" using assms(1) by (simp add: reported_def word_le_nat_alt)
  moreover have "0 < last_edge_us st \<longleftrightarrow> n \<noteq> 0"
    using assms(1,2) by (auto simp: reported_def edge_at_def list_all_length)
  ultimately show ?thesis using assms(1) by (auto simp: pps_poll_def reported_def Let_def)
qed

text \<open>C23: Polling with any completed snapshot reports a pulse at most once and in order: nothing for
  a pulse already reported; the first pulse without an interval; every later one with its own edge time
  and the distance, modulo 2^32 microseconds, to the pulse reported before it.\<close>

theorem pps_poll_reports:
  assumes "pps_reach m" "length (edges m) < 2 ^ 31" "reader m = R_Done c e"
    and "list_all (\<lambda>e. 0 < e) (edges m)" "reported (edges m) n st"
  shows "case pps_poll (c, e) st of (ev, st') \<Rightarrow>
    reported (edges m) (max n (unat c)) st' \<and>
    ev = (if unat c \<le> n then None
          else if n = 0 then Some (First (sint (edges m ! (unat c - 1))))
          else Some (Delta (ucast (edges m ! (unat c - 1) - edges m ! (n - 1))) (sint (edges m ! (unat c - 1)))))"
proof -
  have i: "unat c \<le> length (edges m)" "e = edge_at (edges m) (unat c)"
    using pps_reach_inv[OF assms(1,2)] assms(3) by (auto simp: pps_inv_def)
  show ?thesis
    using pps_poll_event[OF assms(5,4) i(1)] i assms(5)
    by (auto simp: reported_def edge_at_def pps_delta_us_def max_def)
qed

theorem pps_poll_reports_witness:
  "\<exists>c e. reader (reader_step (reader_step (reader_step one_pulse))) = R_Done c e \<and>
     fst (pps_poll (c, e) pps_poll_default) = Some (First 5000000)"
proof -
  let ?m = "reader_step (reader_step (reader_step one_pulse))"
  have r: "pps_reach ?m"
    by (intro pps_reach.step[OF _ pps_step.read] one_pulse_reach)
  have e: "edges ?m = [5000000]" "reader ?m = R_Done 1 5000000"
    by (simp_all add: one_pulse_def record_edge_def pps_new_def isr_enter_def isr_store_def isr_leave_def reader_step_def)
  show ?thesis
    using pps_poll_reports[OF r _ e(2), of 0 pps_poll_default] reported_start[of "edges ?m"] e
    by (auto split: prod.splits)
qed

text \<open>When pulses were missed, the interval reported spans them and the discipline ignores it:
  an event whose edge lies 1.2 s or more, and less than 71 minutes, after the pulse reported before it
  leaves the whole server state unchanged, so a stalled main loop never corrupts the frequency or the
  anchor.\<close>

theorem missed_pulses_ignored:
  assumes "reported es n st" "list_all (\<lambda>e. 0 < e) es" "unat c \<le> length es" "0 < n" "n < unat c"
    and "unat (edge_at es n) + 1200000 < unat (edge_at es (unat c))"
    and "unat (edge_at es (unat c)) < unat (edge_at es n) + 2 ^ 32"
  shows "\<exists>v t. fst (pps_poll (c, edge_at es (unat c)) st) = Some (Delta v t) \<and>
    observe_pps_pulse fudge (Some v) t s = s"
proof -
  let ?v = "pps_delta_us (edge_at es (unat c)) (edge_at es n)"
  have "unat (edge_at es (unat c) - edge_at es n) = unat (edge_at es (unat c)) - unat (edge_at es n)"
    using assms(6) by (intro unat_sub) (simp add: word_le_nat_alt)
  then have "unat ?v = unat (edge_at es (unat c)) - unat (edge_at es n)"
    using assms(6,7) by (simp add: pps_delta_us_def unsigned_ucast_eq take_bit_nat_eq_self)
  then have "\<not> ?v \<le> 1200000" using assms(6) by (simp add: word_le_nat_alt)
  then have "observe_pps_pulse fudge (Some ?v) t s = s" for t by (simp add: observe_pps_pulse_def)
  then show ?thesis using pps_poll_event[OF assms(1-3)] assms(4,5) by simp
qed

theorem missed_pulses_ignored_witness:
  "\<exists>v t. fst (pps_poll (3, edge_at [1000000, 2000000, 3000000] (unat (3 :: u32)))
        \<lparr>last_count = 1, last_edge_us = 1000000\<rparr>) = Some (Delta v t) \<and>
    observe_pps_pulse 1 (Some v) t locked_server = locked_server"
  by (rule missed_pulses_ignored[where n = 1]) (simp_all add: reported_def edge_at_def)

end
