(* ===== verification/Calendar.thy ===== *)
theory Calendar
  imports Rust_Str
begin

text \<open>
  The calendar the program reads and prints. The sources leave it to the \<open>chrono\<close> crate, which
  is a parameter here: the record \<open>chrono\<close> holds the functions used and the locale
  \<open>calendar\<close> their documented laws. The proleptic Gregorian calendar without leap seconds is
  defined, the two directions between seconds and fields are proved inverse, and the locale is
  interpreted on it.
\<close>

section \<open>Dates\<close>

text \<open>A UTC instant in calendar fields: year, month, day, hour, minute, second.\<close>

type_synonym civil = "int \<times> nat \<times> nat \<times> nat \<times> nat \<times> nat"

definition leap :: "int \<Rightarrow> bool" where
  "leap y \<longleftrightarrow> y mod 4 = 0 \<and> (y mod 100 \<noteq> 0 \<or> y mod 400 = 0)"

definition month_len :: "bool \<Rightarrow> nat \<Rightarrow> nat" where
  "month_len lp m = (if m = 2 then if lp then 29 else 28 else if m \<in> {4, 6, 9, 11} then 30 else 31)"

text \<open>Days from 1970-01-01 to the first of January, and from there to the first of a month.\<close>

definition year_start :: "int \<Rightarrow> int" where
  "year_start y = 365 * (y - 1970) + (y - 1) div 4 - (y - 1) div 100 + (y - 1) div 400 - 477"

definition month_start :: "bool \<Rightarrow> nat \<Rightarrow> int" where
  "month_start lp m = (\<Sum>k \<leftarrow> [1..<m]. int (month_len lp k))"

definition valid_civil :: "civil \<Rightarrow> bool" where
  "valid_civil c \<longleftrightarrow> (case c of (y, mo, d, h, mi, s) \<Rightarrow>
     1 \<le> mo \<and> mo \<le> 12 \<and> 1 \<le> d \<and> d \<le> month_len (leap y) mo \<and> h < 24 \<and> mi < 60 \<and> s < 60)"

definition civil_seconds :: "civil \<Rightarrow> int" where
  "civil_seconds c = (case c of (y, mo, d, h, mi, s) \<Rightarrow>
     86400 * (year_start y + month_start (leap y) mo + int d - 1) + 3600 * int h + 60 * int mi + int s)"

lemma div_pred: "0 < k \<Longrightarrow> (y::int) div k = (y - 1) div k + (if y mod k = 0 then 1 else 0)"
proof -
  assume k: "0 < k"
  show ?thesis
  proof (cases "y mod k = 0")
    case True
    then obtain q where y: "y = k * q" by auto
    have "(k * q - 1) div k = q - 1"
      by (rule int_div_pos_eq[where r = "k - 1"]) (use k in \<open>simp_all add: algebra_simps\<close>)
    then show ?thesis using True k y by simp
  next
    case False
    have "(y - 1) div k = y div k"
      by (rule int_div_pos_eq[where r = "y mod k - 1"])
        (use False k pos_mod_bound[OF k, of y] pos_mod_sign[OF k, of y] mult_div_mod_eq[of k y] in \<open>auto\<close>)
    then show ?thesis using False by simp
  qed
qed

lemma year_aux:
  fixes y :: int
  shows "365 * (y - 1969) + (a + i) - (b + j) + (c + k) - 477 = 365 * (y - 1970) + a - b + c - 477 + 365 + i - j + k"
  by simp

lemma leap_aux:
  "(R \<Longrightarrow> Q) \<Longrightarrow> (Q \<Longrightarrow> P) \<Longrightarrow> (x::int) + 365 + (if P then 1 else 0) - (if Q then 1 else 0) + (if R then 1 else 0) =
     x + (if P \<and> (\<not> Q \<or> R) then 366 else 365)"
  by (cases P; cases Q; cases R) simp_all

lemma year_start_Suc: "year_start (y + 1) = year_start y + (if leap y then 366 else 365)"
proof -
  have s: "y mod 400 = 0 \<Longrightarrow> y mod 100 = 0" "y mod 100 = 0 \<Longrightarrow> y mod 4 = 0"
    by (auto simp: mod_eq_0_iff_dvd intro: dvd_trans[of _ 400] dvd_trans[of _ 100])
  have "year_start (y + 1) = 365 * (y - 1969) + y div 4 - y div 100 + y div 400 - 477"
    by (simp add: year_start_def)
  also have "\<dots> = year_start y + 365 + (if y mod 4 = 0 then 1 else 0) - (if y mod 100 = 0 then 1 else 0)
      + (if y mod 400 = 0 then 1 else 0)"
  proof -
    have d: "y div 4 = (y - 1) div 4 + (if y mod 4 = 0 then 1 else 0)"
      "y div 100 = (y - 1) div 100 + (if y mod 100 = 0 then 1 else 0)"
      "y div 400 = (y - 1) div 400 + (if y mod 400 = 0 then 1 else 0)"
      by (rule div_pred; simp)+
    show ?thesis unfolding year_start_def d by (rule year_aux)
  qed
  also have "\<dots> = year_start y + (if leap y then 366 else 365)" unfolding leap_def by (rule leap_aux) (fact s)+
  finally show ?thesis .
qed

lemma year_start_mono: "y < z \<Longrightarrow> year_start (y + 1) \<le> year_start z"
proof (induction z rule: int_gr_induct[of y, consumes 1, case_names base step])
  case (step z)
  then show ?case using year_start_Suc[of z] by (simp split: if_splits)
qed simp

lemma year_unique:
  assumes "year_start y \<le> n" "n < year_start (y + 1)" "year_start z \<le> n" "n < year_start (z + 1)"
  shows "y = z"
  using assms year_start_mono[of y z] year_start_mono[of z y] by (cases y z rule: linorder_cases) auto

section \<open>From seconds to fields\<close>

definition greg_year :: "int \<Rightarrow> int" where
  "greg_year n = (let g = (400 * (n + 719162)) div 146097 + 1
     in if n < year_start g then g - 1 else if year_start (g + 1) \<le> n then g + 1 else g)"

definition greg_month :: "bool \<Rightarrow> int \<Rightarrow> nat" where
  "greg_month lp doy = length (filter (\<lambda>m. month_start lp m \<le> doy) [1..<13])"

definition greg_fields :: "int \<Rightarrow> civil" where
  "greg_fields t =
     (let n = t div 86400; r = t mod 86400; y = greg_year n; doy = n - year_start y;
          mo = greg_month (leap y) doy
      in (y, mo, nat (doy - month_start (leap y) mo) + 1,
          nat (r div 3600), nat (r div 60 mod 60), nat (r mod 60)))"

lemma ys_aux:
  fixes z :: int
  assumes "ys = 365 * (z - 1969) + a - b + c - 477"
   "z = 4 * a + p" "z = 100 * b + q" "z = 400 * c + r" "0 \<le> p" "p < 4" "0 \<le> q" "q < 100" "0 \<le> r" "r < 400"
  shows "146097 * z - 699 \<le> 400 * (ys + 719162)" "400 * (ys + 719162) \<le> 146097 * z + 396"
proof -
  have "400 * (ys + 719162) = 146097 * z - 100 * p + 4 * q - r" using assms(1-4) by simp
  then show "146097 * z - 699 \<le> 400 * (ys + 719162)" "400 * (ys + 719162) \<le> 146097 * z + 396"
    using assms(5-) by simp_all
qed

lemma year_start_bounds:
  "146097 * (y - 1) - 699 \<le> 400 * (year_start y + 719162)"
  "400 * (year_start y + 719162) \<le> 146097 * (y - 1) + 396"
proof -
  have "year_start y = 365 * (y - 1 - 1969) + (y - 1) div 4 - (y - 1) div 100 + (y - 1) div 400 - 477"
    by (simp add: year_start_def)
  note aux = ys_aux[OF this, where p = "(y - 1) mod 4" and q = "(y - 1) mod 100" and r = "(y - 1) mod 400"]
  show "146097 * (y - 1) - 699 \<le> 400 * (year_start y + 719162)"
    by (rule aux(1)) simp_all
  show "400 * (year_start y + 719162) \<le> 146097 * (y - 1) + 396"
    by (rule aux(2)) simp_all
qed

lemma greg_year_bounds: "year_start (greg_year n) \<le> n \<and> n < year_start (greg_year n + 1)"
proof -
  define g where "g = (400 * (n + 719162)) div 146097 + 1"
  have "146097 * (g - 1) \<le> 400 * (n + 719162)" "400 * (n + 719162) < 146097 * (g - 1) + 146097"
    unfolding g_def by (simp_all add: minus_mod_eq_mult_div[symmetric])
  then have "year_start (g - 1) \<le> n \<and> n < year_start (g + 2)"
    using year_start_bounds(2)[of "g - 1"] year_start_bounds(1)[of "g + 2"] by simp
  then show ?thesis unfolding greg_year_def Let_def g_def[symmetric] by (auto simp: add.assoc)
qed

lemmas month_tables = month_start_def month_len_def upt_rec

lemma month_eval: 
  "month_start lp 1 = 0" "month_start lp 2 = 31" "month_start lp 3 = (if lp then 60 else 59)"
  "month_start lp 4 = (if lp then 91 else 90)" "month_start lp 5 = (if lp then 121 else 120)"
  "month_start lp 6 = (if lp then 152 else 151)" "month_start lp 7 = (if lp then 182 else 181)"
  "month_start lp 8 = (if lp then 213 else 212)" "month_start lp 9 = (if lp then 244 else 243)"
  "month_start lp 10 = (if lp then 274 else 273)" "month_start lp 11 = (if lp then 305 else 304)"
  "month_start lp 12 = (if lp then 335 else 334)" "month_start lp 13 = (if lp then 366 else 365)"
  by (simp_all add: month_tables)

lemma month_cases:
  assumes "1 \<le> m" "m \<le> (12::nat)"
  shows "m = 1 \<or> m = 2 \<or> m = 3 \<or> m = 4 \<or> m = 5 \<or> m = 6 \<or> m = 7 \<or> m = 8 \<or> m = 9 \<or> m = 10 \<or> m = 11 \<or> m = 12"
  using assms by presburger

lemma month_start_Suc: "1 \<le> m \<Longrightarrow> month_start lp (Suc m) = month_start lp m + int (month_len lp m)"
  by (simp add: month_start_def)

lemma month_start_mono: "1 \<le> m \<Longrightarrow> m \<le> k \<Longrightarrow> month_start lp m \<le> month_start lp k"
    by (induction k) (auto simp: month_start_Suc le_Suc_eq)

lemma month_unique:
  assumes "1 \<le> m" "m \<le> 12" "month_start lp m \<le> doy" "doy < month_start lp (Suc m)"
  shows "greg_month lp doy = m"
proof -
  have "[1..<13] = [1..<Suc m] @ [Suc m..<13]" using assms(1,2) upt_add_eq_append[of 1 "Suc m" "12 - m"] by simp
  moreover have "month_start lp k \<le> doy" if "k \<in> {1..<Suc m}" for k
    using that month_start_mono[of k m lp] assms(3) by auto
  moreover have "\<not> month_start lp k \<le> doy" if "k \<in> {Suc m..<13}" for k
    using that month_start_mono[of "Suc m" k lp] assms(4) by auto
  ultimately show ?thesis by (simp add: greg_month_def)
qed

lemma greg_month_bounds:
  assumes "0 \<le> doy" "doy < (if lp then 366 else 365)"
  shows "1 \<le> greg_month lp doy \<and> greg_month lp doy \<le> 12 \<and>
    month_start lp (greg_month lp doy) \<le> doy \<and> doy < month_start lp (Suc (greg_month lp doy))"
proof -
  define m where "m = (GREATEST k. 1 \<le> k \<and> k \<le> 12 \<and> month_start lp k \<le> doy)"
  let ?P = "\<lambda>k. 1 \<le> k \<and> k \<le> 12 \<and> month_start lp k \<le> doy"
  have m: "?P m" unfolding m_def
    by (rule GreatestI_nat[of ?P 1 12]) (use assms month_eval(1)[of lp] in auto)
  moreover have "doy < month_start lp (Suc m)"
  proof (cases "m = 12")
    case True
    then show ?thesis using assms(2) month_eval(13)[of lp] by simp
  next
    case False
    then have "\<not> ?P (Suc m)" using Greatest_le_nat[of ?P "Suc m" 12] by (auto simp: m_def)
    then show ?thesis using m False by auto
  qed
  ultimately show ?thesis using month_unique[of m lp doy] by simp
qed

section \<open>The two directions are inverse\<close>

lemma month_len_bound: "1 \<le> mo \<Longrightarrow> mo \<le> 12 \<Longrightarrow> month_start lp mo + int (month_len lp mo) \<le> (if lp then 366 else 365)"
  using month_start_mono[of "Suc mo" 13 lp] month_eval(13)[of lp] by (simp add: month_start_Suc split: if_splits)

lemma greg_fields_civil:
  assumes "valid_civil c"
  shows "greg_fields (civil_seconds c) = c"
proof -
  obtain y mo d h mi s where c: "c = (y, mo, d, h, mi, s)" by (cases c)
  define doy where "doy = month_start (leap y) mo + int d - 1"
  define r where "r = 3600 * int h + 60 * int mi + int s"
  have v: "1 \<le> mo" "mo \<le> 12" "1 \<le> d" "d \<le> month_len (leap y) mo" "h < 24" "mi < 60" "s < 60"
    using assms by (simp_all add: valid_civil_def c)
  have t: "civil_seconds c = 86400 * (year_start y + doy) + r"
    by (simp add: civil_seconds_def c doy_def r_def)
  have r: "0 \<le> r" "r < 86400" using v by (simp_all add: r_def)
  have n: "civil_seconds c div 86400 = year_start y + doy" "civil_seconds c mod 86400 = r"
    unfolding t using r by (simp_all only: div_mult_self4 mod_mult_self4) simp_all
  have m0: "month_start (leap y) mo \<ge> 0" using month_start_mono[of 1 mo "leap y"] v month_eval(1) by simp
  have doy: "0 \<le> doy" "doy < (if leap y then 366 else 365)"
    using m0 v month_len_bound[of mo "leap y"] by (simp_all add: doy_def split: if_splits)
  have gy: "greg_year (year_start y + doy) = y"
    by (rule year_unique[OF conjunct1[OF greg_year_bounds] conjunct2[OF greg_year_bounds]])
      (use doy year_start_Suc[of y] in \<open>auto split: if_splits\<close>)
  have gm: "greg_month (leap y) doy = mo"
    by (rule month_unique) (use v in \<open>auto simp: doy_def month_start_Suc\<close>)
  have hm: "nat (r div 3600) = h" "nat (r div 60 mod 60) = mi" "nat (r mod 60) = s"
  proof -
    have "r div 3600 = int h" by (rule int_div_pos_eq[where r = "60 * int mi + int s"]) (use v in \<open>simp_all add: r_def\<close>)
    then show "nat (r div 3600) = h" by simp
    have "r div 60 = 60 * int h + int mi" by (rule int_div_pos_eq[where r = "int s"]) (use v in \<open>simp_all add: r_def\<close>)
    then show "nat (r div 60 mod 60) = mi" using v by simp
    have "r = 60 * (60 * int h + int mi) + int s" by (simp add: r_def)
    then have "r mod 60 = int s mod 60" by (metis mod_mult_self4 mult.commute add.commute)
    then show "nat (r mod 60) = s" using v by simp
  qed
  have "nat (doy - month_start (leap y) mo) + 1 = d" using v by (simp add: doy_def)
  then show ?thesis unfolding greg_fields_def Let_def n using gy gm hm by (simp add: c)
qed

lemma civil_greg_fields: "valid_civil (greg_fields t) \<and> civil_seconds (greg_fields t) = t"
proof -
  define n r where "n = t div 86400" and "r = t mod 86400"
  define y where "y = greg_year n"
  define doy where "doy = n - year_start y"
  define mo where "mo = greg_month (leap y) doy"
  have doy: "0 \<le> doy" "doy < (if leap y then 366 else 365)"
    using greg_year_bounds[of n] year_start_Suc[of y] by (simp_all add: doy_def y_def split: if_splits)
  note mo = greg_month_bounds[OF doy, folded mo_def]
  have r: "0 \<le> r" "r < 86400" by (simp_all add: r_def)
  have f: "greg_fields t = (y, mo, nat (doy - month_start (leap y) mo) + 1, nat (r div 3600), nat (r div 60 mod 60), nat (r mod 60))"
    by (simp add: greg_fields_def Let_def n_def r_def y_def doy_def mo_def)
  have rs: "3600 * (r div 3600) + 60 * (r div 60 mod 60) + r mod 60 = r"
  proof -
    have "r div 60 div 60 = r div 3600" by (simp add: zdiv_zmult2_eq[symmetric])
    then have "60 * (60 * (r div 3600) + (r div 60 mod 60)) = 60 * (r div 60)"
      using mult_div_mod_eq[of 60 "r div 60"] by simp
    then show ?thesis using mult_div_mod_eq[of 60 r] by (simp add: algebra_simps)
  qed
  have r0: "0 \<le> r div 3600" "0 \<le> r div 60 mod 60" "0 \<le> r mod 60" "r div 3600 < 24" using r by simp_all
  have "valid_civil (greg_fields t)"
    unfolding f using mo r0 by (auto simp: valid_civil_def month_start_Suc nat_less_iff)
  moreover have "civil_seconds (greg_fields t) = t"
  proof -
    have i: "int (nat (doy - month_start (leap y) mo) + 1) = doy - month_start (leap y) mo + 1"
      "int (nat (r div 3600)) = r div 3600" "int (nat (r div 60 mod 60)) = r div 60 mod 60" "int (nat (r mod 60)) = r mod 60"
      using mo r0 by simp_all
    have e: "year_start y + month_start (leap y) mo + (doy - month_start (leap y) mo + 1) - 1 = year_start y + doy"
      by simp
    have "civil_seconds (greg_fields t) = 86400 * (year_start y + doy) + (3600 * (r div 3600) + 60 * (r div 60 mod 60) + r mod 60)"
      unfolding f civil_seconds_def prod.case i e by (simp only: add.assoc)
    also have "\<dots> = 86400 * n + r" unfolding rs doy_def by (simp only: add_diff_cancel_left' add_diff_eq)
    also have "\<dots> = t" by (simp only: n_def r_def mult_div_mod_eq)
    finally show ?thesis .
  qed
  ultimately show ?thesis by simp
qed


lemma year_of_seconds: "fst (greg_fields t) = greg_year (t div 86400)"
  by (simp add: greg_fields_def Let_def)

lemma year_range:
  assumes "86400 * year_start a \<le> t" "t < 86400 * year_start (b + 1)"
  shows "a \<le> fst (greg_fields t) \<and> fst (greg_fields t) \<le> b"
proof -
  let ?n = "t div 86400" let ?y = "greg_year ?n"
  have n: "year_start a \<le> ?n" "?n < year_start (b + 1)" using assms by linarith+
  have "\<not> ?y < a" using greg_year_bounds[of ?n] n year_start_mono[of ?y a] by auto
  moreover have "\<not> b + 1 \<le> ?y" using greg_year_bounds[of ?n] n year_start_mono[of "b + 1" ?y] year_start_Suc[of "b + 1"]
    by (cases "b + 1 = ?y") (auto split: if_splits)
  ultimately show ?thesis by (simp add: year_of_seconds)
qed

section \<open>The calendar library\<close>

text \<open>
  What the sources use of the \<open>chrono\<close> crate: \<open>utc_timestamp\<close> is \<open>NaiveDate::from_ymd_opt\<close>,
  \<open>NaiveTime::from_hms_opt\<close> and \<open>and_utc().timestamp()\<close>; \<open>utc_fields\<close> is
  \<open>Utc.timestamp_opt(_, 0).single()\<close> with the \<open>Datelike\<close> and \<open>Timelike\<close> accessors;
  \<open>fmt_ymd\<close> and \<open>fmt_hms\<close> are the formats \<open>%Y-%m-%d\<close> and \<open>%H:%M:%S\<close>.
\<close>

record chrono =
  utc_timestamp :: "civil \<Rightarrow> int option"
  utc_fields :: "int \<Rightarrow> civil option"
  fmt_ymd :: "int \<Rightarrow> nat \<Rightarrow> nat \<Rightarrow> string"
  fmt_hms :: "nat \<Rightarrow> nat \<Rightarrow> nat \<Rightarrow> string"

definition pad2 :: "nat \<Rightarrow> string" where
  "pad2 n = zero_pad 2 (dec_digits n)"

text \<open>The documented behaviour: the proleptic Gregorian calendar without leap seconds, for the years
  the library supports, and the text of the formats for four-digit years.\<close>

locale calendar =
  fixes C :: chrono
  assumes timestamp: "- 200000 \<le> y \<Longrightarrow> y \<le> 200000 \<Longrightarrow> utc_timestamp C (y, mo, d, h, mi, s) =
      (if valid_civil (y, mo, d, h, mi, s) then Some (civil_seconds (y, mo, d, h, mi, s)) else None)"
    and fields: "- 200000 \<le> y \<Longrightarrow> y \<le> 200000 \<Longrightarrow> valid_civil (y, mo, d, h, mi, s) \<Longrightarrow>
      utc_fields C (civil_seconds (y, mo, d, h, mi, s)) = Some (y, mo, d, h, mi, s)"
    and ymd_text: "0 \<le> y \<Longrightarrow> y \<le> 9999 \<Longrightarrow>
      fmt_ymd C y mo d = zero_pad 4 (dec_digits (nat y)) @ ''-'' @ pad2 mo @ ''-'' @ pad2 d"
    and hms_text: "fmt_hms C h mi s = pad2 h @ '':'' @ pad2 mi @ '':'' @ pad2 s"
begin

lemma fields_total:
  assumes "- 200000 \<le> fst (greg_fields t)" "fst (greg_fields t) \<le> 200000"
  shows "utc_fields C t = Some (greg_fields t)"
  using civil_greg_fields[of t] assms fields by (cases "greg_fields t") auto

lemma timestamp_of_fields:
  assumes "- 200000 \<le> fst c" "fst c \<le> 200000"
  shows "utc_timestamp C c = (if valid_civil c then Some (civil_seconds c) else None)"
  using assms timestamp by (cases c) auto

lemma fields_roundtrip:
  assumes "- 200000 \<le> fst (greg_fields t)" "fst (greg_fields t) \<le> 200000"
  shows "utc_timestamp C (greg_fields t) = Some t"
  using civil_greg_fields[of t] timestamp_of_fields[OF assms] by simp

lemma fields_of_timestamp:
  assumes "utc_timestamp C c = Some t" "- 200000 \<le> fst c" "fst c \<le> 200000"
  shows "utc_fields C t = Some c"
  using assms timestamp_of_fields[OF assms(2,3)] fields by (cases c) (auto split: if_splits)

end

text \<open>The calendar computed from the definitions above.\<close>

definition gregorian :: chrono where
  "gregorian = \<lparr>
     utc_timestamp = (\<lambda>c. if valid_civil c then Some (civil_seconds c) else None),
     utc_fields = (\<lambda>t. Some (greg_fields t)),
     fmt_ymd = (\<lambda>y mo d. zero_pad 4 (dec_digits (nat y)) @ ''-'' @ pad2 mo @ ''-'' @ pad2 d),
     fmt_hms = (\<lambda>h mi s. pad2 h @ '':'' @ pad2 mi @ '':'' @ pad2 s)\<rparr>"

interpretation greg: calendar gregorian
  by unfold_locales (simp_all add: gregorian_def greg_fields_civil)

lemma calendar_gregorian: "calendar gregorian" ..

end
