(* ===== verification/I2c_Bus.thy ===== *)
theory I2c_Bus
  imports Prelude
begin

text \<open>
  The Feather I2C bus (src/src/i2c_bus.rs) shared by the RTC and the fuel gauges. The ESP-IDF
  driver is a parameter (\<open>i2c_driver\<close>, over a bus state); the locale \<open>register_device\<close> states what
  a register-based chip promises to the code that talks to it, and is interpreted on a simulated
  chip.
\<close>

section \<open>The shared I2C bus\<close>

record 'b i2c_driver =
  drv_write :: "u8 \<Rightarrow> u8 list \<Rightarrow> u32 \<Rightarrow> 'b \<Rightarrow> bool \<times> 'b"
  drv_write_read :: "u8 \<Rightarrow> u8 list \<Rightarrow> nat \<Rightarrow> u32 \<Rightarrow> 'b \<Rightarrow> u8 list option \<times> 'b"

datatype i2c_error = Write_Failed u8 | Write_Read_Failed u8

definition TIMEOUT_MS :: u32 where "TIMEOUT_MS = 50"

definition write_addr :: "'b i2c_driver \<Rightarrow> u8 \<Rightarrow> u8 list \<Rightarrow> u32 \<Rightarrow> 'b \<Rightarrow> (i2c_error + unit) \<times> 'b" where
  "write_addr drv addr data timeout_ms b =
     (case drv_write drv addr data timeout_ms b of
        (ok, b') \<Rightarrow> (if ok then Inr () else Inl (Write_Failed addr), b'))"

definition write_read_addr :: "'b i2c_driver \<Rightarrow> u8 \<Rightarrow> u8 list \<Rightarrow> nat \<Rightarrow> u32 \<Rightarrow> 'b \<Rightarrow> (i2c_error + u8 list) \<times> 'b" where
  "write_read_addr drv addr data n timeout_ms b =
     (case drv_write_read drv addr data n timeout_ms b of
        (Some bytes, b') \<Rightarrow> (Inr bytes, b')
      | (None, b') \<Rightarrow> (Inl (Write_Read_Failed addr), b'))"

text \<open>The typed forms \<open>write::<D>\<close> and \<open>write_read::<D>\<close>, at the device's address.\<close>

definition i2c_write :: "'b i2c_driver \<Rightarrow> u8 \<Rightarrow> u8 list \<Rightarrow> 'b \<Rightarrow> (i2c_error + unit) \<times> 'b" where
  "i2c_write drv addr data b = write_addr drv addr data TIMEOUT_MS b"

definition i2c_write_read :: "'b i2c_driver \<Rightarrow> u8 \<Rightarrow> u8 list \<Rightarrow> nat \<Rightarrow> 'b \<Rightarrow> (i2c_error + u8 list) \<times> 'b" where
  "i2c_write_read drv addr data n b = write_read_addr drv addr data n TIMEOUT_MS b"

text \<open>
  A register-based device at one address of the bus: a write carries the first register and the
  bytes for it and the following ones, a read names the first register.
\<close>

definition put_regs :: "(nat \<Rightarrow> u8) \<Rightarrow> nat \<Rightarrow> u8 list \<Rightarrow> nat \<Rightarrow> u8" where
  "put_regs f r ds i = (if r \<le> i \<and> i < r + length ds then ds ! (i - r) else f i)"

definition get_regs :: "(nat \<Rightarrow> u8) \<Rightarrow> nat \<Rightarrow> nat \<Rightarrow> u8 list" where
  "get_regs f r n = map f [r..<r + n]"

lemma get_put_regs: "n = length ds \<Longrightarrow> get_regs (put_regs f r ds) r n = ds"
  by (rule nth_equalityI) (auto simp: get_regs_def put_regs_def)

lemma put_regs_other: "i < r \<or> r + length ds \<le> i \<Longrightarrow> put_regs f r ds i = f i"
  by (auto simp: put_regs_def)

lemma put_regs_one [simp]: "put_regs f r [d] = f(r := d)"
  by (auto simp: put_regs_def)

lemma get_regs_one [simp]: "get_regs f r (Suc 0) = [f r]"
  by (simp add: get_regs_def)

locale register_device =
  fixes drv :: "'b i2c_driver" and addr :: u8 and n_regs :: nat and regs :: "'b \<Rightarrow> nat \<Rightarrow> u8"
  assumes dev_write: "unat r + length ds \<le> n_regs \<Longrightarrow>
      \<exists>b'. drv_write drv addr (r # ds) timeout b = (True, b') \<and> regs b' = put_regs (regs b) (unat r) ds"
    and dev_read: "unat r + n \<le> n_regs \<Longrightarrow>
      \<exists>b'. drv_write_read drv addr [r] n timeout b = (Some (get_regs (regs b) (unat r) n), b') \<and> regs b' = regs b"
begin

lemma write_step:
  assumes "unat r + length ds \<le> n_regs"
  obtains b' where "i2c_write drv addr (r # ds) b = (Inr (), b')" "regs b' = put_regs (regs b) (unat r) ds"
  using dev_write[OF assms, of TIMEOUT_MS b] by (auto simp: i2c_write_def write_addr_def)

lemma read_step:
  assumes "unat r + n \<le> n_regs"
  obtains b' where "i2c_write_read drv addr [r] n b = (Inr (get_regs (regs b) (unat r) n), b')" "regs b' = regs b"
  using dev_read[OF assms, of TIMEOUT_MS b] by (auto simp: i2c_write_read_def write_read_addr_def)

end

text \<open>A simulated bus with one such device of \<open>n\<close> registers at address \<open>a\<close>; other addresses do not
  acknowledge.\<close>

definition chip_driver :: "u8 \<Rightarrow> nat \<Rightarrow> (nat \<Rightarrow> u8) i2c_driver" where
  "chip_driver a n = \<lparr>
     drv_write = (\<lambda>addr data timeout b. case data of
        r # ds \<Rightarrow> if addr = a \<and> unat r + length ds \<le> n then (True, put_regs b (unat r) ds) else (False, b)
      | [] \<Rightarrow> (False, b)),
     drv_write_read = (\<lambda>addr data k timeout b. case data of
        [r] \<Rightarrow> if addr = a \<and> unat r + k \<le> n then (Some (get_regs b (unat r) k), b) else (None, b)
      | _ \<Rightarrow> (None, b))\<rparr>"

interpretation chip: register_device "chip_driver a n" a n "\<lambda>b. b" for a n
  by unfold_locales (simp_all add: chip_driver_def)

lemma register_device_chip: "register_device (chip_driver a n) a n (\<lambda>b. b)" ..

end
