(* ===== verification/Rtc.thy ===== *)
theory Rtc
  imports Calendar I2c_Bus
begin

text \<open>
  The PCF8523 real-time clock (src/src/rtc.rs): BCD registers, calendar conversions, and the
  protocol on the I2C bus. The calendar library is the parameter \<open>C\<close>, the bus driver \<open>drv\<close>; a
  working chip is the locale \<open>pcf8523\<close>, interpreted on a simulated one. The conversions of
  the calendar locale and the laws of the chip meet in the write-then-read round trip.
\<close>

section \<open>Registers\<close>

definition PCF8523_ADDR :: u8 where "PCF8523_ADDR = 0x68"
definition MIN_VALID_YEAR :: int where "MIN_VALID_YEAR = 2020"

record rtc_date_time =
  year :: int
  month :: nat
  day :: nat
  hour :: nat
  minute :: nat
  second :: nat

record rtc_snapshot =
  detected :: bool
  rtc_utc :: "int option"

definition bcd_to_dec :: "u8 \<Rightarrow> u8" where
  "bcd_to_dec byte = (byte AND 0x0F) + (drop_bit 4 byte AND 0x0F) * 10"

definition dec_to_bcd :: "u8 \<Rightarrow> u8" where
  "dec_to_bcd value = push_bit 4 (value div 10) OR (value mod 10)"

text \<open>The seven time registers, seconds first (the type of the code fixes their number).\<close>

definition decode_datetime_regs :: "u8 list \<Rightarrow> rtc_date_time option" where
  "decode_datetime_regs regs =
     (if regs ! 0 AND 0x80 \<noteq> 0 then None
      else let s = unat (bcd_to_dec (regs ! 0 AND 0x7F));
               mi = unat (bcd_to_dec (regs ! 1 AND 0x7F));
               h = unat (bcd_to_dec (regs ! 2 AND 0x3F));
               d = unat (bcd_to_dec (regs ! 3 AND 0x3F));
               mo = unat (bcd_to_dec (regs ! 5 AND 0x1F));
               y = 2000 + uint (bcd_to_dec (regs ! 6))
           in if \<not> (1 \<le> mo \<and> mo \<le> 12) \<or> \<not> (1 \<le> d \<and> d \<le> 31) \<or> 23 < h \<or> 59 < mi \<or> 59 < s \<or> y < MIN_VALID_YEAR
              then None
              else Some \<lparr>year = y, month = mo, day = d, hour = h, minute = mi, second = s\<rparr>)"

definition encode_datetime_regs :: "rtc_date_time \<Rightarrow> u8 list" where
  "encode_datetime_regs dt =
     (let year_two_digit = word_of_int (max 0 (min 99 (year dt - 2000))) in
      [dec_to_bcd (of_nat (second dt)), dec_to_bcd (of_nat (minute dt)), dec_to_bcd (of_nat (hour dt)),
       dec_to_bcd (of_nat (day dt)), 1, dec_to_bcd (of_nat (month dt)), dec_to_bcd year_two_digit])"

lemma bcd_roundtrip: "v < 100 \<Longrightarrow> bcd_to_dec (dec_to_bcd (of_nat v)) = of_nat v"
proof -
  have "list_all (\<lambda>v. bcd_to_dec (dec_to_bcd (of_nat v)) = of_nat v) [0..<100]" by code_simp
  then show "v < 100 \<Longrightarrow> ?thesis" by (auto simp: list_all_iff)
qed

lemma bcd_masks:
  "v < 60 \<Longrightarrow> dec_to_bcd (of_nat v) AND 0x7F = dec_to_bcd (of_nat v) \<and> dec_to_bcd (of_nat v) AND 0x80 = 0"
  "v < 32 \<Longrightarrow> dec_to_bcd (of_nat v) AND 0x3F = dec_to_bcd (of_nat v)"
  "v < 13 \<Longrightarrow> dec_to_bcd (of_nat v) AND 0x1F = dec_to_bcd (of_nat v)"
proof -
  have "list_all (\<lambda>v. dec_to_bcd (of_nat v) AND 0x7F = dec_to_bcd (of_nat v) \<and> dec_to_bcd (of_nat v) AND 0x80 = 0) [0..<60]"
    "list_all (\<lambda>v. dec_to_bcd (of_nat v) AND 0x3F = dec_to_bcd (of_nat v)) [0..<32]"
    "list_all (\<lambda>v. dec_to_bcd (of_nat v) AND 0x1F = dec_to_bcd (of_nat v)) [0..<13]"
    by code_simp+
  then show
    "v < 60 \<Longrightarrow> dec_to_bcd (of_nat v) AND 0x7F = dec_to_bcd (of_nat v) \<and> dec_to_bcd (of_nat v) AND 0x80 = 0"
    "v < 32 \<Longrightarrow> dec_to_bcd (of_nat v) AND 0x3F = dec_to_bcd (of_nat v)"
    "v < 13 \<Longrightarrow> dec_to_bcd (of_nat v) AND 0x1F = dec_to_bcd (of_nat v)"
    by (auto simp: list_all_iff)
qed

text \<open>Calendar fields the chip can hold and the code accepts back.\<close>

definition rtc_valid :: "rtc_date_time \<Rightarrow> bool" where
  "rtc_valid dt \<longleftrightarrow> 2020 \<le> year dt \<and> year dt \<le> 2099 \<and> 1 \<le> month dt \<and> month dt \<le> 12 \<and>
     1 \<le> day dt \<and> day dt \<le> 31 \<and> hour dt < 24 \<and> minute dt < 60 \<and> second dt < 60"

lemma decode_encode: "rtc_valid dt \<Longrightarrow> decode_datetime_regs (encode_datetime_regs dt) = Some dt"
proof -
  assume v: "rtc_valid dt"
  define yy where "yy = nat (year dt - 2000)"
  have yy: "yy < 100" "int yy = year dt - 2000" "20 \<le> yy" using v by (auto simp: yy_def rtc_valid_def)
  have w: "word_of_int (max 0 (min 99 (year dt - 2000))) = (of_nat yy :: u8)"
    using yy by (simp flip: yy(2))
  have ui: "uint (of_nat yy :: u8) = int yy" using yy by (subst uint_nat) (simp add: unat_small)
  show ?thesis
    using v yy unfolding decode_datetime_regs_def encode_datetime_regs_def Let_def w
    by (simp add: rtc_valid_def bcd_masks bcd_roundtrip unat_small ui MIN_VALID_YEAR_def)
qed

section \<open>Calendar conversions\<close>

definition datetime_to_unix_seconds :: "chrono \<Rightarrow> rtc_date_time \<Rightarrow> int option" where
  "datetime_to_unix_seconds C dt = utc_timestamp C (year dt, month dt, day dt, hour dt, minute dt, second dt)"

definition unix_seconds_to_datetime :: "chrono \<Rightarrow> int \<Rightarrow> rtc_date_time option" where
  "unix_seconds_to_datetime C unix_seconds =
     (case utc_fields C unix_seconds of None \<Rightarrow> None
      | Some (y, mo, d, h, mi, s) \<Rightarrow>
          Some \<lparr>year = y, month = mo, day = d, hour = h, minute = mi, second = s\<rparr>)"

text \<open>\<open>{:04}\<close> of a signed number counts the sign as one of the four columns.\<close>

definition fmt04 :: "int \<Rightarrow> string" where
  "fmt04 y = (if y < 0 then ''-'' @ zero_pad 3 (dec_digits (nat (- y))) else zero_pad 4 (dec_digits (nat y)))"

text \<open>The sum with the offset leaves the library's range only at its very ends, where the code
  panics: the outer \<open>None\<close>.\<close>

definition local_date_time_from_utc :: "chrono \<Rightarrow> int \<Rightarrow> int \<Rightarrow> (string \<times> string) option option" where
  "local_date_time_from_utc C utc_unix_seconds tz_offset_hours =
     (case utc_fields C utc_unix_seconds of None \<Rightarrow> Some None
      | Some dt \<Rightarrow>
        (case utc_fields C (utc_unix_seconds + tz_offset_hours * 3600) of None \<Rightarrow> None
         | Some (y, mo, d, h, mi, s) \<Rightarrow>
             Some (Some (fmt04 y @ ''-'' @ pad2 mo @ ''-'' @ pad2 d, pad2 h @ '':'' @ pad2 mi @ '':'' @ pad2 s))))"

section \<open>The chip on the bus\<close>

definition REG_CONTROL1 :: u8 where "REG_CONTROL1 = 0"
definition REG_CONTROL2 :: u8 where "REG_CONTROL2 = 1"
definition REG_CONTROL3 :: u8 where "REG_CONTROL3 = 2"
definition REG_SECONDS :: u8 where "REG_SECONDS = 3"
definition STOP_BIT :: u8 where "STOP_BIT = 0x20"

datatype rtc_probe = Present | Absent

datatype rtc_error = Bus i2c_error | Invalid_Or_Unset | Invalid_After_Decode | Out_Of_Range int

record rtc_device =
  present :: bool
  boot_utc :: "int option"

definition probe :: "'b i2c_driver \<Rightarrow> 'b \<Rightarrow> rtc_probe \<times> 'b" where
  "probe drv b = (case i2c_write_read drv PCF8523_ADDR [REG_CONTROL1] 1 b of
     (Inr control, b') \<Rightarrow> (Present, b') | (Inl err, b') \<Rightarrow> (Absent, b'))"

definition detect :: "'b i2c_driver \<Rightarrow> 'b \<Rightarrow> bool \<times> 'b" where
  "detect drv b = (case probe drv b of (p, b') \<Rightarrow> (p = Present, b'))"

definition init_chip :: "'b i2c_driver \<Rightarrow> 'b \<Rightarrow> (i2c_error + unit) \<times> 'b" where
  "init_chip drv b =
     (case i2c_write drv PCF8523_ADDR [REG_CONTROL1, 0] b of (Inl e, b1) \<Rightarrow> (Inl e, b1) | (Inr u, b1) \<Rightarrow>
      (case i2c_write drv PCF8523_ADDR [REG_CONTROL2, 0] b1 of (Inl e, b2) \<Rightarrow> (Inl e, b2) | (Inr u, b2) \<Rightarrow>
       (case i2c_write drv PCF8523_ADDR [REG_CONTROL3, 0] b2 of (Inl e, b3) \<Rightarrow> (Inl e, b3) | (Inr u, b3) \<Rightarrow>
        (Inr (), b3))))"

definition read_datetime :: "'b i2c_driver \<Rightarrow> 'b \<Rightarrow> (rtc_error + rtc_date_time) \<times> 'b" where
  "read_datetime drv b =
     (case i2c_write_read drv PCF8523_ADDR [REG_SECONDS] 7 b of
        (Inl e, b') \<Rightarrow> (Inl (Bus e), b')
      | (Inr regs, b') \<Rightarrow>
          (case decode_datetime_regs regs of None \<Rightarrow> (Inl Invalid_Or_Unset, b') | Some dt \<Rightarrow> (Inr dt, b')))"

definition read_unix_seconds :: "chrono \<Rightarrow> 'b i2c_driver \<Rightarrow> 'b \<Rightarrow> (rtc_error + int) \<times> 'b" where
  "read_unix_seconds C drv b =
     (case read_datetime drv b of (Inl e, b') \<Rightarrow> (Inl e, b')
      | (Inr dt, b') \<Rightarrow> (case datetime_to_unix_seconds C dt of
           None \<Rightarrow> (Inl Invalid_After_Decode, b') | Some secs \<Rightarrow> (Inr secs, b')))"

text \<open>The restart error is only logged; the result is that of the payload write.\<close>

definition write_datetime :: "'b i2c_driver \<Rightarrow> rtc_date_time \<Rightarrow> 'b \<Rightarrow> (rtc_error + unit) \<times> 'b" where
  "write_datetime drv dt b =
     (case i2c_write_read drv PCF8523_ADDR [REG_CONTROL1] 1 b of
        (Inl e, b1) \<Rightarrow> (Inl (Bus e), b1)
      | (Inr control, b1) \<Rightarrow>
        (case i2c_write drv PCF8523_ADDR [REG_CONTROL1, control ! 0 OR STOP_BIT] b1 of
           (Inl e, b2) \<Rightarrow> (Inl (Bus e), b2)
         | (Inr u, b2) \<Rightarrow>
           (case i2c_write drv PCF8523_ADDR (REG_SECONDS # encode_datetime_regs dt) b2 of
              (write_result, b3) \<Rightarrow>
              (case i2c_write drv PCF8523_ADDR [REG_CONTROL1, control ! 0 AND NOT STOP_BIT] b3 of
                 (restart, b4) \<Rightarrow> (map_sum Bus id write_result, b4)))))"

definition write_unix_seconds :: "chrono \<Rightarrow> 'b i2c_driver \<Rightarrow> int \<Rightarrow> 'b \<Rightarrow> (rtc_error + unit) \<times> 'b" where
  "write_unix_seconds C drv unix_seconds b =
     (case unix_seconds_to_datetime C unix_seconds of
        None \<Rightarrow> (Inl (Out_Of_Range unix_seconds), b)
      | Some dt \<Rightarrow> write_datetime drv dt b)"

text \<open>\<open>RtcDevice::init\<close>: a failed chip initialisation is only logged.\<close>

definition rtc_init :: "chrono \<Rightarrow> 'b i2c_driver \<Rightarrow> 'b \<Rightarrow> rtc_device \<times> 'b" where
  "rtc_init C drv b =
     (case detect drv b of (found, b1) \<Rightarrow>
        if found
        then (case init_chip drv b1 of (r, b2) \<Rightarrow>
               (case read_unix_seconds C drv b2 of
                  (Inr secs, b3) \<Rightarrow> (\<lparr>present = True, boot_utc = Some secs\<rparr>, b3)
                | (Inl e, b3) \<Rightarrow> (\<lparr>present = True, boot_utc = None\<rparr>, b3)))
        else (\<lparr>present = False, boot_utc = None\<rparr>, b1))"

section \<open>Correctness\<close>

text \<open>Unix times of the years 2020 to 2099.\<close>

definition rtc_range :: "int \<Rightarrow> bool" where
  "rtc_range t \<longleftrightarrow> 1577836800 \<le> t \<and> t < 4102444800"

definition to_rtc :: "civil \<Rightarrow> rtc_date_time" where
  "to_rtc c = (case c of (y, mo, d, h, mi, s) \<Rightarrow>
     \<lparr>year = y, month = mo, day = d, hour = h, minute = mi, second = s\<rparr>)"

lemma rtc_range_year: "rtc_range t \<Longrightarrow> 2020 \<le> fst (greg_fields t) \<and> fst (greg_fields t) \<le> 2099"
  by (rule year_range) (simp_all add: rtc_range_def year_start_def)

lemma month_len_le: "month_len lp m \<le> 31"
  by (simp add: month_len_def)

lemma rtc_valid_fields: "rtc_range t \<Longrightarrow> rtc_valid (to_rtc (greg_fields t))"
  using rtc_range_year[of t] civil_greg_fields[of t] month_len_le
  by (cases "greg_fields t") (auto simp: rtc_valid_def to_rtc_def valid_civil_def intro: order_trans)

context calendar
begin

lemma rtc_conversions:
  assumes "rtc_range t"
  shows "unix_seconds_to_datetime C t = Some (to_rtc (greg_fields t))"
    "datetime_to_unix_seconds C (to_rtc (greg_fields t)) = Some t"
proof -
  have y: "- 200000 \<le> fst (greg_fields t)" "fst (greg_fields t) \<le> 200000" using rtc_range_year[OF assms] by auto
  show "unix_seconds_to_datetime C t = Some (to_rtc (greg_fields t))"
    using fields_total[OF y] by (cases "greg_fields t") (simp add: unix_seconds_to_datetime_def to_rtc_def)
  show "datetime_to_unix_seconds C (to_rtc (greg_fields t)) = Some t"
    using fields_roundtrip[OF y] by (cases "greg_fields t") (simp add: datetime_to_unix_seconds_def to_rtc_def)
qed

end

text \<open>A PCF8523 that answers.\<close>

locale pcf8523 = register_device drv PCF8523_ADDR 20 regs
  for drv :: "'b i2c_driver" and regs :: "'b \<Rightarrow> nat \<Rightarrow> u8"
begin

lemma write_datetime_effect:
  obtains b' where "write_datetime drv dt b = (Inr (), b')"
    "get_regs (regs b') 3 7 = encode_datetime_regs dt"
    "regs b' 0 = regs b 0 AND NOT STOP_BIT"
    "\<And>i. i \<notin> {0, 3, 4, 5, 6, 7, 8, 9} \<Longrightarrow> regs b' i = regs b i"
proof -
  have len: "length (encode_datetime_regs dt) = 7" by (simp add: encode_datetime_regs_def Let_def)
  obtain b1 where 1: "i2c_write_read drv PCF8523_ADDR [REG_CONTROL1] 1 b = (Inr [regs b 0], b1)" "regs b1 = regs b"
    using read_step[of REG_CONTROL1 1 b] by (auto simp: REG_CONTROL1_def)
  obtain b2 where 2: "i2c_write drv PCF8523_ADDR [REG_CONTROL1, regs b 0 OR STOP_BIT] b1 = (Inr (), b2)"
    "regs b2 = (regs b)(0 := regs b 0 OR STOP_BIT)"
    using write_step[of REG_CONTROL1 "[regs b 0 OR STOP_BIT]" b1] 1(2) by (auto simp: REG_CONTROL1_def)
  obtain b3 where 3: "i2c_write drv PCF8523_ADDR (REG_SECONDS # encode_datetime_regs dt) b2 = (Inr (), b3)"
    "regs b3 = put_regs (regs b2) 3 (encode_datetime_regs dt)"
    using write_step[of REG_SECONDS "encode_datetime_regs dt" b2] len by (auto simp: REG_SECONDS_def)
  obtain b4 where 4: "i2c_write drv PCF8523_ADDR [REG_CONTROL1, regs b 0 AND NOT STOP_BIT] b3 = (Inr (), b4)"
    "regs b4 = (regs b3)(0 := regs b 0 AND NOT STOP_BIT)"
    using write_step[of REG_CONTROL1 "[regs b 0 AND NOT STOP_BIT]" b3] by (auto simp: REG_CONTROL1_def)
  show thesis
  proof (rule that)
    show "write_datetime drv dt b = (Inr (), b4)" using 1 2 3 4 by (simp add: write_datetime_def)
    show "get_regs (regs b4) 3 7 = encode_datetime_regs dt"
      using get_put_regs[of 7 "encode_datetime_regs dt" "regs b2" 3] len 3 4 by (simp add: get_regs_def)
    show "regs b4 0 = regs b 0 AND NOT STOP_BIT" using 4 by simp
    show "regs b4 i = regs b i" if "i \<notin> {0, 3, 4, 5, 6, 7, 8, 9}" for i
    proof -
      have "i \<noteq> 0" "i < 3 \<or> 3 + length (encode_datetime_regs dt) \<le> i" using that len by auto
      then show ?thesis using 2(2) 3(2) 4(2) by (simp add: put_regs_other)
    qed
  qed
qed

lemma read_datetime_regs:
  obtains b' where "read_datetime drv b = (case decode_datetime_regs (get_regs (regs b) 3 7) of
      None \<Rightarrow> (Inl Invalid_Or_Unset, b') | Some dt \<Rightarrow> (Inr dt, b'))" "regs b' = regs b"
proof -
  obtain b' where b': "i2c_write_read drv PCF8523_ADDR [REG_SECONDS] 7 b = (Inr (get_regs (regs b) 3 7), b')"
    "regs b' = regs b"
    using read_step[of REG_SECONDS 7 b] by (auto simp: REG_SECONDS_def)
  then have "read_datetime drv b = (case decode_datetime_regs (get_regs (regs b) 3 7) of
      None \<Rightarrow> (Inl Invalid_Or_Unset, b') | Some dt \<Rightarrow> (Inr dt, b'))"
    by (simp add: read_datetime_def)
  then show thesis using b'(2) by (rule that)
qed

end

interpretation simulated: pcf8523 "chip_driver PCF8523_ADDR 20" "\<lambda>b. b"
  by unfold_locales

lemma pcf8523_simulated: "pcf8523 (chip_driver PCF8523_ADDR 20) (\<lambda>b. b)" ..

lemma write_then_read:
  assumes "calendar C" "pcf8523 drv regs" "rtc_range t"
  shows "\<exists>b'. write_unix_seconds C drv t b = (Inr (), b') \<and> fst (read_unix_seconds C drv b') = Inr t \<and>
    regs b' 0 = regs b 0 AND NOT STOP_BIT"
proof -
  let ?dt = "to_rtc (greg_fields t)"
  note conv = calendar.rtc_conversions[OF assms(1,3)]
  obtain b' where w: "write_datetime drv ?dt b = (Inr (), b')" "get_regs (regs b') 3 7 = encode_datetime_regs ?dt"
    "regs b' 0 = regs b 0 AND NOT STOP_BIT"
    using pcf8523.write_datetime_effect[OF assms(2)] by metis
  obtain b'' where r: "read_datetime drv b' = (Inr ?dt, b'')"
    using pcf8523.read_datetime_regs[OF assms(2), of b'] w(2) decode_encode[OF rtc_valid_fields[OF assms(3)]]
    by (metis option.simps(5))
  show ?thesis using w r conv by (auto simp: write_unix_seconds_def read_unix_seconds_def)
qed

text \<open>C27: The RTC keeps UTC: for every instant of the years 2020 to 2099, writing it over I2C to a
  working PCF8523 (through the calendar, the BCD registers and the stop and restart of the clock) and
  reading it back within the same second returns the same instant, with the clock running and the
  other control bits unchanged.\<close>

theorem rtc_roundtrip:
  assumes "calendar C" "pcf8523 drv regs" "1577836800 \<le> t" "t < 4102444800"
  shows "\<exists>b'. write_unix_seconds C drv t b = (Inr (), b') \<and> fst (read_unix_seconds C drv b') = Inr t \<and>
    regs b' 0 = regs b 0 AND NOT STOP_BIT"
  using write_then_read[OF assms(1,2)] assms(3,4) by (simp add: rtc_range_def)

theorem rtc_roundtrip_witness:
  "\<exists>b'. write_unix_seconds gregorian (chip_driver PCF8523_ADDR 20) 1717770645 (\<lambda>_. 0) = (Inr (), b') \<and>
     fst (read_unix_seconds gregorian (chip_driver PCF8523_ADDR 20) b') = Inr 1717770645 \<and>
     b' 0 = 0 AND NOT STOP_BIT"
  by (rule rtc_roundtrip[OF calendar_gregorian pcf8523_simulated]) simp_all

lemma bcd_bound: "unat (bcd_to_dec w) \<le> 165"
proof -
  have "list_all (\<lambda>n. unat (bcd_to_dec (of_nat n)) \<le> 165) [0..<256]" by code_simp
  moreover have "unat w < 256" using unsigned_less[of w] by simp
  ultimately have "unat (bcd_to_dec (of_nat (unat w))) \<le> 165"
    unfolding list_all_iff set_upt by (meson atLeastLessThan_iff zero_le)
  moreover have "of_nat (unat w) = w" by simp
  ultimately show ?thesis by (simp only:)
qed

lemma decode_range:
  assumes "decode_datetime_regs regs = Some dt"
  shows "regs ! 0 AND 0x80 = 0 \<and> 2020 \<le> year dt \<and> year dt \<le> 2165"
proof -
  have "regs ! 0 AND 0x80 = 0"
    by (rule ccontr) (use assms in \<open>simp only: decode_datetime_regs_def if_True not_False_eq_True option.distinct\<close>)
  moreover have "year dt = 2000 + uint (bcd_to_dec (regs ! 6)) \<and> 2020 \<le> year dt"
    using assms by (simp only: decode_datetime_regs_def Let_def MIN_VALID_YEAR_def split: if_splits) auto
  moreover have "uint (bcd_to_dec (regs ! 6)) \<le> 165" using bcd_bound[of "regs ! 6"] uint_nat[of "bcd_to_dec (regs ! 6)"] by linarith
  ultimately show ?thesis by simp
qed

lemma year_start_le: "y \<le> z \<Longrightarrow> year_start y \<le> year_start z"
  using year_start_mono[of y z] year_start_Suc[of y] by (cases "y = z") (auto split: if_splits)

lemma civil_year_bounds:
  assumes "valid_civil c"
  shows "86400 * year_start (fst c) \<le> civil_seconds c \<and> civil_seconds c < 86400 * year_start (fst c + 1)"
proof -
  obtain y mo d h mi s where c: "c = (y, mo, d, h, mi, s)" by (cases c)
  have v: "1 \<le> mo" "mo \<le> 12" "1 \<le> d" "d \<le> month_len (leap y) mo" "h < 24" "mi < 60" "s < 60"
    using assms by (simp_all add: valid_civil_def c)
  have "0 \<le> month_start (leap y) mo" using month_start_mono[of 1 mo "leap y"] v month_eval(1) by simp
  moreover have "month_start (leap y) mo + int d \<le> year_start (y + 1) - year_start y"
    using month_len_bound[of mo "leap y"] v year_start_Suc[of y] by simp
  ultimately show ?thesis using v by (simp add: civil_seconds_def c)
qed

text \<open>C28: A time read from the RTC is never garbage: whatever the bus returns, a successful read saw a
  clear oscillator-stop flag and a date and time that exist in the calendar, in the years 2020 to 2165;
  everything else is an error.\<close>

theorem rtc_read_plausible:
  assumes "calendar C" "read_unix_seconds C drv b = (Inr t, b')"
  shows "\<exists>regs. i2c_write_read drv PCF8523_ADDR [REG_SECONDS] 7 b = (Inr regs, b') \<and> regs ! 0 AND 0x80 = 0 \<and>
    (\<exists>dt. decode_datetime_regs regs = Some dt \<and>
      valid_civil (year dt, month dt, day dt, hour dt, minute dt, second dt) \<and>
      t = civil_seconds (year dt, month dt, day dt, hour dt, minute dt, second dt)) \<and>
    1577836800 \<le> t \<and> t < 6185203200"
proof -
  obtain dt where dt: "read_datetime drv b = (Inr dt, b')" "datetime_to_unix_seconds C dt = Some t"
    using assms(2) unfolding read_unix_seconds_def
    by (cases "read_datetime drv b") (auto split: sum.splits option.splits)
  obtain regs where r: "i2c_write_read drv PCF8523_ADDR [REG_SECONDS] 7 b = (Inr regs, b')"
    "decode_datetime_regs regs = Some dt"
    using dt(1) unfolding read_datetime_def
    by (cases "i2c_write_read drv PCF8523_ADDR [REG_SECONDS] 7 b") (auto split: sum.splits option.splits)
  note d = decode_range[OF r(2)]
  let ?c = "(year dt, month dt, day dt, hour dt, minute dt, second dt)"
  have c: "valid_civil ?c" "t = civil_seconds ?c"
    using dt(2) d calendar.timestamp_of_fields[OF assms(1), of ?c]
    unfolding datetime_to_unix_seconds_def by (simp_all split: if_splits)
  have ys: "year_start 2020 = 18262" "year_start 2166 = 71588" by (simp_all add: year_start_def)
  have "18262 \<le> year_start (year dt)" "year_start (year dt + 1) \<le> 71588"
    using d year_start_le[of 2020 "year dt"] year_start_le[of "year dt + 1" 2166] unfolding ys by simp_all
  then have "1577836800 \<le> t" "t < 6185203200"
    using civil_year_bounds[OF c(1)] unfolding c(2)[symmetric] by simp_all
  then show ?thesis using r d c by blast
qed

definition set_chip :: "nat \<Rightarrow> u8" where
  "set_chip = put_regs (\<lambda>_. 0) 3 [0x45, 0x30, 0x14, 0x07, 0x05, 0x06, 0x24]"

lemma set_chip_reads:
  "i2c_write_read (chip_driver PCF8523_ADDR 20) PCF8523_ADDR [REG_SECONDS] 7 set_chip =
     (Inr [0x45, 0x30, 0x14, 0x07, 0x05, 0x06, 0x24], set_chip)"
  using get_put_regs[of 7 "[0x45, 0x30, 0x14, 0x07, 0x05, 0x06, 0x24]" "\<lambda>_. 0" 3]
  by (simp add: i2c_write_read_def write_read_addr_def chip_driver_def REG_SECONDS_def set_chip_def)

lemma set_chip_time: "read_unix_seconds gregorian (chip_driver PCF8523_ADDR 20) set_chip = (Inr 1717770645, set_chip)"
proof -
  have "decode_datetime_regs [0x45, 0x30, 0x14, 0x07, 0x05, 0x06, 0x24] =
      Some \<lparr>year = 2024, month = 6, day = 7, hour = 14, minute = 30, second = 45\<rparr>" by code_simp
  moreover have "datetime_to_unix_seconds gregorian
      \<lparr>year = 2024, month = 6, day = 7, hour = 14, minute = 30, second = 45\<rparr> = Some 1717770645" by code_simp
  ultimately show ?thesis by (simp add: read_unix_seconds_def read_datetime_def set_chip_reads)
qed

theorem rtc_read_plausible_witness:
  "\<exists>regs. i2c_write_read (chip_driver PCF8523_ADDR 20) PCF8523_ADDR [REG_SECONDS] 7 set_chip = (Inr regs, set_chip) \<and>
    regs ! 0 AND 0x80 = 0 \<and>
    (\<exists>dt. decode_datetime_regs regs = Some dt \<and>
      valid_civil (year dt, month dt, day dt, hour dt, minute dt, second dt) \<and>
      1717770645 = civil_seconds (year dt, month dt, day dt, hour dt, minute dt, second dt)) \<and>
    (1577836800::int) \<le> 1717770645 \<and> (1717770645::int) < 6185203200"
  by (rule rtc_read_plausible[OF calendar_gregorian set_chip_time])

end
