(* ===== verification/Battery.thy ===== *)
theory Battery
  imports IEEE_Float I2c_Bus
begin

text \<open>
  The fuel gauges (src/src/battery.rs): register decoding in single precision, reading over the
  shared I2C bus, and detection of the gauge at boot.
\<close>

section \<open>Decoding and reading\<close>

record battery_snapshot =
  voltage_v :: fp
  percent :: fp

datatype battery_monitor = Max17048 | Lc709203

definition MAX17048_ADDR :: u8 where "MAX17048_ADDR = 0x36"
definition LC709203_ADDR :: u8 where "LC709203_ADDR = 0x0B"

definition decode_max17048_vcell :: "u8 list \<Rightarrow> fp" where
  "decode_max17048_vcell vcell = fmul F32 (fint F32 (uint (from_be16 (vcell ! 0) (vcell ! 1)))) (flit F32 (78125 / 10 ^ 9))"

definition decode_max17048_soc :: "u8 list \<Rightarrow> fp" where
  "decode_max17048_soc soc =
     fadd F32 (fint F32 (uint (soc ! 0))) (fdiv F32 (fint F32 (uint (soc ! 1))) (flit F32 256))"

definition decode_lc709203_voltage_mv :: "u8 list \<Rightarrow> fp" where
  "decode_lc709203_voltage_mv vcell = fint F32 (uint (from_le16 (vcell ! 0) (vcell ! 1)))"

definition decode_lc709203_percent :: "u8 list \<Rightarrow> fp" where
  "decode_lc709203_percent rsoc = fint F32 (uint (from_le16 (rsoc ! 0) (rsoc ! 1)))"

definition read_max17048 :: "'b i2c_driver \<Rightarrow> 'b \<Rightarrow> (i2c_error + battery_snapshot) \<times> 'b" where
  "read_max17048 drv b =
     (case i2c_write_read drv MAX17048_ADDR [0x02] 2 b of (Inl e, b1) \<Rightarrow> (Inl e, b1) | (Inr vcell, b1) \<Rightarrow>
      (case i2c_write_read drv MAX17048_ADDR [0x04] 2 b1 of (Inl e, b2) \<Rightarrow> (Inl e, b2) | (Inr soc, b2) \<Rightarrow>
       (Inr \<lparr>voltage_v = decode_max17048_vcell vcell, percent = decode_max17048_soc soc\<rparr>, b2)))"

definition read_lc709203 :: "'b i2c_driver \<Rightarrow> 'b \<Rightarrow> (i2c_error + battery_snapshot) \<times> 'b" where
  "read_lc709203 drv b =
     (case i2c_write_read drv LC709203_ADDR [0x09] 2 b of (Inl e, b1) \<Rightarrow> (Inl e, b1) | (Inr vcell, b1) \<Rightarrow>
      (case i2c_write_read drv LC709203_ADDR [0x0D] 2 b1 of (Inl e, b2) \<Rightarrow> (Inl e, b2) | (Inr rsoc, b2) \<Rightarrow>
       (Inr \<lparr>voltage_v = fdiv F32 (decode_lc709203_voltage_mv vcell) (flit F32 1000),
             percent = decode_lc709203_percent rsoc\<rparr>, b2)))"

definition read_battery :: "'b i2c_driver \<Rightarrow> battery_monitor \<Rightarrow> 'b \<Rightarrow> (i2c_error + battery_snapshot) \<times> 'b" where
  "read_battery drv monitor b = (case monitor of Max17048 \<Rightarrow> read_max17048 drv b | Lc709203 \<Rightarrow> read_lc709203 drv b)"

definition detect_monitor :: "'b i2c_driver \<Rightarrow> 'b \<Rightarrow> battery_monitor option \<times> 'b" where
  "detect_monitor drv b =
     (case read_max17048 drv b of
        (Inr r, b1) \<Rightarrow> (Some Max17048, b1)
      | (Inl e, b1) \<Rightarrow>
          (case read_lc709203 drv b1 of
             (Inr r, b2) \<Rightarrow> (Some Lc709203, b2)
           | (Inl e', b2) \<Rightarrow> (None, b2)))"

section \<open>Bounds\<close>

lemma fint32:
  assumes "\<bar>n\<bar> < 2 ^ 24"
  shows "is_fin (fint F32 n)" "fval (fint F32 n) = of_int n"
  using fin_fint[of n F32] assms r32.int_exact[of n] by simp_all

lemma rnd32_frac:
  assumes "\<bar>m\<bar> < 2 ^ 24"
  shows "rnd F32 (of_int m / 256) = of_int m / 256"
proof (cases "m = 0")
  case False
  have x: "(of_int m :: rat) / 256 = of_int m * 2 powi (- 8)" by (simp add: power_int_minus)
  have "\<bar>of_int m :: rat\<bar> < 2 ^ 24" using assms by (metis of_int_abs of_int_less_iff of_int_numeral of_int_power)
  then have "\<bar>(of_int m :: rat) / 256\<bar> < 2 powi 16" by (simp add: abs_divide)
  then have "ilog2 \<bar>(of_int m :: rat) / 256\<bar> < 16" using False by (intro ilog2_less) auto
  then have "ulp_exp F32 (of_int m / 256) \<le> - 8" by (simp add: ulp_exp_def F32_def)
  then show ?thesis using rnd_exact[OF x] by simp
qed simp

lemma lsb_literal: "\<bar>rnd F32 (78125 / 10 ^ 9) - 78125 / 10 ^ 9\<bar> \<le> (2::rat) powi (- 38)"
  using rnd_abs_error[of "78125 / 10 ^ 9" "- 13" F32] by (simp add: F32_def power_int_minus)

lemma vcell_value:
  assumes "0 \<le> n" "n < 65536"
  shows "is_fin (fmul F32 (fint F32 n) (flit F32 (78125 / 10 ^ 9))) \<and>
    \<bar>fval (fmul F32 (fint F32 n) (flit F32 (78125 / 10 ^ 9))) - of_int n * (78125 / 10 ^ 9)\<bar> \<le> 1 / 1000000"
proof -
  let ?c = "rnd F32 (78125 / 10 ^ 9) :: rat" and ?n = "of_int n :: rat"
  have n: "is_fin (fint F32 n)" "fval (fint F32 n) = ?n" using fint32[of n] assms by auto
  have l: "is_fin (flit F32 (78125 / 10 ^ 9))" "fval (flit F32 (78125 / 10 ^ 9)) = ?c"
    using lit32[of "78125 / 10 ^ 9"] by (simp_all add: power_int_def)
  have nb: "0 \<le> ?n" "?n \<le> 65535" using assms by simp_all
  have "\<bar>?n * (?c - 78125 / 10 ^ 9)\<bar> \<le> 65535 * 2 powi (- 38)"
    unfolding abs_mult using nb lsb_literal by (intro mult_mono) auto
  then have e1: "\<bar>?n * ?c - ?n * (78125 / 10 ^ 9)\<bar> \<le> 65535 * 2 powi (- 38)"
    by (simp only: right_diff_distrib)
  have "(65535::rat) * 2 powi (- 38) \<le> 1 / 4000000" by (simp add: power_int_minus)
  with e1 have e1: "\<bar>?n * ?c - ?n * (78125 / 10 ^ 9)\<bar> \<le> 1 / 4000000" by (rule order.trans)
  have q: "0 \<le> ?n * (78125 / 10 ^ 9)" "?n * (78125 / 10 ^ 9) \<le> 6" using nb by simp_all
  have t: "\<bar>p\<bar> < 8" if "\<bar>p - q\<bar> \<le> 1 / 4000000" "0 \<le> q" "q \<le> 6" for p q :: rat using that by linarith
  have t2: "\<bar>r - q\<bar> \<le> 1 / 1000000" if "\<bar>r - p\<bar> \<le> 1 / 4000000" "\<bar>p - q\<bar> \<le> 1 / 4000000" for p q r :: rat
    using that by linarith
  have lt: "\<bar>?n * ?c\<bar> < 2 powi 3" using t[OF e1 q] by simp
  have "(2::rat) powi (3 - int (prec F32) - 1) \<le> 1 / 4000000" by (simp add: F32_def power_int_minus)
  with rnd_abs_error[OF lt, of F32] have e2: "\<bar>rnd F32 (?n * ?c) - ?n * ?c\<bar> \<le> 1 / 4000000"
    by (simp add: F32_def)
  have "\<bar>?n * ?c\<bar> \<le> 2 powi 100" by (rule less_imp_le, rule order.strict_trans2[OF lt]) simp
  then have m: "is_fin (fmul F32 (fint F32 n) (flit F32 (78125 / 10 ^ 9)))"
    "fval (fmul F32 (fint F32 n) (flit F32 (78125 / 10 ^ 9))) = rnd F32 (?n * ?c)"
    using fin_mul[OF n(1) l(1), of F32] below_top32 n(2) l(2) by auto
  have "\<bar>rnd F32 (?n * ?c) - ?n * (78125 / 10 ^ 9)\<bar> \<le> 1 / 1000000"
    by (rule t2[OF e2 e1])
  then show ?thesis using m by simp
qed

lemma u16_range: "0 \<le> uint (w :: u16) \<and> uint w < 65536"
  using uint_lt2p[of w] by simp

lemma u8_range: "0 \<le> uint (w :: u8) \<and> uint w < 256"
  using uint_lt2p[of w] by simp

lemma soc_value:
  assumes "0 \<le> m" "m < 256" "0 \<le> n" "n < 256"
  shows "is_fin (fadd F32 (fint F32 m) (fdiv F32 (fint F32 n) (flit F32 256))) \<and>
    fval (fadd F32 (fint F32 m) (fdiv F32 (fint F32 n) (flit F32 256))) = of_int (256 * m + n) / 256"
proof -
  have a: "is_fin (fint F32 m)" "fval (fint F32 m) = of_int m" and b: "is_fin (fint F32 n)" "fval (fint F32 n) = of_int n"
    using fint32[of m] fint32[of n] assms by auto
  have l: "is_fin (flit F32 256)" "fval (flit F32 256) = 256"
    using lit32[of 256] r32.int_exact[of 256] by (simp_all add: power_int_def)
  have top: "\<bar>rnd F32 (of_int m / 256)\<bar> < 2 powi emax F32" if "\<bar>m\<bar> < 2 ^ 24" for m
  proof -
    have "\<bar>of_int m :: rat\<bar> < 2 ^ 24" using that by (metis of_int_abs of_int_less_iff of_int_numeral of_int_power)
    then have "\<bar>of_int m / 256 :: rat\<bar> < 2 powi 24" by (simp add: abs_divide)
    then show ?thesis by (intro below_top32 less_imp_le) (erule order.strict_trans2, simp)
  qed
  have d: "is_fin (fdiv F32 (fint F32 n) (flit F32 256)) \<and> fval (fdiv F32 (fint F32 n) (flit F32 256)) = of_int n / 256"
    using fin_div[OF b(1) l(1), of F32] top[of n] rnd32_frac[of n] assms unfolding b(2) l(2) by simp
  have s: "of_int m + of_int n / 256 = (of_int (256 * m + n) / 256 :: rat)" by (simp add: field_simps)
  have m: "\<bar>256 * m + n\<bar> < 2 ^ 24" using assms by simp
  show ?thesis
    using fin_add[OF a(1) conjunct1[OF d], of F32] top[OF m] rnd32_frac[OF m]
    unfolding a(2) conjunct2[OF d] s by simp
qed

text \<open>Fuel-gauge registers are decoded faithfully for every value of the bytes: the MAX17048 cell
  voltage within a microvolt of 78.125 uV per count, its charge exactly, in 1/256 percent; the result is
  always a finite number.\<close>

theorem battery_decode:
  "is_fin (decode_max17048_vcell v) \<and> is_fin (decode_max17048_soc v) \<and>
   \<bar>fval (decode_max17048_vcell v) - of_int (uint (from_be16 (v ! 0) (v ! 1))) * (78125 / 10 ^ 9)\<bar> \<le> 1 / 10 ^ 6 \<and>
   fval (decode_max17048_soc v) = of_int (256 * uint (v ! 0) + uint (v ! 1)) / 256"
  using vcell_value[of "uint (from_be16 (v ! 0) (v ! 1))"] u16_range[of "from_be16 (v ! 0) (v ! 1)"]
    soc_value[of "uint (v ! 0)" "uint (v ! 1)"] u8_range[of "v ! 0"] u8_range[of "v ! 1"]
  unfolding decode_max17048_vcell_def decode_max17048_soc_def by simp

text \<open>The gauge that is detected is the first of the two that answers both of its reads.\<close>

lemma detect_order:
  "fst (detect_monitor drv b) = Some Max17048 \<longleftrightarrow> (\<exists>r. fst (read_battery drv Max17048 b) = Inr r)"
  by (auto simp: detect_monitor_def read_battery_def split: prod.splits sum.splits)

end
