(* ===== verification/Pins.thy ===== *)
theory Pins
  imports Prelude
begin

text \<open>
  GPIO allocation (src/src/pins.rs): the registry of owners and the pool of board lines. The locale
  \<open>ownership\<close> is the contract between the registry and the pool; the registry interprets it.
  The claims the drivers make are in \<open>Drivers\<close> and \<open>Boot\<close>.
\<close>

section \<open>The registry\<close>

definition GPIO_COUNT :: nat where "GPIO_COUNT = 49"

datatype pin_error =
    AlreadyInUse "32 word" string
  | NotAvailable "32 word"

type_synonym pin_registry = "string option list"

definition registry_new :: pin_registry where
  "registry_new = replicate GPIO_COUNT None"

text \<open>A pin number is an \<open>i32\<close>; \<open>pin as usize\<close> (32 bits on this target) reads the same bits
  unsigned, so a negative number becomes a huge index.\<close>

type_synonym pin = "32 word"

abbreviation as_usize :: "pin \<Rightarrow> nat" where
  "as_usize pin \<equiv> unat pin"

definition claim :: "pin \<Rightarrow> string \<Rightarrow> pin_registry \<Rightarrow> (pin_error + unit) \<times> pin_registry" where
  "claim pin owner owners =
     (let i = as_usize pin in
      if i < length owners
      then (case owners ! i of
              Some existing \<Rightarrow> (Inl (AlreadyInUse pin existing), owners)
            | None \<Rightarrow> (Inr (), owners[i := Some owner]))
      else (Inl (NotAvailable pin), owners))"

definition release :: "pin \<Rightarrow> pin_registry \<Rightarrow> pin_registry" where
  "release pin owners =
     (let i = as_usize pin in if i < length owners then owners[i := None] else owners)"

definition owner_of :: "pin \<Rightarrow> pin_registry \<Rightarrow> string option" where
  "owner_of pin owners =
     (let i = as_usize pin in if i < length owners then owners ! i else None)"

text \<open>What the registry promises its users: at most one owner per pin, until it is released.\<close>

locale ownership =
  fixes acquire :: "'p \<Rightarrow> 'o \<Rightarrow> 's \<Rightarrow> ('e + unit) \<times> 's"
    and give_back :: "'p \<Rightarrow> 's \<Rightarrow> 's"
    and holder :: "'p \<Rightarrow> 's \<Rightarrow> 'o option"
    and inv :: "'s \<Rightarrow> bool"
    and known :: "'p \<Rightarrow> bool"
  assumes acquire_free: "inv s \<Longrightarrow> known p \<Longrightarrow> holder p s = None \<Longrightarrow>
      fst (acquire p a s) = Inr () \<and> holder p (snd (acquire p a s)) = Some a"
    and acquire_held: "inv s \<Longrightarrow> holder p s = Some b \<Longrightarrow> (\<exists>e. acquire p a s = (Inl e, s))"
    and acquire_unknown: "inv s \<Longrightarrow> \<not> known p \<Longrightarrow> (\<exists>e. acquire p a s = (Inl e, s))"
    and acquire_other: "inv s \<Longrightarrow> known p \<Longrightarrow> known q \<Longrightarrow> q \<noteq> p \<Longrightarrow> holder q (snd (acquire p a s)) = holder q s"
    and give_back_holder: "inv s \<Longrightarrow> known p \<Longrightarrow> known q \<Longrightarrow>
      holder q (give_back p s) = (if q = p then None else holder q s)"
    and give_back_unknown: "inv s \<Longrightarrow> \<not> known p \<Longrightarrow> give_back p s = s"
    and acquire_inv: "inv s \<Longrightarrow> inv (snd (acquire p a s))"
    and give_back_inv: "inv s \<Longrightarrow> inv (give_back p s)"
begin

lemma acquire_ok_iff:
  assumes "inv s"
  shows "fst (acquire p a s) = Inr () \<longleftrightarrow> known p \<and> holder p s = None"
  using acquire_free[OF assms, of p a] acquire_held[OF assms, of p _ a] acquire_unknown[OF assms, of p a]
  by (cases "holder p s"; cases "known p") auto

lemma acquire_holder:
  assumes "inv s" "known p" "known q"
  shows "holder q (snd (acquire p a s)) = (if q = p \<and> holder p s = None then Some a else holder q s)"
proof (cases "q = p")
  case True
  then show ?thesis
    using acquire_free[OF assms(1,2), of a] acquire_held[OF assms(1), of p _ a] by (cases "holder p s") fastforce+
next
  case False
  then show ?thesis using acquire_other[OF assms(1,2,3) False] by simp
qed

lemma give_back_keeps:
  assumes "inv s" "known q" "p \<noteq> q"
  shows "holder q (give_back p s) = holder q s"
  using give_back_holder[OF assms(1) _ assms(2), of p] give_back_unknown[OF assms(1), of p] assms(3)
  by (cases "known p") auto

end

definition on_chip :: "pin \<Rightarrow> bool" where
  "on_chip pin \<longleftrightarrow> as_usize pin < GPIO_COUNT"

interpretation registry: ownership claim release owner_of "\<lambda>r. length r = GPIO_COUNT" on_chip
  by unfold_locales (auto simp: claim_def release_def owner_of_def on_chip_def Let_def word_unat_eq_iff split: option.splits)

section \<open>The pool\<close>

text \<open>
  The pool holds one \<open>Option<GpioN>\<close> per board line; \<open>lines\<close> lists the numbers of those that are
  still \<open>Some\<close>. The sixteen \<open>take_gpioN\<close> are \<open>take_gpio N\<close>; the token handed out is the number.
\<close>

record pin_pool =
  reg :: pin_registry
  pool_lines :: "pin list"

definition board_lines :: "pin list" where
  "board_lines = [0, 1, 2, 7, 10, 12, 21, 33, 35, 36, 37, 39, 40, 41, 42, 45]"

definition from_board_pins :: pin_pool where
  "from_board_pins = \<lparr>reg = registry_new, pool_lines = board_lines\<rparr>"

definition pool_release :: "pin \<Rightarrow> pin_pool \<Rightarrow> pin_pool" where
  "pool_release pin pool = pool\<lparr>reg := release pin (reg pool)\<rparr>"

definition take_gpio :: "pin \<Rightarrow> string \<Rightarrow> pin_pool \<Rightarrow> (pin_error + pin) \<times> pin_pool" where
  "take_gpio n owner pool =
     (case claim n owner (reg pool) of
        (Inl e, r) \<Rightarrow> (Inl e, pool\<lparr>reg := r\<rparr>)
      | (Inr u, r) \<Rightarrow>
          if n \<in> set (pool_lines pool)
          then (Inr n, pool\<lparr>reg := r, pool_lines := filter (\<lambda>x. x \<noteq> n) (pool_lines pool)\<rparr>)
          else (Inl (NotAvailable n), pool\<lparr>reg := release n r\<rparr>))"

datatype pin_op = Take pin string | Release pin

fun pool_run :: "pin_op list \<Rightarrow> pin_pool \<Rightarrow> (pin_error + pin) list \<times> pin_pool" where
  "pool_run [] pool = ([], pool)"
| "pool_run (Take n a # ops) pool =
     (case take_gpio n a pool of (r, pool1) \<Rightarrow> case pool_run ops pool1 of (rs, pool2) \<Rightarrow> (r # rs, pool2))"
| "pool_run (Release n # ops) pool = pool_run ops (pool_release n pool)"

lemma board_on_chip: "n \<in> set board_lines \<Longrightarrow> on_chip n"
  by (auto simp: board_lines_def on_chip_def GPIO_COUNT_def)

definition pool_inv :: "pin_pool \<Rightarrow> bool" where
  "pool_inv pool \<longleftrightarrow> length (reg pool) = GPIO_COUNT \<and> set (pool_lines pool) \<subseteq> set board_lines"

lemma pool_inv_init: "pool_inv from_board_pins"
  by (simp add: pool_inv_def from_board_pins_def registry_new_def)

lemma take_inv: "pool_inv pool \<Longrightarrow> pool_inv (snd (take_gpio n a pool))"
  using registry.acquire_inv[of "reg pool" n a] registry.give_back_inv
  by (auto simp: pool_inv_def take_gpio_def split: prod.splits sum.splits)

lemma release_inv: "pool_inv pool \<Longrightarrow> pool_inv (pool_release n pool)"
  using registry.give_back_inv by (simp add: pool_inv_def pool_release_def)

lemma take_result:
  assumes "pool_inv pool"
  shows "fst (take_gpio n a pool) = Inr m \<longleftrightarrow> m = n \<and> n \<in> set (pool_lines pool) \<and> owner_of n (reg pool) = None"
proof -
  have "n \<in> set (pool_lines pool) \<Longrightarrow> on_chip n" using assms board_on_chip by (auto simp: pool_inv_def)
  then show ?thesis
    using registry.acquire_ok_iff[of "reg pool" n a] assms
    by (auto simp: pool_inv_def take_gpio_def split: prod.splits sum.splits)
qed

lemma take_lines: "pool_lines (snd (take_gpio n a pool)) =
    (if \<exists>m. fst (take_gpio n a pool) = Inr m then filter (\<lambda>x. x \<noteq> n) (pool_lines pool) else pool_lines pool)"
  by (auto simp: take_gpio_def split: prod.splits sum.splits)

lemma take_owner:
  assumes "pool_inv pool" "on_chip q" "owner_of q (reg pool) = Some a"
  shows "owner_of q (reg (snd (take_gpio n b pool))) = Some a"
proof (cases "on_chip n")
  case True
  have h: "owner_of q (snd (claim n b (reg pool))) = Some a" "length (snd (claim n b (reg pool))) = GPIO_COUNT"
    using registry.acquire_holder[of "reg pool" n q b] registry.acquire_inv[of "reg pool" n b] assms True
    by (auto simp: pool_inv_def)
  have "fst (claim n b (reg pool)) = Inr () \<Longrightarrow> n \<noteq> q"
    using registry.acquire_ok_iff[of "reg pool" n b] assms by (auto simp: pool_inv_def)
  then show ?thesis
    using h registry.give_back_holder[of "snd (claim n b (reg pool))" n q] assms True
    by (auto simp: take_gpio_def split: prod.splits sum.splits)
next
  case False
  then show ?thesis
    using registry.acquire_unknown[of "reg pool" n b] assms by (auto simp: take_gpio_def pool_inv_def)
qed

definition granted :: "(pin_error + pin) list \<Rightarrow> pin list" where
  "granted rs = [m. Inr m \<leftarrow> rs]"

lemma granted_simps [simp]:
  "granted [] = []" "granted (Inl e # rs) = granted rs" "granted (Inr m # rs) = m # granted rs"
  by (simp_all add: granted_def)

lemma run_granted:
  "pool_inv pool \<Longrightarrow> distinct (granted (fst (pool_run ops pool))) \<and> set (granted (fst (pool_run ops pool))) \<subseteq> set (pool_lines pool)"
proof (induction ops pool rule: pool_run.induct)
  case (2 n a ops pool)
  obtain r pool1 where t: "take_gpio n a pool = (r, pool1)" by fastforce
  have IH: "distinct (granted (fst (pool_run ops pool1)))" "set (granted (fst (pool_run ops pool1))) \<subseteq> set (pool_lines pool1)"
    using 2 take_inv[OF 2(2), of n a] t by auto
  have l: "pool_lines pool1 = (if \<exists>m. r = Inr m then filter (\<lambda>x. x \<noteq> n) (pool_lines pool) else pool_lines pool)"
    using take_lines[of n a pool] t by simp
  show ?case
  proof (cases r)
    case (Inr m)
    then have "m = n" "n \<in> set (pool_lines pool)" using take_result[OF 2(2), of n a m] t by auto
    then show ?thesis using IH l t Inr by (auto split: prod.splits)
  qed (use IH l t in \<open>auto split: prod.splits\<close>)
next
  case (3 n ops pool)
  then show ?case using release_inv[of pool n] by (auto simp: pool_release_def)
qed simp

lemma pins_run_inv: "pool_inv pool \<Longrightarrow> pool_inv (snd (pool_run ops pool))"
proof (induction ops pool rule: pool_run.induct)
  case (2 n a ops pool)
  then show ?case using take_inv[OF 2(2), of n a] by (auto split: prod.splits)
qed (auto simp: release_inv)

lemma run_owner:
  assumes "pool_inv pool" "on_chip q" "owner_of q (reg pool) = Some a" "Release q \<notin> set ops"
  shows "owner_of q (reg (snd (pool_run ops pool))) = Some a \<and> pool_inv (snd (pool_run ops pool))"
  using assms
proof (induction ops pool rule: pool_run.induct)
  case (2 n b ops pool)
  then show ?case using take_owner[OF 2(2-4), of n b] take_inv[OF 2(2), of n b]
    by (auto split: prod.splits)
next
  case (3 n ops pool)
  then have "owner_of q (reg (pool_release n pool)) = Some a"
    using registry.give_back_keeps[of "reg pool" q n] by (auto simp: pool_release_def pool_inv_def)
  then show ?case using 3 release_inv[of pool n] by simp
qed simp

section \<open>Claims and releases of a driver\<close>

lemma owner_off_chip: "length r = GPIO_COUNT \<Longrightarrow> \<not> on_chip q \<Longrightarrow> owner_of q r = None"
  by (simp add: owner_of_def on_chip_def Let_def)

lemma take_ok:
  assumes "pool_inv pool" "n \<in> set (pool_lines pool)" "owner_of n (reg pool) = None"
  obtains pool1 where "take_gpio n a pool = (Inr n, pool1)" "pool_inv pool1"
    "\<And>q. owner_of q (reg pool1) = (if q = n then Some a else owner_of q (reg pool))"
    "pool_lines pool1 = filter (\<lambda>x. x \<noteq> n) (pool_lines pool)"
proof -
  have n: "on_chip n" using assms(1,2) board_on_chip by (auto simp: pool_inv_def)
  have l: "length (reg pool) = GPIO_COUNT" using assms(1) by (simp add: pool_inv_def)
  obtain r where c: "claim n a (reg pool) = (Inr (), r)"
    using registry.acquire_free[OF l n assms(3), of a] by (metis prod.collapse)
  let ?p = "pool\<lparr>reg := r, pool_lines := filter (\<lambda>x. x \<noteq> n) (pool_lines pool)\<rparr>"
  have t: "take_gpio n a pool = (Inr n, ?p)" using c assms(2) by (simp add: take_gpio_def)
  have o: "owner_of q (reg ?p) = (if q = n then Some a else owner_of q (reg pool))" for q
    using registry.acquire_holder[OF l n, of q a] registry.acquire_inv[OF l, of n a] assms(3)
      owner_off_chip[OF l, of q] owner_off_chip[of r q] n c
    by (cases "on_chip q") auto
  show thesis using that[OF t] o take_inv[OF assms(1), of n a] t by simp
qed

lemma release_owner:
  assumes "pool_inv pool"
  shows "owner_of q (reg (pool_release n pool)) = (if q = n then None else owner_of q (reg pool))"
  using assms registry.give_back_holder[of "reg pool" n q] registry.give_back_unknown[of "reg pool" n]
    owner_off_chip[of "reg pool" q] registry.give_back_inv[of "reg pool" n] owner_off_chip[of "release n (reg pool)" q]
  by (cases "on_chip q"; cases "on_chip n") (auto simp: pool_inv_def pool_release_def)

section \<open>Correctness\<close>

text \<open>C40: A GPIO line is handed out at most once: in any sequence of claims and releases on the
  board's pool no token is given twice, only board lines are given, and as long as a line is not
  released every claim of it is refused, naming the owner.\<close>

theorem pins_exclusive:
  "distinct (granted (fst (pool_run ops from_board_pins))) \<and>
   set (granted (fst (pool_run ops from_board_pins))) \<subseteq> set board_lines \<and>
   (\<forall>n a ops' b. fst (take_gpio n a (snd (pool_run ops from_board_pins))) = Inr n \<longrightarrow> Release n \<notin> set ops' \<longrightarrow>
      fst (take_gpio n b (snd (pool_run ops' (snd (take_gpio n a (snd (pool_run ops from_board_pins))))))) =
        Inl (AlreadyInUse n a))"
proof -
  let ?p = "snd (pool_run ops from_board_pins)"
  have held: "fst (take_gpio n b (snd (pool_run ops' (snd (take_gpio n a ?p))))) = Inl (AlreadyInUse n a)"
    if t: "fst (take_gpio n a ?p) = Inr n" and r: "Release n \<notin> set ops'" for n a b ops'
  proof -
    note ip = pins_run_inv[OF pool_inv_init, of ops]
    have n: "on_chip n" "owner_of n (reg ?p) = None"
      using take_result[OF ip, of n a n] t ip board_on_chip by (auto simp: pool_inv_def)
    then have "owner_of n (reg (snd (take_gpio n a ?p))) = Some a"
      using registry.acquire_free[of "reg ?p" n a] ip t
      by (auto simp: take_gpio_def pool_inv_def split: prod.splits sum.splits if_splits)
    from run_owner[OF take_inv[OF ip] n(1) this r] show ?thesis
      using n(1) by (auto simp: take_gpio_def claim_def owner_of_def Let_def on_chip_def pool_inv_def split: if_splits)
  qed
  show ?thesis using run_granted[OF pool_inv_init, of ops] held by (auto simp: from_board_pins_def)
qed

theorem pins_exclusive_witness:
  "fst (take_gpio 12 ''display'' (snd (pool_run [] (snd (take_gpio 12 ''pps'' (snd (pool_run [] from_board_pins))))))) =
     Inl (AlreadyInUse 12 ''pps'')"
  using pins_exclusive[of "[]"] by (simp add: take_gpio_def claim_def from_board_pins_def registry_new_def GPIO_COUNT_def board_lines_def)

text \<open>A released line is not available again: the registry forgets the owner, the token is gone.\<close>

theorem released_line_unavailable:
  "pool_run [Take 10 ''storage'', Release 10, Take 10 ''storage''] from_board_pins =
   ([Inr 10, Inl (NotAvailable 10)], from_board_pins\<lparr>pool_lines := [0, 1, 2, 7, 12, 21, 33, 35, 36, 37, 39, 40, 41, 42, 45]\<rparr>)"
  by code_simp

end
