(* ===== verification/Nmea.thy ===== *)
theory Nmea
  imports Calendar IEEE_Float "HOL-Library.Signed_Division"
begin

text \<open>
  NMEA sentences (the parsers of src/src/gps.rs): framing and checksum, the fields, the RMC and
  GGA parsers over the snapshot, and local time. The libraries \<open>chrono\<close> and \<open>chrono-tz\<close> are the
  parameters \<open>C\<close> and \<open>L\<close>; the zone in force, a static of the code, is the configuration \<open>cfg\<close>.
\<close>

section \<open>Sentences and checksums\<close>

definition xor_bytes :: "string \<Rightarrow> u8" where
  "xor_bytes s = foldl (\<lambda>acc c. acc XOR of_nat (byte_of c)) 0 s"

definition nmea_frame :: "string \<Rightarrow> string" where
  "nmea_frame body = ''$'' @ body @ ''*'' @ hex_fixed 2 (unat (xor_bytes body)) @ [char_of (13 :: nat), char_of (10 :: nat)]"

definition nmea_checksum_valid :: "string \<Rightarrow> bool" where
  "nmea_checksum_valid sentence =
     (if \<not> is_ascii sentence then False
      else if (case sentence of [] \<Rightarrow> True | c # _ \<Rightarrow> c \<noteq> CHR ''$'') then False
      else (case rfind_char (CHR ''*'') sentence of None \<Rightarrow> False
            | Some star \<Rightarrow>
              (case slice sentence (star + 1) (star + 3) of None \<Rightarrow> False
               | Some hex \<Rightarrow>
                 (case parse_uint 16 255 hex of None \<Rightarrow> False
                  | Some expected \<Rightarrow> xor_bytes (take (star - 1) (drop 1 sentence)) = of_nat expected))))"

section \<open>Fields\<close>

definition first6 :: "string \<Rightarrow> string option" where
  "first6 raw = (if length raw < 6 \<or> \<not> is_ascii raw then None else Some (take 6 raw))"

definition parse_hhmmss :: "string \<Rightarrow> string option" where
  "parse_hhmmss raw = first6 raw"

definition parse_ddmmyy :: "string \<Rightarrow> string option" where
  "parse_ddmmyy raw = first6 raw"

abbreviation at2 :: "nat \<Rightarrow> string \<Rightarrow> string" where
  "at2 i s \<equiv> take 2 (drop i s)"

definition format_hhmmss :: "string \<Rightarrow> string" where
  "format_hhmmss raw6 = at2 0 raw6 @ '':'' @ at2 2 raw6 @ '':'' @ at2 4 raw6"

definition format_ddmmyy :: "string \<Rightarrow> string" where
  "format_ddmmyy raw6 = ''20'' @ at2 4 raw6 @ ''-'' @ at2 2 raw6 @ ''-'' @ at2 0 raw6"

text \<open>
  \<open>str::parse::<f32>\<close>: an optional sign, then \<open>inf\<close>, \<open>infinity\<close>, \<open>nan\<close> in any case, or a decimal
  number with at least one digit, an optional point and an optional exponent; the value is the
  nearest single-precision number.
\<close>

abbreviation is_digit :: "char \<Rightarrow> bool" where
  "is_digit c \<equiv> digit 10 c \<noteq> None"

definition parse_exponent :: "string \<Rightarrow> int option" where
  "parse_exponent s = (case s of [] \<Rightarrow> Some 0
     | c # r \<Rightarrow> if to_lower c \<noteq> CHR ''e'' then None
         else let (neg, ds) = (case r of [] \<Rightarrow> (False, [])
                | d # r' \<Rightarrow> if d = CHR ''-'' then (True, r') else if d = CHR ''+'' then (False, r') else (False, r))
              in if ds = [] then None
                 else map_option (\<lambda>v. if neg then - int v else int v) (digits_val 10 0 ds))"

definition parse_decimal :: "string \<Rightarrow> rat option" where
  "parse_decimal s =
     (let int_part = takeWhile is_digit s; rest = dropWhile is_digit s;
          (frac, rest) = (case rest of [] \<Rightarrow> ([], [])
             | c # r \<Rightarrow> if c = CHR ''.'' then (takeWhile is_digit r, dropWhile is_digit r) else ([], rest))
      in if int_part @ frac = [] then None
         else case parse_exponent rest of None \<Rightarrow> None
              | Some e \<Rightarrow> map_option (\<lambda>v. of_nat v * 10 powi (e - int (length frac))) (digits_val 10 0 (int_part @ frac)))"

definition parse_f32 :: "string \<Rightarrow> fp option" where
  "parse_f32 s =
     (let (neg, r) = (case s of [] \<Rightarrow> (False, [])
            | c # r \<Rightarrow> if c = CHR ''-'' then (True, r) else if c = CHR ''+'' then (False, r) else (False, s));
          l = List.map to_lower r;
          magnitude = (if l = ''inf'' \<or> l = ''infinity'' then Some (Inf False)
                       else if l = ''nan'' then Some NaN
                       else map_option (pack F32 False) (parse_decimal r))
      in if neg then map_option fneg magnitude else magnitude)"

definition nmea_to_decimal :: "string \<Rightarrow> string \<Rightarrow> fp option" where
  "nmea_to_decimal value dir =
     (case parse_f32 value of None \<Rightarrow> None
      | Some raw \<Rightarrow>
        let degrees = ffloor (fdiv F32 raw (flit F32 100));
            minutes = fsub F32 raw (fmul F32 degrees (flit F32 100));
            decimal = fadd F32 degrees (fdiv F32 minutes (flit F32 60))
        in Some (if dir = ''S'' \<or> dir = ''W'' then fneg decimal else decimal))"

text \<open>A UTC calendar time (\<open>NaiveDateTime\<close>) is represented by its Unix seconds.\<close>

definition utc_datetime_from_fields :: "chrono \<Rightarrow> string \<Rightarrow> string \<Rightarrow> int option" where
  "utc_datetime_from_fields C utc_date utc_time =
     (case (parse_ddmmyy utc_date, parse_hhmmss utc_time) of
        (Some ddmmyy, Some hhmmss) \<Rightarrow>
          (case (parse_u32 (at2 0 ddmmyy), parse_u32 (at2 2 ddmmyy), parse_i32 (at2 4 ddmmyy)) of
             (Some d, Some mo, Some y) \<Rightarrow>
               (case (parse_u32 (at2 0 hhmmss), parse_u32 (at2 2 hhmmss), parse_u32 (at2 4 hhmmss)) of
                  (Some h, Some mi, Some s) \<Rightarrow> utc_timestamp C (2000 + y, mo, d, h, mi, s)
                | _ \<Rightarrow> None)
           | _ \<Rightarrow> None)
      | _ \<Rightarrow> None)"

section \<open>Local time\<close>

text \<open>What the sources use of \<open>chrono-tz\<close>: zone names, and the offset of a zone from UTC, in
  seconds, at a UTC instant.\<close>

record 'tz tz_lib =
  tz_from_str :: "string \<Rightarrow> 'tz option"
  tz_offset :: "'tz \<Rightarrow> int \<Rightarrow> int"

text \<open>The zone in force: the runtime override, else the one compiled in as \<open>LOCAL_TZ\<close>.\<close>

record 'tz tz_config =
  runtime_tz :: "'tz option"
  local_tz_env :: "string option"

definition configured_timezone :: "'tz tz_lib \<Rightarrow> 'tz tz_config \<Rightarrow> 'tz option" where
  "configured_timezone L cfg = (case runtime_tz cfg of Some tz \<Rightarrow> Some tz
     | None \<Rightarrow> (case local_tz_env cfg of None \<Rightarrow> None | Some name \<Rightarrow> tz_from_str L name))"

definition set_runtime_timezone :: "'tz tz_lib \<Rightarrow> string \<Rightarrow> 'tz tz_config \<Rightarrow> bool \<times> 'tz tz_config" where
  "set_runtime_timezone L tz_name cfg = (case tz_from_str L tz_name of None \<Rightarrow> (False, cfg)
     | Some tz \<Rightarrow> (True, cfg\<lparr>runtime_tz := Some tz\<rparr>))"

definition as_i8 :: "int \<Rightarrow> int" where
  "as_i8 x = (x + 128) mod 256 - 128"

definition date_time_text :: "chrono \<Rightarrow> int \<Rightarrow> (string \<times> string) option" where
  "date_time_text C t = (case utc_fields C t of None \<Rightarrow> None
     | Some (y, mo, d, h, mi, s) \<Rightarrow> Some (fmt_ymd C y mo d, fmt_hms C h mi s))"

definition local_datetime_from_naive_utc ::
    "chrono \<Rightarrow> 'tz tz_lib \<Rightarrow> 'tz tz_config \<Rightarrow> int \<Rightarrow> fp \<Rightarrow> (string \<times> string \<times> int) option" where
  "local_datetime_from_naive_utc C L cfg utc lon =
     (case configured_timezone L cfg of
        Some tz \<Rightarrow>
          let off = tz_offset L tz utc in
          map_option (\<lambda>(date, time). (date, time, as_i8 (off sdiv 3600))) (date_time_text C (utc + off))
      | None \<Rightarrow>
          let tz_offset_h = fcast (- 128) 127 (fround (fdiv F32 lon (flit F32 15))) in
          map_option (\<lambda>(date, time). (date, time, tz_offset_h)) (date_time_text C (utc + tz_offset_h * 3600)))"

definition tz_offset_hours_at_unix :: "chrono \<Rightarrow> 'tz tz_lib \<Rightarrow> 'tz tz_config \<Rightarrow> int \<Rightarrow> int" where
  "tz_offset_hours_at_unix C L cfg utc_unix_seconds =
     (case configured_timezone L cfg of None \<Rightarrow> 0
      | Some tz \<Rightarrow> (case utc_fields C utc_unix_seconds of None \<Rightarrow> 0
          | Some _ \<Rightarrow> as_i8 (tz_offset L tz utc_unix_seconds sdiv 3600)))"

definition local_from_utc_unix :: "chrono \<Rightarrow> 'tz tz_lib \<Rightarrow> 'tz tz_config \<Rightarrow> int \<Rightarrow> (string \<times> string) option" where
  "local_from_utc_unix C L cfg utc_unix_seconds =
     (case configured_timezone L cfg of None \<Rightarrow> None
      | Some tz \<Rightarrow> (case utc_fields C utc_unix_seconds of None \<Rightarrow> None
          | Some _ \<Rightarrow> date_time_text C (utc_unix_seconds + tz_offset L tz utc_unix_seconds)))"

section \<open>The snapshot\<close>

record gps_snapshot =
  local_date :: string
  local_time :: string
  tz_offset_hours :: int
  utc_unix_seconds :: "int option"
  lat :: fp
  lon :: fp
  gps_fix :: bool
  sats :: nat
  altitude_m :: "fp option"

definition gps_snapshot_default :: gps_snapshot where
  "gps_snapshot_default = \<lparr>local_date = '''', local_time = '''', tz_offset_hours = 0, utc_unix_seconds = None,
     lat = Num 0, lon = Num 0, gps_fix = False, sats = 0, altitude_m = None\<rparr>"

text \<open>The result says whether the parser returned \<open>Some(())\<close>.\<close>

definition set_position :: "string list \<Rightarrow> gps_snapshot \<Rightarrow> gps_snapshot" where
  "set_position fs gps =
     (case (nmea_to_decimal (fs ! 3) (fs ! 4), nmea_to_decimal (fs ! 5) (fs ! 6)) of
        (Some la, Some lo) \<Rightarrow> gps\<lparr>lat := la, lon := lo\<rparr> | _ \<Rightarrow> gps)"

definition set_time :: "chrono \<Rightarrow> 'tz tz_lib \<Rightarrow> 'tz tz_config \<Rightarrow> string \<Rightarrow> string \<Rightarrow> gps_snapshot \<Rightarrow> gps_snapshot" where
  "set_time C L cfg date time gps =
     (let utc_dt = utc_datetime_from_fields C date time;
          local = (case utc_dt of None \<Rightarrow> None | Some dt \<Rightarrow> local_datetime_from_naive_utc C L cfg dt (lon gps));
          (l_date, l_time, l_tz) = (case local of Some x \<Rightarrow> x | None \<Rightarrow> (format_ddmmyy date, format_hhmmss time, 0))
      in gps\<lparr>local_date := l_date, local_time := l_time, tz_offset_hours := l_tz, utc_unix_seconds := utc_dt\<rparr>)"

definition parse_rmc :: "chrono \<Rightarrow> 'tz tz_lib \<Rightarrow> 'tz tz_config \<Rightarrow> string \<Rightarrow> gps_snapshot \<Rightarrow> bool \<times> gps_snapshot" where
  "parse_rmc C L cfg sentence gps =
     (if \<not> nmea_checksum_valid sentence then (False, gps)
      else let fs = split_char (CHR '','') sentence in
        if length fs < 10 then (False, gps)
        else (case parse_hhmmss (fs ! 1) of None \<Rightarrow> (False, gps)
          | Some time \<Rightarrow>
            (case parse_ddmmyy (fs ! 9) of None \<Rightarrow> (False, gps)
             | Some date \<Rightarrow>
                (True, set_time C L cfg date time (set_position fs (gps\<lparr>gps_fix := (fs ! 2 = ''A'')\<rparr>))))))"

definition parse_gga :: "string \<Rightarrow> gps_snapshot \<Rightarrow> bool \<times> gps_snapshot" where
  "parse_gga sentence gps =
     (if \<not> nmea_checksum_valid sentence then (False, gps)
      else let fs = split_char (CHR '','') sentence in
        if length fs < 8 then (False, gps)
        else (case parse_u8 (fs ! 7) of None \<Rightarrow> (False, gps)
          | Some n \<Rightarrow>
            let gps = gps\<lparr>sats := n\<rparr> in
            (True, if 10 \<le> length fs then gps\<lparr>altitude_m := parse_f32 (fs ! 9)\<rparr> else gps)))"

section \<open>Checksums\<close>

lemma xor_bytes_fold: "foldl (\<lambda>acc c. acc XOR of_nat (byte_of c)) a s = a XOR xor_bytes s"
proof (induction s arbitrary: a)
  case (Cons c s)
  have "foldl (\<lambda>acc c. acc XOR of_nat (byte_of c)) a (c # s) = a XOR of_nat (byte_of c) XOR xor_bytes s"
    using Cons[of "a XOR of_nat (byte_of c)"] by (simp add: xor.assoc)
  moreover have "xor_bytes (c # s) = of_nat (byte_of c) XOR xor_bytes s"
    using Cons[of "of_nat (byte_of c)"] by (simp add: xor_bytes_def)
  ultimately show ?case by (simp add: xor.assoc)
qed (simp add: xor_bytes_def)

lemma xor_bytes_simps [simp]:
  "xor_bytes [] = 0" "xor_bytes (c # s) = of_nat (byte_of c) XOR xor_bytes s"
  "xor_bytes (s @ t) = xor_bytes s XOR xor_bytes t"
  using xor_bytes_fold[of "of_nat (byte_of c)" s] xor_bytes_fold[of "xor_bytes s" t]
  by (simp_all add: xor_bytes_def)

lemma byte_word_inj: "(of_nat (byte_of c) :: u8) = of_nat (byte_of d) \<longleftrightarrow> c = d"
proof
  have "byte_of x < 256" for x by (metis mod_less_divisor of_char_mod_256 zero_less_numeral)
  then have u: "unat (of_nat (byte_of x) :: u8) = byte_of x" for x by (rule unat_small)
  assume "(of_nat (byte_of c) :: u8) = of_nat (byte_of d)"
  then have "byte_of c = byte_of d" using u by metis
  then show "c = d" by simp
qed simp

lemma position_append:
  "position P (xs @ x # ys) = Some (length xs)" if "P x" "\<forall>y \<in> set xs. \<not> P y"
  using that by (induction xs) auto

lemma rfind_char_last: "c \<notin> set h \<Longrightarrow> rfind_char c (a @ c # h) = Some (length a)"
  using position_append[of "\<lambda>x. x = c" c "rev h" "rev a"] by (force simp: rfind_char_def)

lemma checksum_iff:
  assumes "CHR ''*'' \<notin> set h"
  shows "nmea_checksum_valid (''$'' @ body @ ''*'' @ h) \<longleftrightarrow> is_ascii body \<and> is_ascii h \<and> 2 \<le> length h \<and>
    (\<exists>v. parse_uint 16 255 (take 2 h) = Some v \<and> xor_bytes body = of_nat v)"
proof -
  let ?s = "''$'' @ body @ ''*'' @ h"
  have star: "rfind_char (CHR ''*'') ?s = Some (Suc (length body))"
    using rfind_char_last[OF assms, of "''$'' @ body"] by simp
  have sl: "slice ?s (Suc (length body) + 1) (Suc (length body) + 3) = (if 2 \<le> length h then Some (take 2 h) else None)"
    if "is_ascii body" "is_ascii h"
  proof (cases "2 \<le> length h")
    case True
    then show ?thesis using that ascii_slice[of ?s "Suc (length body) + 1" "Suc (length body) + 3"] by simp
  qed (simp add: slice_def)
  have body: "take (Suc (length body) - 1) (drop 1 ?s) = body" by simp
  show ?thesis
    unfolding nmea_checksum_valid_def star option.case body using sl by (auto split: option.splits)
qed

lemma hex2_value: "parse_uint 16 255 (hex_fixed 2 (unat (w :: u8))) = Some (unat w)"
proof -
  have l: "length (hex_fixed 2 (unat w)) = 2" by simp
  have "unat w < 256" using unsigned_less[of w] by simp
  moreover have "hd (hex_fixed 2 (unat w)) \<noteq> CHR ''+''"
  proof
    assume "hd (hex_fixed 2 (unat w)) = CHR ''+''"
    then have "byte_of (hex_char (unat w div 16 mod 16)) = 43" by (simp add: numeral_2_eq_2)
    then show False using \<open>unat w < 256\<close> by (simp add: hex_char_def split: if_splits)
  qed
  moreover obtain x y where h: "hex_fixed 2 (unat w) = [x, y]"
    using l by (metis (no_types) One_nat_def Suc_1 length_0_conv length_Suc_conv)
  ultimately show ?thesis
    using digits_val_hex_fixed[of 0 2 "unat w"] unfolding h by (simp add: parse_uint_def)
qed

lemma xor_cancel:
  fixes a :: u8
  shows "a XOR (c XOR b) = a XOR (d XOR b) \<longleftrightarrow> c = d"
proof
  have i: "x XOR (x XOR y) = y" for x y :: u8 by (simp flip: xor.assoc)
  assume "a XOR (c XOR b) = a XOR (d XOR b)"
  then have "a XOR (a XOR (c XOR b)) = a XOR (a XOR (d XOR b))" by (rule arg_cong)
  then have "b XOR c = b XOR d" unfolding i by (simp only: xor.commute)
  then have "b XOR (b XOR c) = b XOR (b XOR d)" by (rule arg_cong)
  then show "c = d" unfolding i .
qed simp

lemma hex_chars: "c \<in> set (hex_fixed w n) \<Longrightarrow> byte_of c < 128 \<and> c \<noteq> CHR ''*''"
proof (induction w arbitrary: n)
  case (Suc w)
  have "byte_of (hex_char (n mod 16)) < 128 \<and> hex_char (n mod 16) \<noteq> CHR ''*''"
  proof -
    have b: "byte_of (hex_char (n mod 16)) = (if n mod 16 < 10 then 48 + n mod 16 else 55 + n mod 16)"
      by (simp add: hex_char_def)
    then have "48 \<le> byte_of (hex_char (n mod 16))" "byte_of (hex_char (n mod 16)) < 128"
      using mod_less_divisor[of 16 n] by (auto simp del: mod_less_divisor)
    then show ?thesis by auto
  qed
  then show ?case using Suc by auto
qed simp

lemma checksum_frame: "is_ascii body \<Longrightarrow> nmea_checksum_valid (''$'' @ body @ ''*'' @ hex_fixed 2 (unat (xor_bytes body)))"
proof -
  assume a: "is_ascii body"
  let ?h = "hex_fixed 2 (unat (xor_bytes body))"
  have h: "CHR ''*'' \<notin> set ?h" "is_ascii ?h" using hex_chars[of _ 2] by (auto simp: is_ascii_def list_all_iff simp del: hex_fixed.simps)
  have "take 2 ?h = ?h" by simp
  then show ?thesis using checksum_iff[OF h(1), of body] a h(2) hex2_value[of "xor_bytes body"] by simp
qed

text \<open>What the receive loop makes of the bytes before a line feed.\<close>

definition received_line :: "string \<Rightarrow> string" where
  "received_line l = trim (trim_end_char (char_of (13 :: nat)) l)"

lemma received_line_cr:
  assumes "s \<noteq> []" "ws_head s = 0" "ws_last (rev s) = 0"
  shows "received_line (s @ [char_of (13 :: nat)]) = s"
proof -
  obtain c t where r: "rev s = c # t" using assms(1) by (cases "rev s") auto
  have "c \<noteq> char_of (13 :: nat)"
  proof
    assume "c = char_of (13 :: nat)"
    then have "ascii_ws (byte_of c)" by (simp add: ascii_ws_def)
    then have "0 < ws_last (rev s)" unfolding r by (cases t rule: ws_last.cases) (auto simp: r split: list.split)
    then show False using assms(3) by simp
  qed
  then have "trim_end_char (char_of (13 :: nat)) (s @ [char_of (13 :: nat)]) = s"
    using r by (simp add: trim_end_char_def rev_swap)
  then show ?thesis using trim_id[OF assms] by (simp add: received_line_def)
qed

lemma last_ascii: "byte_of c < 128 \<Longrightarrow> \<not> ascii_ws (byte_of c) \<Longrightarrow> ws_last (c # s) = 0"
  by (cases "c # s" rule: ws_last.cases) (auto simp: ws3_def)

text \<open>A sentence the code frames is one it accepts: for every ASCII body, the bytes
  \<open>nmea_frame\<close> produces up to the line feed come out of the receive loop's trimming with a valid
  checksum.\<close>

theorem frame_accepted:
  assumes "is_ascii body"
  shows "\<exists>l. nmea_frame body = l @ [char_of (10 :: nat)] \<and> nmea_checksum_valid (received_line l)"
proof -
  let ?s = "''$'' @ body @ ''*'' @ hex_fixed 2 (unat (xor_bytes body))"
  have head: "ws_head ?s = 0" by (cases ?s rule: ws_head.cases) (auto simp: ascii_ws_def ws3_def)
  obtain x y where h: "hex_fixed 2 (unat (xor_bytes body)) = [x, y]"
    by (metis (no_types) One_nat_def Suc_1 length_0_conv length_Suc_conv length_hex_fixed)
  have y: "byte_of y < 128" "48 \<le> byte_of y"
    using h by (auto simp: numeral_2_eq_2 hex_char_def split: if_splits)
  have "rev ?s = y # x # rev (''$'' @ body @ ''*'')" using h by simp
  moreover have "ws_last (y # x # rev (''$'' @ body @ ''*'')) = 0" using y by (intro last_ascii) (auto simp: ascii_ws_def)
  ultimately have last: "ws_last (rev ?s) = 0" by (simp only:)
  have "received_line (?s @ [char_of (13 :: nat)]) = ?s" by (rule received_line_cr) (use head last in auto)
  then show ?thesis using checksum_frame[OF assms]
    by (intro exI[of _ "?s @ [char_of (13 :: nat)]"]) (simp add: nmea_frame_def)
qed

theorem frame_accepted_witness:
  "\<exists>l. nmea_frame ''PMTK314,0,1'' = l @ [char_of (10 :: nat)] \<and> nmea_checksum_valid (received_line l)"
  by (rule frame_accepted) (simp add: is_ascii_def)

text \<open>C25: The checksum catches every corruption of a single byte: changing one byte between the
  dollar sign and the last star of an accepted sentence to any other value makes it rejected.\<close>

theorem checksum_detects_corruption:
  assumes "nmea_checksum_valid (''$'' @ a @ [c] @ b @ ''*'' @ h)" "CHR ''*'' \<notin> set h" "d \<noteq> c"
  shows "\<not> nmea_checksum_valid (''$'' @ a @ [d] @ b @ ''*'' @ h)"
proof -
  have "xor_bytes (a @ [c] @ b) \<noteq> xor_bytes (a @ [d] @ b)"
    using assms(3) by (simp add: xor_cancel byte_word_inj)
  then show ?thesis
    using checksum_iff[OF assms(2), of "a @ [c] @ b"] checksum_iff[OF assms(2), of "a @ [d] @ b"] assms(1) by auto
qed

theorem checksum_detects_corruption_witness:
  "\<not> nmea_checksum_valid (''$'' @ ''GPRM'' @ ''D'' @ ''A'' @ ''*'' @ hex_fixed 2 (unat (xor_bytes ''GPRMCA'')))"
  by (rule checksum_detects_corruption[where c = "CHR ''C''"])
    (use checksum_frame[of "''GPRMCA''"] hex_chars[of "CHR ''*''" 2] in \<open>auto simp: is_ascii_def simp del: hex_fixed.simps\<close>)

section \<open>RMC sentences\<close>

lemma split_char_ascii: "is_ascii s \<Longrightarrow> f \<in> set (split_char c s) \<Longrightarrow> is_ascii f"
proof (induction s arbitrary: f)
  case (Cons x s)
  obtain g gs where g: "split_char c s = g # gs" by (cases "split_char c s") auto
  then show ?case using Cons by (auto split: if_splits)
qed simp

lemma dec_digits2: "n < 100 \<Longrightarrow> pad2 n = [dec_char (n div 10), dec_char (n mod 10)]"
proof (cases "n < 10")
  case True
  have "CHR ''0'' = char_of (48 :: nat)" by code_simp
  with True show ?thesis by (simp add: pad2_def zero_pad_def dec_digits.simps[of n] dec_char_def numeral_2_eq_2)
next
  case False
  assume "n < 100"
  then have "dec_digits n = [dec_char (n div 10), dec_char (n mod 10)]"
    using False by (simp add: dec_digits.simps[of n] dec_digits.simps[of "n div 10"])
  then show ?thesis by (simp add: pad2_def zero_pad_def)
qed

lemma dec_char_sign: "d < 10 \<Longrightarrow> dec_char d \<noteq> CHR ''+'' \<and> dec_char d \<noteq> CHR ''-''"
proof -
  assume "d < 10"
  then have "byte_of (dec_char d) = 48 + d" by (simp add: dec_char_def)
  then show ?thesis by auto
qed

lemma parse_pad2:
  assumes "n < 100"
  shows "parse_u32 (pad2 n) = Some n" "parse_i32 (pad2 n) = Some (int n)"
  using dec_digits2[OF assms] dec_char_sign[of "n div 10"] assms
    digit_dec_char[of "n div 10"] digit_dec_char[of "n mod 10"]
  by (simp_all add: parse_u32_def parse_i32_def parse_uint_def parse_int_def)

lemma pad2_parts:
  assumes "a < 100" "b < 100" "c < 100"
  shows "take 6 (pad2 a @ pad2 b @ pad2 c @ r) = pad2 a @ pad2 b @ pad2 c"
    "at2 0 (pad2 a @ pad2 b @ pad2 c) = pad2 a" "at2 2 (pad2 a @ pad2 b @ pad2 c) = pad2 b"
    "at2 4 (pad2 a @ pad2 b @ pad2 c) = pad2 c" "\<not> length (pad2 a @ pad2 b @ pad2 c @ r) < 6"
  using dec_digits2 assms by simp_all

lemma utc_from_printed:
  assumes "calendar C" "d < 100" "mo < 100" "yy < 100" "h < 100" "mi < 100" "sec < 100"
    and "is_ascii (pad2 d @ pad2 mo @ pad2 yy @ r)" "is_ascii (pad2 h @ pad2 mi @ pad2 sec @ r')"
  shows "utc_datetime_from_fields C (pad2 d @ pad2 mo @ pad2 yy @ r) (pad2 h @ pad2 mi @ pad2 sec @ r') =
    (if valid_civil (2000 + int yy, mo, d, h, mi, sec) then Some (civil_seconds (2000 + int yy, mo, d, h, mi, sec)) else None)"
proof -
  have "utc_timestamp C (2000 + int yy, mo, d, h, mi, sec) =
    (if valid_civil (2000 + int yy, mo, d, h, mi, sec) then Some (civil_seconds (2000 + int yy, mo, d, h, mi, sec)) else None)"
    using calendar.timestamp[OF assms(1), of "2000 + int yy"] assms(4) by simp
  then show ?thesis
    using assms pad2_parts parse_pad2
    by (simp add: utc_datetime_from_fields_def parse_ddmmyy_def parse_hhmmss_def first6_def)
qed

lemma is_ascii_take: "is_ascii s \<Longrightarrow> is_ascii (take n s)"
  by (auto simp: is_ascii_def list_all_iff dest: in_set_takeD)

definition new_position :: "string list \<Rightarrow> gps_snapshot \<Rightarrow> fp \<times> fp" where
  "new_position fs gps =
     (case (nmea_to_decimal (fs ! 3) (fs ! 4), nmea_to_decimal (fs ! 5) (fs ! 6)) of
        (Some la, Some lo) \<Rightarrow> (la, lo) | _ \<Rightarrow> (lat gps, lon gps))"

lemma set_position_fields [simp]:
  "(lat (set_position fs x), lon (set_position fs x)) = new_position fs x"
  "gps_fix (set_position fs x) = gps_fix x" "sats (set_position fs x) = sats x" "altitude_m (set_position fs x) = altitude_m x"
  by (simp_all add: set_position_def new_position_def split: option.split)

lemma set_time_fields [simp]:
  "lat (set_time C L cfg x y z) = lat z" "lon (set_time C L cfg x y z) = lon z" "gps_fix (set_time C L cfg x y z) = gps_fix z"
  "sats (set_time C L cfg x y z) = sats z" "altitude_m (set_time C L cfg x y z) = altitude_m z"
  "utc_unix_seconds (set_time C L cfg x y z) = utc_datetime_from_fields C x y"
  by (simp_all add: set_time_def Let_def split: prod.split)

lemma checksum_ascii: "nmea_checksum_valid s \<Longrightarrow> is_ascii s"
  by (simp add: nmea_checksum_valid_def split: if_splits)

text \<open>When a sentence is accepted, and the snapshot it then gives.\<close>

lemma parse_rmc_cases:
  assumes "split_char (CHR '','') s = fs"
  shows "parse_rmc C L cfg s gps =
    (if nmea_checksum_valid s \<and> 10 \<le> length fs \<and> 6 \<le> length (fs ! 1) \<and> 6 \<le> length (fs ! 9)
     then (True, set_time C L cfg (take 6 (fs ! 9)) (take 6 (fs ! 1)) (set_position fs (gps\<lparr>gps_fix := (fs ! 2 = ''A'')\<rparr>)))
     else (False, gps))"
proof -
  have "is_ascii (fs ! i)" if "nmea_checksum_valid s" "i < length fs" for i
    using split_char_ascii[OF checksum_ascii[OF that(1)], of "fs ! i" "CHR '',''"] that(2) assms by auto
  then show ?thesis
    using assms by (auto simp: parse_rmc_def parse_hhmmss_def parse_ddmmyy_def first6_def Let_def)
qed

lemma rmc_outcome:
  assumes "calendar C" "split_char (CHR '','') s = fs"
    and "d < 100" "mo < 100" "yy < 100" "h < 100" "mi < 100" "sec < 100"
    and "fs ! 1 = pad2 h @ pad2 mi @ pad2 sec @ r" "fs ! 9 = pad2 d @ pad2 mo @ pad2 yy @ r'"
  shows "case parse_rmc C L cfg s gps of (ok, gps') \<Rightarrow>
    ok = (nmea_checksum_valid s \<and> 10 \<le> length fs) \<and>
    (\<not> ok \<longrightarrow> gps' = gps) \<and>
    (ok \<longrightarrow> gps_fix gps' = (fs ! 2 = ''A'') \<and> (lat gps', lon gps') = new_position fs gps \<and>
      sats gps' = sats gps \<and> altitude_m gps' = altitude_m gps \<and>
      utc_unix_seconds gps' = (if valid_civil (2000 + int yy, mo, d, h, mi, sec)
        then Some (civil_seconds (2000 + int yy, mo, d, h, mi, sec)) else None))"
proof -
  have l: "6 \<le> length (fs ! 1)" "6 \<le> length (fs ! 9)" using dec_digits2 assms(3-10) by simp_all
  have f: "take 6 (fs ! 1) = pad2 h @ pad2 mi @ pad2 sec @ []" "take 6 (fs ! 9) = pad2 d @ pad2 mo @ pad2 yy @ []"
    using assms(3-10) pad2_parts by simp_all
  have p: "new_position fs (gps\<lparr>gps_fix := x\<rparr>) = new_position fs gps" for x
    by (simp add: new_position_def split: option.split)
  have "utc_datetime_from_fields C (take 6 (fs ! 9)) (take 6 (fs ! 1)) =
      (if valid_civil (2000 + int yy, mo, d, h, mi, sec) then Some (civil_seconds (2000 + int yy, mo, d, h, mi, sec)) else None)"
    if v: "nmea_checksum_valid s" "10 \<le> length fs"
  proof -
    have "is_ascii (fs ! 1)" "is_ascii (fs ! 9)"
      using split_char_ascii[OF checksum_ascii[OF v(1)], of _ "CHR '',''"] v(2) assms(2) by auto
    then have "is_ascii (take 6 (fs ! 1))" "is_ascii (take 6 (fs ! 9))" by (simp_all add: is_ascii_take)
    then show ?thesis using utc_from_printed[OF assms(1,3-8), of "[]" "[]"] unfolding f by simp
  qed
  then show ?thesis using l p by (simp add: parse_rmc_cases[OF assms(2)])
qed


definition lost_fix :: string where
  "lost_fix = ''$GPRMC,235947.000,V,,,,,0.00,0.00,010180,,,N*4B''"

definition no_tz :: "unit tz_lib" where "no_tz = \<lparr>tz_from_str = (\<lambda>_. None), tz_offset = (\<lambda>_ _. 0)\<rparr>"
definition utc_config :: "unit tz_config" where "utc_config = \<lparr>runtime_tz = Some (), local_tz_env = None\<rparr>"

lemma lost_fix_checksum: "nmea_checksum_valid lost_fix"
proof -
  let ?b = "''GPRMC,235947.000,V,,,,,0.00,0.00,010180,,,N''"
  have "nmea_checksum_valid (''$'' @ ?b @ ''*'' @ ''4B'')"
  proof (subst checksum_iff)
    show "is_ascii ?b \<and> is_ascii ''4B'' \<and> 2 \<le> length ''4B'' \<and>
        (\<exists>v. parse_uint 16 255 (take 2 ''4B'') = Some v \<and> xor_bytes ?b = of_nat v)"
      by (simp add: parse_uint_def digit_def is_ascii_def)
  qed simp
  then show ?thesis by (simp add: lost_fix_def)
qed


end
