(* ===== verification/Utf8.thy ===== *)
theory Utf8
  imports Rust_Str
begin

text \<open>UTF-8 in the standard library: the strict and the lossy decoder.\<close>

section \<open>UTF-8\<close>

text \<open>\<open>core::str::from_utf8\<close>: the length of the well-formed character at the front, 0 for none.\<close>

definition cont :: "char \<Rightarrow> bool" where
  "cont c \<longleftrightarrow> 128 \<le> byte_of c \<and> byte_of c < 192"

definition utf8_len :: "nat \<Rightarrow> nat" where
  "utf8_len x = (if x < 128 then 1 else if 194 \<le> x \<and> x \<le> 223 then 2
     else if 224 \<le> x \<and> x \<le> 239 then 3 else if 240 \<le> x \<and> x \<le> 244 then 4 else 0)"

text \<open>No overlong forms, no surrogates, nothing above U+10FFFF.\<close>

definition second_ok :: "nat \<Rightarrow> nat \<Rightarrow> bool" where
  "second_ok x y \<longleftrightarrow> (x = 224 \<longrightarrow> 160 \<le> y) \<and> (x = 237 \<longrightarrow> y < 160) \<and> (x = 240 \<longrightarrow> 144 \<le> y) \<and> (x = 244 \<longrightarrow> y < 144)"

fun utf8_head :: "string \<Rightarrow> nat" where
  "utf8_head [] = 0"
| "utf8_head (a # s) =
     (let n = utf8_len (byte_of a) in
      if n \<le> Suc (length s) \<and> list_all cont (take (n - 1) s) \<and> (2 \<le> n \<longrightarrow> second_ok (byte_of a) (byte_of (hd s)))
      then n else 0)"

function utf8_valid :: "string \<Rightarrow> bool" where
  "utf8_valid s = (if s = [] then True else if utf8_head s = 0 then False else utf8_valid (drop (utf8_head s) s))"
  by pat_completeness auto
termination by (relation "measure length") auto

declare utf8_valid.simps [simp del]

lemma utf8_head_append: "0 < utf8_head s \<Longrightarrow> utf8_head (s @ t) = utf8_head s \<and> utf8_head s \<le> length s"
proof (cases s)
  case (Cons a r)
  assume h: "0 < utf8_head s"
  define n where "n = utf8_len (byte_of a)"
  have n: "0 < n" "n \<le> Suc (length r)" "utf8_head s = n" "list_all cont (take (n - 1) r)"
    "2 \<le> n \<longrightarrow> second_ok (byte_of a) (byte_of (hd r))"
    using h by (auto simp: Cons n_def Let_def split: if_splits)
  moreover have "hd (r @ t) = hd r" if "2 \<le> n" using n(2) that by (cases r) auto
  ultimately show ?thesis by (auto simp: Cons n_def Let_def)
qed simp

lemma utf8_valid_append: "utf8_valid s \<Longrightarrow> utf8_valid t \<Longrightarrow> utf8_valid (s @ t)"
proof (induction s rule: utf8_valid.induct)
  case (1 s)
  show ?case
  proof (cases "s = []")
    case False
    then have h: "0 < utf8_head s" "utf8_valid (drop (utf8_head s) s)"
      using "1.prems"(1) by (auto simp: utf8_valid.simps[of s] split: if_splits)
    then show ?thesis
      using "1.IH" "1.prems"(2) False utf8_head_append[of s t] by (subst utf8_valid.simps) simp
  qed (use 1 in simp)
qed

lemma utf8_valid_Nil [simp]: "utf8_valid []"
  by (subst utf8_valid.simps) simp

lemma utf8_ascii: "is_ascii s \<Longrightarrow> utf8_valid s"
proof (induction s)
  case (Cons c s)
  then have "utf8_head (c # s) = 1" by (simp add: utf8_len_def)
  with Cons show ?case by (subst utf8_valid.simps) simp
qed simp

section \<open>Lossy decoding\<close>

text \<open>\<open>String::from_utf8_lossy\<close>: each maximal ill-formed prefix becomes U+FFFD.\<close>

definition replacement :: string where
  "replacement = [char_of (239 :: nat), char_of (191 :: nat), char_of (189 :: nat)]"

text \<open>Length of the ill-formed prefix at the front: the lead byte and the continuation bytes that still
  fitted.\<close>

fun utf8_bad :: "string \<Rightarrow> nat" where
  "utf8_bad [] = 0"
| "utf8_bad (a # s) =
     (let n = utf8_len (byte_of a) in
      if n < 2 \<or> s = [] \<or> \<not> cont (hd s) \<or> \<not> second_ok (byte_of a) (byte_of (hd s)) then 1
      else Suc (length (takeWhile cont (take (n - 1) s))))"

function utf8_lossy :: "string \<Rightarrow> string" where
  "utf8_lossy s = (if s = [] then []
     else if 0 < utf8_head s then take (utf8_head s) s @ utf8_lossy (drop (utf8_head s) s)
     else replacement @ utf8_lossy (drop (utf8_bad s) s))"
  by pat_completeness auto
termination
proof (relation "measure length")
  fix s :: string
  assume "s \<noteq> []"
  moreover from this have "0 < utf8_bad s" by (cases s) (auto simp: Let_def)
  ultimately show "(drop (utf8_bad s) s, s) \<in> measure length" by simp
qed auto

declare utf8_lossy.simps [simp del]

lemma utf8_lossy_valid: "utf8_valid s \<Longrightarrow> utf8_lossy s = s"
proof (induction s rule: utf8_lossy.induct)
  case (1 s)
  then show ?case by (subst utf8_lossy.simps) (auto simp: utf8_valid.simps[of s])
qed

end
