(* ===== verification/Gps.thy ===== *)
theory Gps
  imports Nmea Utf8
begin

text \<open>
  The GPS receiver driver (\<open>GpsUart\<close> in src/src/gps.rs): non-blocking reads, assembly of lines
  across reads, dispatch of RMC and GGA sentences to the consumer. The consumer's calls are
  returned as a list; \<open>App\<close> carries them out.
\<close>

section \<open>The receive loop\<close>

text \<open>Calls of the consumer, in order, each with the snapshot it is given.\<close>

datatype gps_event = On_Snapshot gps_snapshot | On_Fix gps_snapshot

record gps_uart =
  uart_snapshot :: gps_snapshot
  line_buf :: string
  bytes_seen :: u64

definition LF :: char where "LF = char_of (10 :: nat)"

definition handle_line :: "chrono \<Rightarrow> 'tz tz_lib \<Rightarrow> 'tz tz_config \<Rightarrow> string \<Rightarrow> gps_snapshot \<Rightarrow> gps_event list \<times> gps_snapshot" where
  "handle_line C L cfg trimmed gps =
     (if \<not> prefix ''$'' trimmed then ([], gps)
      else if prefix ''$GNRMC'' trimmed \<or> prefix ''$GPRMC'' trimmed then
        (case parse_rmc C L cfg trimmed gps of
           (False, gps') \<Rightarrow> ([], gps')
         | (True, gps') \<Rightarrow> (On_Snapshot gps' # (if gps_fix gps' then [On_Fix gps'] else []), gps'))
      else if prefix ''$GNGGA'' trimmed \<or> prefix ''$GPGGA'' trimmed then
        (case parse_gga trimmed gps of
           (False, gps') \<Rightarrow> ([], gps')
         | (True, gps') \<Rightarrow> ([On_Snapshot gps'], gps'))
      else ([], gps))"

function drain_lines :: "chrono \<Rightarrow> 'tz tz_lib \<Rightarrow> 'tz tz_config \<Rightarrow> string \<Rightarrow> gps_snapshot \<Rightarrow> gps_event list \<times> string \<times> gps_snapshot" where
  "drain_lines C L cfg buf gps =
     (case position (\<lambda>c. c = LF) buf of
        None \<Rightarrow> ([], buf, gps)
      | Some i \<Rightarrow>
          (case handle_line C L cfg (received_line (take i buf)) gps of (evs, gps') \<Rightarrow>
           (case drain_lines C L cfg (drop (Suc i) buf) gps' of (evs', buf', gps'') \<Rightarrow> (evs @ evs', buf', gps''))))"
  by pat_completeness auto
termination
  by (relation "measure (\<lambda>(C, L, cfg, buf, gps). length buf)") (auto dest: position_Some)

declare drain_lines.simps [simp del]

text \<open>One poll, given what the UART read returned; \<open>None\<close> for an error.\<close>

definition gps_poll :: "chrono \<Rightarrow> 'tz tz_lib \<Rightarrow> 'tz tz_config \<Rightarrow> string option \<Rightarrow> gps_uart \<Rightarrow> gps_event list \<times> gps_uart" where
  "gps_poll C L cfg rx u =
     (case rx of None \<Rightarrow> ([], u)
      | Some chunk \<Rightarrow>
        if chunk = [] then ([], u)
        else let u = u\<lparr>bytes_seen := bytes_seen u + of_nat (length chunk)\<rparr> in
          if \<not> utf8_valid chunk then ([], u)
          else (case drain_lines C L cfg (line_buf u @ chunk) (uart_snapshot u) of
                  (evs, buf, gps) \<Rightarrow> (evs, u\<lparr>line_buf := buf, uart_snapshot := gps\<rparr>)))"

definition discard_backlog :: "gps_uart \<Rightarrow> gps_uart" where
  "discard_backlog u = u\<lparr>line_buf := []\<rparr>"

definition set_snapshot :: "gps_snapshot \<Rightarrow> gps_uart \<Rightarrow> gps_uart" where
  "set_snapshot gps u = u\<lparr>uart_snapshot := gps\<rparr>"

lemma position_append_Some: "position P xs = Some i \<Longrightarrow> position P (xs @ ys) = Some i"
  by (induction xs arbitrary: i) (auto split: if_splits)

text \<open>Draining \<open>a\<close> and then \<open>b\<close> is draining \<open>a @ b\<close>; what is left holds no line feed.\<close>

lemma drain_append:
  assumes "drain_lines C L cfg a gps = (evs, rest, gps')"
  shows "drain_lines C L cfg (a @ b) gps =
      (case drain_lines C L cfg (rest @ b) gps' of (evs', rest', gps'') \<Rightarrow> (evs @ evs', rest', gps''))"
  using assms
proof (induction C L cfg a gps arbitrary: evs rest rule: drain_lines.induct)
  case (1 C L cfg buf gps)
  show ?case
  proof (cases "position (\<lambda>c. c = LF) buf")
    case None
    then show ?thesis using "1.prems" by (simp add: drain_lines.simps[of _ _ _ buf])
  next
    case (Some i)
    obtain e1 g1 where h: "handle_line C L cfg (received_line (take i buf)) gps = (e1, g1)" by fastforce
    obtain e2 r2 g2 where d: "drain_lines C L cfg (drop (Suc i) buf) g1 = (e2, r2, g2)" by (metis prod_cases3)
    have e: "evs = e1 @ e2" "rest = r2" "gps' = g2"
      using "1.prems" Some h d by (simp_all add: drain_lines.simps[of _ _ _ buf])
    have i: "i < length buf" using position_Some[OF Some] by simp
    have "drain_lines C L cfg (buf @ b) gps =
        (case drain_lines C L cfg (drop (Suc i) buf @ b) g1 of (evs', rest', g) \<Rightarrow> (e1 @ evs', rest', g))"
      using position_append_Some[OF Some, of b] h i by (simp add: drain_lines.simps[of _ _ _ "buf @ b"])
    also have "\<dots> = (case drain_lines C L cfg (r2 @ b) g2 of (evs', rest', g) \<Rightarrow> (evs @ evs', rest', g))"
      using "1.IH"[OF Some h[symmetric], of e2 r2] d e by (auto split: prod.split)
    finally show ?thesis using e by simp
  qed
qed

lemma drain_rest: "drain_lines C L cfg buf gps = (evs, rest, gps') \<Longrightarrow> position (\<lambda>c. c = LF) rest = None"
proof (induction C L cfg buf gps arbitrary: evs rest gps' rule: drain_lines.induct)
  case (1 C L cfg buf gps)
  then show ?case
    by (cases "position (\<lambda>c. c = LF) buf") (auto simp: drain_lines.simps[of _ _ _ buf] split: prod.splits)
qed

lemma poll_drains:
  assumes "utf8_valid x" "x \<noteq> [] \<or> position (\<lambda>c. c = LF) (line_buf v) = None"
  shows "gps_poll C L cfg (Some x) v = (case drain_lines C L cfg (line_buf v @ x) (uart_snapshot v) of
      (evs, buf, gps) \<Rightarrow> (evs, v\<lparr>bytes_seen := bytes_seen v + of_nat (length x), line_buf := buf, uart_snapshot := gps\<rparr>))"
  using assms by (auto simp: gps_poll_def Let_def drain_lines.simps[of _ _ _ "line_buf v"] split: prod.split)

text \<open>C26: Sentences do not depend on how the UART cuts them: polling two pieces of text one after the
  other gives the same consumer calls in the same order, the same snapshot, the same pending line and the
  same byte count as polling them in one read.\<close>

theorem polling_pieces:
  assumes "utf8_valid a" "utf8_valid b" "position (\<lambda>c. c = LF) (line_buf u) = None"
  shows "gps_poll C L cfg (Some (a @ b)) u =
    (case gps_poll C L cfg (Some a) u of (evs, u') \<Rightarrow>
     (case gps_poll C L cfg (Some b) u' of (evs', u'') \<Rightarrow> (evs @ evs', u'')))"
proof -
  obtain e1 r1 g1 where d: "drain_lines C L cfg (line_buf u @ a) (uart_snapshot u) = (e1, r1, g1)" by (metis prod_cases3)
  let ?u = "u\<lparr>bytes_seen := bytes_seen u + of_nat (length a), line_buf := r1, uart_snapshot := g1\<rparr>"
  have 1: "gps_poll C L cfg (Some a) u = (e1, ?u)" using poll_drains[OF assms(1), of u C L cfg] assms(3) d by simp
  have 2: "gps_poll C L cfg (Some b) ?u = (case drain_lines C L cfg (r1 @ b) g1 of
      (evs, buf, gps) \<Rightarrow> (evs, ?u\<lparr>bytes_seen := bytes_seen ?u + of_nat (length b), line_buf := buf, uart_snapshot := gps\<rparr>))"
    using poll_drains[OF assms(2), of ?u C L cfg] drain_rest[OF d] by simp
  show ?thesis
    using poll_drains[OF utf8_valid_append[OF assms(1,2)], of u C L cfg] assms(3) drain_append[OF d, of b]
    unfolding 1 by (auto simp: 2 append.assoc split: prod.split)
qed

theorem polling_pieces_witness:
  "gps_poll gregorian no_tz utc_config (Some (lost_fix @ [LF])) \<lparr>uart_snapshot = gps_snapshot_default, line_buf = [], bytes_seen = 0\<rparr> =
    (case gps_poll gregorian no_tz utc_config (Some lost_fix) \<lparr>uart_snapshot = gps_snapshot_default, line_buf = [], bytes_seen = 0\<rparr> of
      (evs, u') \<Rightarrow> (case gps_poll gregorian no_tz utc_config (Some [LF]) u' of (evs', u'') \<Rightarrow> (evs @ evs', u'')))"
  by (rule polling_pieces)
    (use checksum_ascii[OF lost_fix_checksum] in \<open>auto intro!: utf8_ascii simp: is_ascii_def LF_def\<close>)

text \<open>A fix call carries a snapshot with the fix flag, and follows the snapshot call for it.\<close>

lemma handle_line_fix:
  assumes "handle_line C L cfg l gps = (evs, gps')" "On_Fix g \<in> set evs"
  shows "gps_fix g \<and> evs = [On_Snapshot g, On_Fix g] \<and> gps' = g"
  using assms by (auto simp: handle_line_def split: prod.splits if_splits bool.splits)

lemma drain_fix:
  "drain_lines C L cfg buf gps = (evs, rest, gps') \<Longrightarrow> On_Fix g \<in> set evs \<Longrightarrow> gps_fix g \<and> On_Snapshot g \<in> set evs"
proof (induction C L cfg buf gps arbitrary: evs rest gps' rule: drain_lines.induct)
  case (1 C L cfg buf gps)
  show ?case
  proof (cases "position (\<lambda>c. c = LF) buf")
    case (Some i)
    obtain e1 g1 where h: "handle_line C L cfg (received_line (take i buf)) gps = (e1, g1)" by fastforce
    obtain e2 r2 g2 where d: "drain_lines C L cfg (drop (Suc i) buf) g1 = (e2, r2, g2)" by (metis prod_cases3)
    have "evs = e1 @ e2" using "1.prems"(1) Some h d by (simp add: drain_lines.simps[of _ _ _ buf])
    moreover have "gps_fix g \<and> On_Snapshot g \<in> set e1" if "On_Fix g \<in> set e1"
      using handle_line_fix[OF h that] by simp
    ultimately show ?thesis using "1.prems"(2) "1.IH"[OF Some h[symmetric] d] by auto
  qed (use "1.prems" in \<open>simp add: drain_lines.simps[of _ _ _ buf]\<close>)
qed

lemma poll_fix:
  assumes "gps_poll C L cfg rx u = (evs, u')" "On_Fix g \<in> set evs"
  shows "gps_fix g \<and> On_Snapshot g \<in> set evs"
  using assms by (auto simp: gps_poll_def Let_def split: option.splits if_splits prod.splits dest: drain_fix)

end
