(* ===== verification/Storage.thy ===== *)
theory Storage
  imports Pins
begin

text \<open>The microSD card (\<open>storage.rs\<close>): the deadline of a filesystem call and the watchdog that
  enforces it, mounting with the chip-select line of the card, and the free-space samples the worker takes
  for the panel.\<close>

section \<open>The call deadline and its watchdog\<close>

definition SD_CALL_TIMEOUT_US :: int where "SD_CALL_TIMEOUT_US = 180000000"

record sd_watch =
  call_started_us :: int
  call_label :: string
  call_depth :: u32

definition sd_watch_idle :: sd_watch where
  "sd_watch_idle = \<lparr>call_started_us = 0, call_label = ''sd'', call_depth = 0\<rparr>"

definition deadline_arm :: "string \<Rightarrow> int \<Rightarrow> sd_watch \<Rightarrow> sd_watch" where
  "deadline_arm label now_us w =
     (let outermost = (call_depth w = 0);
          w = w\<lparr>call_depth := call_depth w + 1\<rparr>;
          w = (if outermost then w\<lparr>call_label := label\<rparr> else w)
      in w\<lparr>call_started_us := max now_us 1\<rparr>)"

definition deadline_drop :: "sd_watch \<Rightarrow> sd_watch" where
  "deadline_drop w =
     (let old = call_depth w;
          w = w\<lparr>call_depth := old - 1\<rparr>
      in if old \<le> 1 then w\<lparr>call_started_us := 0\<rparr> else w)"

text \<open>One pass of \<open>monitor_main\<close>: the label to restart on, if any.\<close>

definition monitor_tick :: "int \<Rightarrow> sd_watch \<Rightarrow> string option" where
  "monitor_tick now_us w =
     (if call_started_us w = 0 then None
      else let elapsed = sat_sub now_us (call_started_us w) in
        if elapsed < SD_CALL_TIMEOUT_US then None else Some (call_label w))"

datatype sd_event = Arm string int | Drop

fun sd_run :: "sd_event list \<Rightarrow> sd_watch \<Rightarrow> sd_watch" where
  "sd_run [] w = w"
| "sd_run (Arm l t # es) w = sd_run es (deadline_arm l t w)"
| "sd_run (Drop # es) w = sd_run es (deadline_drop w)"

text \<open>The calls in progress after a history: their labels and start times, innermost first, and the
  last time a call was armed. \<open>None\<close> for a drop without a call.\<close>

fun open_calls :: "sd_event list \<Rightarrow> (string \<times> int) list \<Rightarrow> int \<Rightarrow> ((string \<times> int) list \<times> int) option" where
  "open_calls [] cs la = Some (cs, la)"
| "open_calls (Arm l t # es) cs la = open_calls es ((l, t) # cs) t"
| "open_calls (Drop # es) cs la = (case cs of [] \<Rightarrow> None | c # cs' \<Rightarrow> open_calls es cs' la)"

definition watch_inv :: "(string \<times> int) list \<Rightarrow> int \<Rightarrow> sd_watch \<Rightarrow> bool" where
  "watch_inv cs la w \<longleftrightarrow> unat (call_depth w) = length cs \<and>
     (if cs = [] then call_started_us w = 0 else call_started_us w = max la 1 \<and> call_label w = fst (last cs))"

lemma u32_zero: "unat (w :: u32) = 0 \<longleftrightarrow> w = 0"
  by (simp add: unat_eq_zero)

lemma arm_inv:
  assumes "watch_inv cs la w" "Suc (length cs) < 2 ^ 32"
  shows "watch_inv ((l, t) # cs) t (deadline_arm l t w)"
proof -
  have "unat (call_depth w + 1) = unat (call_depth w) + 1"
    using assms by (simp add: unat_word_ariths watch_inv_def)
  moreover have "call_depth w = 0 \<longleftrightarrow> cs = []" using assms(1) u32_zero[of "call_depth w"] by (auto simp: watch_inv_def)
  ultimately show ?thesis using assms(1) by (auto simp: watch_inv_def deadline_arm_def Let_def)
qed

lemma drop_inv:
  assumes "watch_inv (c # cs) la w"
  shows "watch_inv cs la (deadline_drop w)"
proof -
  have d: "unat (call_depth w) = Suc (length cs)" using assms by (simp add: watch_inv_def)
  then have "call_depth w \<noteq> 0" using u32_zero[of "call_depth w"] by auto
  then have "unat (call_depth w - 1) = length cs" using d by (simp add: unat_minus_one)
  moreover have "call_depth w \<le> 1 \<longleftrightarrow> cs = []" using d by (auto simp: word_le_nat_alt)
  ultimately show ?thesis using assms by (auto simp: watch_inv_def deadline_drop_def Let_def)
qed

lemma run_watch_inv:
  assumes "watch_inv cs la w" "open_calls es cs la = Some (cs', la')" "length cs + length es < 2 ^ 32"
  shows "watch_inv cs' la' (sd_run es w)"
  using assms
proof (induction es cs la arbitrary: w rule: open_calls.induct)
  case (2 l t es cs la)
  show ?case using "2.IH"[OF arm_inv[OF "2.prems"(1), of l t]] 2 by simp
next
  case (3 es cs la)
  then obtain c cs1 where "cs = c # cs1" by (cases cs) auto
  then show ?case using 3 drop_inv by auto
qed simp

lemma monitor_iff:
  assumes "watch_inv cs la w"
  shows "monitor_tick now_us w =
    (if cs = [] \<or> now_us - max la 1 < SD_CALL_TIMEOUT_US then None else Some (fst (last cs)))"
proof -
  have t: "sat_sub now_us s < SD_CALL_TIMEOUT_US \<longleftrightarrow> now_us - s < SD_CALL_TIMEOUT_US" for s
    by (auto simp: sat_sub_def sat_i64_def i64_min_def i64_max_def SD_CALL_TIMEOUT_US_def)
  show ?thesis using assms by (cases cs) (auto simp: watch_inv_def monitor_tick_def Let_def t)
qed

lemma watchdog_fires:
  assumes "open_calls es [] 0 = Some (cs, la)" "length es < 2 ^ 32"
  shows "monitor_tick now_us (sd_run es sd_watch_idle) =
    (if cs = [] \<or> now_us < max la 1 + 180000000 then None else Some (fst (last cs)))"
proof -
  have "watch_inv [] 0 sd_watch_idle" by (simp add: watch_inv_def sd_watch_idle_def)
  from run_watch_inv[OF this assms(1)] assms(2) have "watch_inv cs la (sd_run es sd_watch_idle)" by simp
  from monitor_iff[OF this, of now_us] show ?thesis by (auto simp: SD_CALL_TIMEOUT_US_def)
qed

text \<open>The SD watchdog restarts the chip exactly when it should: after any nested history of
  filesystem calls, a pass of the watchdog restarts if and only if some call is in progress and the last
  one to start has been running for at least 180 s, and it names the outermost call; when all calls have
  returned it never fires.\<close>

theorem watchdog_exact:
  assumes "open_calls es [] 0 = Some (cs, la)" "length es < 2 ^ 32"
  shows "monitor_tick now_us (sd_run es sd_watch_idle) =
    (if cs = [] \<or> now_us < max la 1 + 180000000 then None else Some (fst (last cs)))"
  using watchdog_fires[OF assms] .

theorem watchdog_exact_witness:
  "monitor_tick 180000005 (sd_run [Arm ''sd mount'' 2, Drop, Arm ''sd log'' 5] sd_watch_idle) = Some ''sd log'' \<and>
   monitor_tick 180000004 (sd_run [Arm ''sd mount'' 2, Drop, Arm ''sd log'' 5] sd_watch_idle) = None"
  using watchdog_exact[of "[Arm ''sd mount'' 2, Drop, Arm ''sd log'' 5]" "[(''sd log'', 5)]" 5 180000005]
    watchdog_exact[of "[Arm ''sd mount'' 2, Drop, Arm ''sd log'' 5]" "[(''sd log'', 5)]" 5 180000004] by simp

text \<open>A nested call starts the clock again, also for the call around it.\<close>

theorem nested_call_extends:
  "monitor_tick 200000000 (sd_run [Arm ''outer'' 1, Arm ''inner'' 100000000] sd_watch_idle) = None"
  using watchdog_fires[of "[Arm ''outer'' 1, Arm ''inner'' 100000000]"] by simp

section \<open>Mounting\<close>

record storage_status =
  mounted :: bool
  total_bytes :: u64
  free_bytes :: u64

definition storage_status_default :: storage_status where
  "storage_status_default = \<lparr>mounted = False, total_bytes = 0, free_bytes = 0\<rparr>"

text \<open>What the drivers below \<open>try_mount\<close> answer, in the order they are called; \<open>fat_usage\<close> is the total
  and free space \<open>esp_vfs_fat_info\<close> reports, if it does.\<close>

record card_env =
  host_ok :: bool
  card_ok :: bool
  csd_capacity :: u64
  csd_sector_size :: u64
  fat_ok :: bool
  vfs_ok :: bool
  marker_ok :: bool
  fat_usage :: "(u64 \<times> u64) option"

definition card_capacity_bytes :: "card_env \<Rightarrow> u64" where
  "card_capacity_bytes e = (let p = uint (csd_capacity e) * uint (csd_sector_size e)
     in if p < 2 ^ 64 then word_of_int p else - 1)"

text \<open>The status, whether a mount handle is returned, and whether the card-ready flag is set.\<close>

definition try_mount :: "card_env \<Rightarrow> storage_status \<times> bool \<times> bool" where
  "try_mount e =
     (if \<not> host_ok e \<or> \<not> card_ok e \<or> \<not> fat_ok e \<or> \<not> vfs_ok e then (storage_status_default, False, False)
      else let status = \<lparr>mounted = True, total_bytes = card_capacity_bytes e, free_bytes = 0\<rparr>;
               status = (case fat_usage e of Some (fs_total, fs_free) \<Rightarrow> status\<lparr>total_bytes := fs_total, free_bytes := fs_free\<rparr>
                         | None \<Rightarrow> status)
           in (status, True, marker_ok e))"

record storage_device =
  sd_mount :: bool
  sd_status :: storage_status
  cs_pin :: "pin option"
  sd_ready :: bool
  sd_guard :: bool

definition ADALOGGER_SD_CS_PIN :: pin where "ADALOGGER_SD_CS_PIN = 10"
definition ADALOGGER_SD_CS_ALT_PIN :: pin where "ADALOGGER_SD_CS_ALT_PIN = 33"

definition no_storage :: "bool \<Rightarrow> bool \<Rightarrow> storage_device" where
  "no_storage guard ready = \<lparr>sd_mount = False, sd_status = storage_status_default, cs_pin = None, sd_ready = ready, sd_guard = guard\<rparr>"

text \<open>One attempt on a chip-select line: the device if it mounted, else nothing and the line released.\<close>

definition mount_on :: "pin \<Rightarrow> card_env \<Rightarrow> pin_pool \<Rightarrow> storage_device option \<times> pin_pool" where
  "mount_on pin e pool =
     (case take_gpio pin ''storage'' pool of
        (Inl err, pool1) \<Rightarrow> (None, pool1)
      | (Inr cs, pool1) \<Rightarrow>
          (case try_mount e of (status, handle, ready) \<Rightarrow>
             if mounted status
             then (Some \<lparr>sd_mount = handle, sd_status = status, cs_pin = Some pin, sd_ready = ready, sd_guard = True\<rparr>, pool1)
             else (None, pool_release pin pool1)))"

definition storage_init :: "bool \<Rightarrow> card_env \<Rightarrow> card_env \<Rightarrow> pin_pool \<Rightarrow> storage_device \<times> pin_pool" where
  "storage_init guard_ok primary alternate pool =
     (if \<not> guard_ok then (no_storage False False, pool)
      else case mount_on ADALOGGER_SD_CS_PIN primary pool of
             (Some dev, pool1) \<Rightarrow> (dev, pool1)
           | (None, pool1) \<Rightarrow>
               (case mount_on ADALOGGER_SD_CS_ALT_PIN alternate pool1 of
                  (Some dev, pool2) \<Rightarrow> (dev, pool2)
                | (None, pool2) \<Rightarrow> (no_storage True False, pool2)))"

definition storage_close :: "storage_device \<Rightarrow> pin_pool \<Rightarrow> pin_pool" where
  "storage_close dev pool = (case cs_pin dev of None \<Rightarrow> pool | Some pin \<Rightarrow> pool_release pin pool)"

lemma try_mount_handle: "try_mount e = (status, handle, ready) \<Longrightarrow> handle = mounted status \<and> (ready \<longrightarrow> mounted status)"
  by (auto simp: try_mount_def storage_status_default_def Let_def split: if_splits option.splits)

lemma mount_on_effect:
  assumes "pool_inv pool" "pin \<in> set (pool_lines pool)" "owner_of pin (reg pool) = None"
  obtains pool1 where "mount_on pin e pool = (if mounted (fst (try_mount e))
        then Some \<lparr>sd_mount = True, sd_status = fst (try_mount e), cs_pin = Some pin, sd_ready = marker_ok e, sd_guard = True\<rparr> else None, pool1)"
    "pool_inv pool1" "pool_lines pool1 = filter (\<lambda>x. x \<noteq> pin) (pool_lines pool)"
    "\<And>q. owner_of q (reg pool1) = (if q = pin then if mounted (fst (try_mount e)) then Some ''storage'' else None else owner_of q (reg pool))"
proof -
  obtain pool1 where t: "take_gpio pin ''storage'' pool = (Inr pin, pool1)" "pool_inv pool1"
    "\<And>q. owner_of q (reg pool1) = (if q = pin then Some ''storage'' else owner_of q (reg pool))"
    "pool_lines pool1 = filter (\<lambda>x. x \<noteq> pin) (pool_lines pool)"
    using take_ok[OF assms, of "''storage''"] by metis
  obtain st h rd where m: "try_mount e = (st, h, rd)" by (metis prod_cases3)
  have "mounted st \<Longrightarrow> h \<and> rd = marker_ok e" using m
    by (auto simp: try_mount_def storage_status_default_def Let_def split: if_splits)
  then show thesis
    using that[of "if mounted st then pool1 else pool_release pin pool1"] t release_inv[OF t(2)] release_owner[OF t(2)] m
    by (auto simp: mount_on_def pool_release_def)
qed

text \<open>The device the probe ends with, whatever the pool, when both lines are free.\<close>

definition card_device :: "bool \<Rightarrow> card_env \<Rightarrow> card_env \<Rightarrow> storage_device" where
  "card_device guard_ok primary alternate =
     (let on = (\<lambda>pin e. \<lparr>sd_mount = True, sd_status = fst (try_mount e), cs_pin = Some pin, sd_ready = marker_ok e, sd_guard = True\<rparr>)
      in if \<not> guard_ok then no_storage False False
         else if mounted (fst (try_mount primary)) then on 10 primary
         else if mounted (fst (try_mount alternate)) then on 33 alternate
         else no_storage True False)"

lemma card_device_fields:
  "cs_pin (card_device guard_ok primary alternate) = (if \<not> guard_ok then None else if mounted (fst (try_mount primary)) then Some 10
      else if mounted (fst (try_mount alternate)) then Some 33 else None)"
  "mounted (sd_status (card_device guard_ok primary alternate)) = (cs_pin (card_device guard_ok primary alternate) \<noteq> None)"
  "sd_mount (card_device guard_ok primary alternate) = (cs_pin (card_device guard_ok primary alternate) \<noteq> None)"
  by (simp_all add: card_device_def no_storage_def storage_status_default_def Let_def)

lemma storage_init_effect:
  assumes "pool_inv pool" "{10, 33} \<subseteq> set (pool_lines pool)" "owner_of 10 (reg pool) = None" "owner_of 33 (reg pool) = None"
  obtains p where "storage_init guard_ok primary alternate pool = (card_device guard_ok primary alternate, p)" "pool_inv p"
    "\<forall>q. owner_of q (reg p) = (if cs_pin (card_device guard_ok primary alternate) = Some q then Some ''storage'' else owner_of q (reg pool))"
    "pool_lines p = filter (\<lambda>x. x \<notin> (if \<not> guard_ok then {} else if mounted (fst (try_mount primary)) then {10} else {10, 33})) (pool_lines pool)"
proof (cases guard_ok)
  case True
  obtain p1 where 1: "mount_on 10 primary pool = (if mounted (fst (try_mount primary))
        then Some \<lparr>sd_mount = True, sd_status = fst (try_mount primary), cs_pin = Some 10, sd_ready = marker_ok primary, sd_guard = True\<rparr> else None, p1)"
    "pool_inv p1" "pool_lines p1 = filter (\<lambda>x. x \<noteq> 10) (pool_lines pool)"
    "\<And>q. owner_of q (reg p1) = (if q = 10 then if mounted (fst (try_mount primary)) then Some ''storage'' else None else owner_of q (reg pool))"
    by (rule mount_on_effect[OF assms(1) _ assms(3), of primary]) (use assms(2) in auto)
  obtain p2 where 2: "mount_on 33 alternate p1 = (if mounted (fst (try_mount alternate))
        then Some \<lparr>sd_mount = True, sd_status = fst (try_mount alternate), cs_pin = Some 33, sd_ready = marker_ok alternate, sd_guard = True\<rparr> else None, p2)"
    "pool_inv p2" "pool_lines p2 = filter (\<lambda>x. x \<noteq> 33) (pool_lines p1)"
    "\<And>q. owner_of q (reg p2) = (if q = 33 then if mounted (fst (try_mount alternate)) then Some ''storage'' else None else owner_of q (reg p1))"
    by (rule mount_on_effect[OF 1(2), of 33 alternate]) (use assms(2,4) 1(3,4) in auto)
  let ?p = "if mounted (fst (try_mount primary)) then p1 else p2"
  have "storage_init guard_ok primary alternate pool = (card_device guard_ok primary alternate, ?p)"
    using True 1(1) 2(1) by (simp add: storage_init_def card_device_def ADALOGGER_SD_CS_PIN_def ADALOGGER_SD_CS_ALT_PIN_def Let_def)
  moreover have "pool_inv ?p" using 1(2) 2(2) by simp
  moreover have "owner_of q (reg ?p) = (if cs_pin (card_device guard_ok primary alternate) = Some q then Some ''storage''
      else owner_of q (reg pool))" for q
    using True assms(3,4) by (simp add: 1(4) 2(4) card_device_fields)
  moreover have "pool_lines ?p = filter (\<lambda>x. x \<notin> (if mounted (fst (try_mount primary)) then {10} else {10, 33})) (pool_lines pool)"
    by (simp add: 1(3) 2(3) conj_commute)
  ultimately show thesis using that True by simp
next
  case False
  then show thesis using that[of pool] assms(1)
    by (simp add: storage_init_def card_device_def no_storage_def Let_def)
qed

text \<open>Mounting the card and owning its chip-select line agree: from a pool in which both lines are
  free, the device names a chip-select line exactly when a card was mounted on it, the alternate line is
  tried only when the primary fails, exactly the named line then belongs to the storage module, every
  other line keeps its owner, and closing the device gives the line's ownership back.\<close>

theorem storage_owns_its_line:
  assumes "pool_inv pool" "{10, 33} \<subseteq> set (pool_lines pool)" "owner_of 10 (reg pool) = None" "owner_of 33 (reg pool) = None"
    and "storage_init guard_ok primary alternate pool = (dev, pool')"
  shows "cs_pin dev = (if \<not> guard_ok then None else if mounted (fst (try_mount primary)) then Some 10
      else if mounted (fst (try_mount alternate)) then Some 33 else None) \<and>
    sd_mount dev = (cs_pin dev \<noteq> None) \<and> mounted (sd_status dev) = (cs_pin dev \<noteq> None) \<and>
    (\<forall>q. owner_of q (reg pool') = (if cs_pin dev = Some q then Some ''storage'' else owner_of q (reg pool)) \<and>
         owner_of q (reg (storage_close dev pool')) = owner_of q (reg pool))"
proof -
  obtain p where p: "storage_init guard_ok primary alternate pool = (card_device guard_ok primary alternate, p)" "pool_inv p"
    "\<forall>q. owner_of q (reg p) = (if cs_pin (card_device guard_ok primary alternate) = Some q then Some ''storage'' else owner_of q (reg pool))"
    by (rule storage_init_effect[OF assms(1-4), of guard_ok primary alternate])
  then have d: "dev = card_device guard_ok primary alternate" "pool' = p" using assms(5) by simp_all
  have free: "cs_pin dev = Some q \<Longrightarrow> owner_of q (reg pool) = None" for q
    using assms(3,4) by (auto simp: d card_device_fields split: if_splits)
  have "owner_of q (reg (storage_close dev pool')) = owner_of q (reg pool)" for q
    using p(3) free release_owner[OF p(2)] by (cases "cs_pin dev") (simp_all add: d storage_close_def)
  then show ?thesis using p(3) by (simp add: d card_device_fields)
qed

definition good_card :: card_env where
  "good_card = \<lparr>host_ok = True, card_ok = True, csd_capacity = 62333952, csd_sector_size = 512, fat_ok = True, vfs_ok = True,
     marker_ok = True, fat_usage = None\<rparr>"

theorem storage_owns_its_line_witness:
  "cs_pin (fst (storage_init True (good_card\<lparr>card_ok := False\<rparr>) good_card from_board_pins)) = Some 33"
  using storage_owns_its_line[OF pool_inv_init, of True "good_card\<lparr>card_ok := False\<rparr>" good_card]
  by (simp add: from_board_pins_def board_lines_def registry_new_def owner_of_def GPIO_COUNT_def good_card_def
      try_mount_def Let_def storage_status_default_def prod_eq_iff)

section \<open>Free-space samples of the worker\<close>

text \<open>\<open>path_exists\<close> and \<open>usage\<close> are what the file system answers under the mount point.\<close>

definition refresh :: "bool \<Rightarrow> (u64 \<times> u64) option \<Rightarrow> storage_status \<Rightarrow> storage_status" where
  "refresh path_exists usage previous =
     (if \<not> path_exists then storage_status_default
      else case usage of
        Some (t, f) \<Rightarrow> \<lparr>mounted = True, total_bytes = t, free_bytes = f\<rparr>
      | None \<Rightarrow> \<lparr>mounted = True, total_bytes = total_bytes previous, free_bytes = free_bytes previous\<rparr>)"

record usage_state =
  usage_refresh :: bool
  card_ready :: bool
  last_usage :: storage_status
  pending_usage :: "storage_status option"

definition usage_start :: "storage_device \<Rightarrow> usage_state" where
  "usage_start dev = \<lparr>usage_refresh = False, card_ready = sd_ready dev,
     last_usage = (if sd_mount dev then sd_status dev else storage_status_default), pending_usage = None\<rparr>"

definition request_usage_refresh :: "usage_state \<Rightarrow> usage_state" where
  "request_usage_refresh u = u\<lparr>usage_refresh := True\<rparr>"

definition take_usage :: "usage_state \<Rightarrow> storage_status option \<times> usage_state" where
  "take_usage u = (pending_usage u, u\<lparr>pending_usage := None\<rparr>)"

text \<open>The sampling half of one pass of \<open>worker_main\<close>.\<close>

definition worker_sample :: "bool \<Rightarrow> (u64 \<times> u64) option \<Rightarrow> usage_state \<Rightarrow> usage_state" where
  "worker_sample path_exists usage u =
     (let requested = usage_refresh u; u = u\<lparr>usage_refresh := False\<rparr>
      in if requested \<and> card_ready u
         then let status = refresh path_exists usage (last_usage u)
              in u\<lparr>last_usage := status, pending_usage := Some status\<rparr>
         else u)"

datatype usage_event = Request | Sample bool "(u64 \<times> u64) option" | Take

fun usage_run :: "usage_event list \<Rightarrow> usage_state \<Rightarrow> storage_status list \<times> usage_state" where
  "usage_run [] u = ([], u)"
| "usage_run (Request # es) u = usage_run es (request_usage_refresh u)"
| "usage_run (Sample x f # es) u = usage_run es (worker_sample x f u)"
| "usage_run (Take # es) u =
     (case take_usage u of (s, u1) \<Rightarrow> case usage_run es u1 of (ss, u2) \<Rightarrow> (case s of None \<Rightarrow> ss | Some st \<Rightarrow> st # ss, u2))"

definition owed :: "usage_state \<Rightarrow> nat" where
  "owed u = (if usage_refresh u then 1 else 0) + (case pending_usage u of None \<Rightarrow> 0 | Some _ \<Rightarrow> 1)"

text \<open>The panel never gets more samples than it asked for, and none without a ready card.\<close>

theorem samples_are_requested:
  assumes "usage_run es u = (ss, u')"
  shows "length ss + owed u' \<le> length (filter (\<lambda>e. e = Request) es) + owed u"
  using assms
proof (induction es u arbitrary: ss rule: usage_run.induct)
  case (3 x f es u)
  have "owed (worker_sample x f u) \<le> owed u"
    by (auto simp: owed_def worker_sample_def Let_def split: option.splits)
  then show ?case using 3 by fastforce
next
  case (4 es u)
  obtain st where st: "pending_usage u = st" by simp
  obtain ss2 where r: "usage_run es (u\<lparr>pending_usage := None\<rparr>) = (ss2, u')"
    using "4.prems" by (auto simp: take_usage_def split: prod.splits)
  then have "length ss2 + owed u' \<le> length (filter (\<lambda>e. e = Request) es) + owed (u\<lparr>pending_usage := None\<rparr>)"
    using "4.IH" by (simp add: take_usage_def)
  then show ?case using "4.prems" r by (auto simp: take_usage_def owed_def split: option.splits if_splits)
qed (auto simp: owed_def request_usage_refresh_def split: if_splits)

theorem requested_sample_delivered:
  assumes "card_ready u"
  shows "fst (usage_run [Request, Sample x f, Take, Take] u) = [refresh x f (last_usage u)]"
  using assms by (simp add: request_usage_refresh_def worker_sample_def take_usage_def Let_def)

end
