(* ===== verification/Sdlog.thy ===== *)
theory Sdlog
  imports Storage Rust_Str
begin

text \<open>The log mirror (\<open>sdlog.rs\<close>): the bounded queue, the writer thread and rotation.\<close>

section \<open>The queue of log lines\<close>

datatype log_level = Error | Warn | Info | Debug | Trace

text \<open>The order of \<open>log::Level\<close>: the more verbose, the greater.\<close>

instantiation log_level :: linorder
begin

fun level_rank :: "log_level \<Rightarrow> nat" where
  "level_rank Error = 1" | "level_rank Warn = 2" | "level_rank Info = 3" | "level_rank Debug = 4" | "level_rank Trace = 5"

definition less_eq_log_level :: "log_level \<Rightarrow> log_level \<Rightarrow> bool" where
  "a \<le> b \<longleftrightarrow> level_rank a \<le> level_rank b"

definition less_log_level :: "log_level \<Rightarrow> log_level \<Rightarrow> bool" where
  "a < b \<longleftrightarrow> level_rank a < level_rank b"

instance
proof
  fix a b :: log_level
  show "a \<le> b \<Longrightarrow> b \<le> a \<Longrightarrow> a = b"
    by (cases a; cases b) (simp_all add: less_eq_log_level_def)
qed (auto simp: less_eq_log_level_def less_log_level_def)

end

fun level_name :: "log_level \<Rightarrow> string" where
  "level_name Error = ''ERROR''" | "level_name Warn = ''WARN''" | "level_name Info = ''INFO''"
| "level_name Debug = ''DEBUG''" | "level_name Trace = ''TRACE''"

definition SINK_LEVEL :: log_level where "SINK_LEVEL = Info"
definition ROTATE_AT_BYTES :: nat where "ROTATE_AT_BYTES = 8 * 1024 * 1024"
definition QUEUE_MAX_BYTES :: nat where "QUEUE_MAX_BYTES = 16 * 1024"
definition HTTP_CHUNK_BYTES :: nat where "HTTP_CHUNK_BYTES = 2048"
definition DELETE_BODY_MAX :: nat where "DELETE_BODY_MAX = 512"

record log_queue =
  q_lines :: "string list"
  q_bytes :: nat
  q_dropped :: u32

definition log_queue_new :: log_queue where
  "log_queue_new = \<lparr>q_lines = [], q_bytes = 0, q_dropped = 0\<rparr>"

definition enqueue :: "string \<Rightarrow> log_queue \<Rightarrow> log_queue" where
  "enqueue line q =
     (if QUEUE_MAX_BYTES < q_bytes q + length line then q\<lparr>q_dropped := sat_inc (q_dropped q)\<rparr>
      else q\<lparr>q_bytes := q_bytes q + length line, q_lines := q_lines q @ [line]\<rparr>)"

definition drain :: "log_queue \<Rightarrow> string list \<times> u32 \<times> log_queue" where
  "drain q = (q_lines q, q_dropped q, q\<lparr>q_lines := [], q_bytes := 0, q_dropped := 0\<rparr>)"

text \<open>\<open>SdLogger::log\<close>, without the console: \<open>enabled\<close> is the console logger's filter.\<close>

definition sink_log :: "bool \<Rightarrow> nat \<Rightarrow> log_level \<Rightarrow> string \<Rightarrow> string \<Rightarrow> log_queue \<Rightarrow> log_queue" where
  "sink_log enabled uptime_ms level target args q =
     (if SINK_LEVEL < level \<or> \<not> enabled then q
      else enqueue (dec_digits uptime_ms @ '' '' @ level_name level @ '' '' @ target @ '': '' @ args @ [CHR 0x0A]) q)"

section \<open>Writing to the card\<close>

text \<open>The two generations on the card, and what the file system lets happen in one flush: which calls
  succeed, and how many bytes it takes before a write fails (\<open>None\<close>: all).\<close>

record log_card =
  current_log :: "string option"
  rotated_log :: "string option"

record card_faults =
  stat_ok :: bool
  remove_ok :: bool
  rename_ok :: bool
  open_ok :: bool
  write_space :: "nat option"
  flush_ok :: bool

definition no_faults :: card_faults where
  "no_faults = \<lparr>stat_ok = True, remove_ok = True, rename_ok = True, open_ok = True, write_space = None, flush_ok = True\<rparr>"

text \<open>A rename does not overwrite on this file system.\<close>

definition rotate_log :: "card_faults \<Rightarrow> log_card \<Rightarrow> (string + unit) \<times> log_card" where
  "rotate_log f c =
     (case current_log c of
        Some content \<Rightarrow>
          if stat_ok f \<and> ROTATE_AT_BYTES < length content then
            let c = (if remove_ok f then c\<lparr>rotated_log := None\<rparr> else c)
            in if rename_ok f \<and> rotated_log c = None
               then (Inr (), c\<lparr>current_log := None, rotated_log := Some content\<rparr>)
               else (Inl ''rotate log'', c)
          else (Inr (), c)
      | None \<Rightarrow> (Inr (), c))"

definition dropped_notice :: "u32 \<Rightarrow> string" where
  "dropped_notice d = ''- WARN rust_gps_ntp::sdlog: '' @ dec_digits (unat d) @ '' line(s) dropped (queue full)'' @ [CHR 0x0A]"

definition batch_text :: "string list \<Rightarrow> u32 \<Rightarrow> string" where
  "batch_text ls d = concat ls @ (if 0 < d then dropped_notice d else [])"

definition append_log :: "card_faults \<Rightarrow> string \<Rightarrow> log_card \<Rightarrow> (string + unit) \<times> log_card" where
  "append_log f txt c =
     (if \<not> open_ok f then (Inl ''open log'', c)
      else let old = (case current_log c of None \<Rightarrow> [] | Some s \<Rightarrow> s);
               taken = (case write_space f of None \<Rightarrow> txt | Some n \<Rightarrow> take n txt);
               c = c\<lparr>current_log := Some (old @ taken)\<rparr>
           in if length taken < length txt then (Inl ''write log'', c)
              else if \<not> flush_ok f then (Inl ''flush log'', c) else (Inr (), c))"

definition flush_to_card :: "card_faults \<Rightarrow> log_queue \<Rightarrow> log_card \<Rightarrow> (string + unit) \<times> log_queue \<times> log_card" where
  "flush_to_card f q c =
     (case drain q of (ls, d, q1) \<Rightarrow>
        if ls = [] \<and> d = 0 then (Inr (), q1, c)
        else case rotate_log f c of
               (Inl e, c1) \<Rightarrow> (Inl e, q1, c1)
             | (Inr _, c1) \<Rightarrow> (case append_log f (batch_text ls d) c1 of (r, c2) \<Rightarrow> (r, q1, c2)))"

text \<open>One pass of the writer thread; the flag says that a failure is to be reported (once).\<close>

record log_writer =
  failed_once :: bool
  wqueue :: log_queue
  wcard :: log_card

definition writer_pass :: "bool \<Rightarrow> card_faults \<Rightarrow> log_writer \<Rightarrow> string option \<times> log_writer" where
  "writer_pass ready f w =
     (if \<not> ready then (None, w)
      else case flush_to_card f (wqueue w) (wcard w) of
             (Inr _, q, c) \<Rightarrow> (None, w\<lparr>failed_once := False, wqueue := q, wcard := c\<rparr>)
           | (Inl e, q, c) \<Rightarrow> (if failed_once w then None else Some e, w\<lparr>failed_once := True, wqueue := q, wcard := c\<rparr>))"

text \<open>Histories of logging and writer passes; a pass records the batch it took and whether the card has it.\<close>

datatype log_op = Logged string | Pass bool card_faults

datatype batch = Written "string list" u32 | Lost "string list" u32

fun log_run :: "log_op list \<Rightarrow> log_writer \<Rightarrow> batch list \<times> log_writer" where
  "log_run [] w = ([], w)"
| "log_run (Logged line # ops) w = log_run ops (w\<lparr>wqueue := enqueue line (wqueue w)\<rparr>)"
| "log_run (Pass ready f # ops) w =
     (let w1 = snd (writer_pass ready f w); b = drain (wqueue w); rest = log_run ops w1
      in if \<not> ready then rest
         else ((case fst (flush_to_card f (wqueue w) (wcard w)) of
                  Inr _ \<Rightarrow> Written (fst b) (fst (snd b)) | Inl _ \<Rightarrow> Lost (fst b) (fst (snd b))) # fst rest, snd rest))"

fun logged :: "log_op list \<Rightarrow> string list" where
  "logged [] = []"
| "logged (Logged l # ops) = l # logged ops"
| "logged (Pass _ _ # ops) = logged ops"

fun batch_lines :: "batch \<Rightarrow> string list" where
  "batch_lines (Written ls d) = ls" | "batch_lines (Lost ls d) = ls"

fun batch_dropped :: "batch \<Rightarrow> nat" where
  "batch_dropped (Written ls d) = unat d" | "batch_dropped (Lost ls d) = unat d"

definition queue_inv :: "log_queue \<Rightarrow> bool" where
  "queue_inv q \<longleftrightarrow> q_bytes q = length (concat (q_lines q)) \<and> q_bytes q \<le> QUEUE_MAX_BYTES"

lemma enqueue_inv [step_inv]: "queue_inv q \<Longrightarrow> queue_inv (enqueue line q)"
  by (auto simp: queue_inv_def enqueue_def)

lemma flush_queue: "fst (snd (flush_to_card f q c)) = snd (snd (drain q))"
  by (auto simp: flush_to_card_def drain_def split: prod.splits sum.splits)

lemma drain_inv: "queue_inv (snd (snd (drain q)))"
  by (simp add: queue_inv_def drain_def)

lemma writer_queue: "wqueue (snd (writer_pass ready f w)) = (if ready then snd (snd (drain (wqueue w))) else wqueue w)"
  using flush_queue[of f "wqueue w" "wcard w"] by (auto simp: writer_pass_def split: prod.splits sum.splits)

lemma pass_inv [step_inv]: "queue_inv (wqueue w) \<Longrightarrow> queue_inv (wqueue (snd (writer_pass ready f w)))"
  by (simp add: writer_queue drain_inv)

lemma sat_inc_unat: "unat d < 2 ^ 32 - 1 \<Longrightarrow> unat (sat_inc (d :: u32)) = unat d + 1"
  by (auto simp: sat_inc_def unat_word_ariths unsigned_minus_1_eq_mask mask_eq_exp_minus_1)

definition waiting :: "log_queue \<Rightarrow> nat" where
  "waiting q = length (q_lines q) + unat (q_dropped q)"

text \<open>What a history does with the lines: a prefix of what was queued goes out in the batches.\<close>

lemma run_accounts:
  assumes "log_run ops w = (bs, w')" "length (logged ops) + unat (q_dropped (wqueue w)) < 2 ^ 32 - 1"
  shows "length (logged ops) + waiting (wqueue w) = (\<Sum>b\<leftarrow>bs. length (batch_lines b) + batch_dropped b) + waiting (wqueue w') \<and>
    (\<exists>acc. subseq acc (logged ops) \<and> q_lines (wqueue w) @ acc = concat (map batch_lines bs) @ q_lines (wqueue w'))"
  using assms
proof (induction ops w arbitrary: bs rule: log_run.induct)
  case (2 line ops w)
  let ?q = "wqueue w"
  have u: "unat (q_dropped (enqueue line ?q)) \<le> unat (q_dropped ?q) + 1"
    "waiting (enqueue line ?q) = waiting ?q + 1"
    using "2.prems"(2) sat_inc_unat[of "q_dropped ?q"] by (auto simp: enqueue_def waiting_def)
  have IH: "length (logged ops) + waiting (enqueue line ?q) = (\<Sum>b\<leftarrow>bs. length (batch_lines b) + batch_dropped b) + waiting (wqueue w') \<and>
    (\<exists>acc. subseq acc (logged ops) \<and> q_lines (enqueue line ?q) @ acc = concat (map batch_lines bs) @ q_lines (wqueue w'))"
    using "2.IH"[of bs] "2.prems" u(1) by simp
  then obtain acc where acc: "subseq acc (logged ops)" "q_lines (enqueue line ?q) @ acc = concat (map batch_lines bs) @ q_lines (wqueue w')"
    by blast
  have "\<exists>acc. subseq acc (line # logged ops) \<and> q_lines ?q @ acc = concat (map batch_lines bs) @ q_lines (wqueue w')"
  proof (cases "QUEUE_MAX_BYTES < q_bytes ?q + length line")
    case True then show ?thesis using acc by (auto simp: enqueue_def)
  next
    case False
    then show ?thesis using acc by (intro exI[of _ "line # acc"]) (simp add: enqueue_def)
  qed
  with IH u(2) show ?case by simp
next
  case (3 ready f ops w)
  let ?w1 = "snd (writer_pass ready f w)"
  obtain bs1 where r: "log_run ops ?w1 = (bs1, w')"
    using "3.prems"(1) by (cases "log_run ops ?w1") (auto simp: Let_def split: if_splits)
  have q: "unat (q_dropped (wqueue ?w1)) \<le> unat (q_dropped (wqueue w))"
    by (simp add: writer_queue drain_def)
  have IH: "length (logged ops) + waiting (wqueue ?w1) = (\<Sum>b\<leftarrow>bs1. length (batch_lines b) + batch_dropped b) + waiting (wqueue w') \<and>
    (\<exists>acc. subseq acc (logged ops) \<and> q_lines (wqueue ?w1) @ acc = concat (map batch_lines bs1) @ q_lines (wqueue w'))"
    using "3.IH"[OF refl refl] r q "3.prems"(2) by simp
  show ?case
  proof (cases ready)
    case False
    then have "?w1 = w" "bs = bs1" using "3.prems"(1) r by (simp_all add: writer_pass_def Let_def)
    with IH show ?thesis by simp
  next
    case True
    then obtain b where "bs = b # bs1" "batch_lines b = q_lines (wqueue w)" "batch_dropped b = unat (q_dropped (wqueue w))"
      using "3.prems"(1) r by (auto simp: Let_def drain_def split: sum.splits)
    with IH True show ?thesis by (auto simp: writer_queue drain_def waiting_def)
  qed
qed auto



text \<open>What a flush does on each branch.\<close>

definition kept_log :: "card_faults \<Rightarrow> log_card \<Rightarrow> string" where
  "kept_log f c = (case current_log c of None \<Rightarrow> []
     | Some s \<Rightarrow> if stat_ok f \<and> ROTATE_AT_BYTES < length s then [] else s)"

lemma flush_cases:
  assumes "flush_to_card f q c = (r, q', c')" "drain q = (ls, d, q1)"
  shows "(ls = [] \<and> d = 0 \<and> r = Inr () \<and> c' = c) \<or>
    (r \<noteq> Inr () \<and> current_log c' = current_log c) \<or>
    (\<exists>n. current_log c' = Some (kept_log f c @ take n (batch_text ls d)) \<and> (r = Inr () \<longrightarrow> length (batch_text ls d) \<le> n)) \<or>
    (r \<noteq> Inr () \<and> kept_log f c = [] \<and> current_log c' = None)"
proof (cases "ls = [] \<and> d = 0")
  case False
  obtain r1 c1 where rot: "rotate_log f c = (r1, c1)" by fastforce
  have rc: "r1 = Inr () \<Longrightarrow> kept_log f c = (case current_log c1 of None \<Rightarrow> [] | Some s \<Rightarrow> s) \<and>
      (current_log c1 = current_log c \<or> current_log c1 = None)"
    "r1 \<noteq> Inr () \<Longrightarrow> current_log c1 = current_log c"
    using rot by (auto simp: rotate_log_def kept_log_def Let_def split: option.splits if_splits)
  show ?thesis
  proof (cases "r1 = Inr ()")
    case True
    then have r: "append_log f (batch_text ls d) c1 = (r, c')" using assms rot False
      by (auto simp: flush_to_card_def split: prod.splits)
    show ?thesis
    proof (cases "open_ok f")
      case False
      then show ?thesis using r rc(1)[OF True] by (auto simp: append_log_def)
    next
      case True
      then obtain n where "current_log c' = Some (kept_log f c @ take n (batch_text ls d))"
        "r = Inr () \<longrightarrow> length (batch_text ls d) \<le> n"
        using r rc(1)[OF \<open>r1 = Inr ()\<close>]
        by (cases "write_space f")
          (auto simp: append_log_def Let_def split: if_splits option.splits intro: that[of "length (batch_text ls d)"])
      then show ?thesis by blast
    qed
  next
    case False
    then show ?thesis using assms rot rc(2) \<open>\<not> (ls = [] \<and> d = 0)\<close>
      by (cases r1) (auto simp: flush_to_card_def split: prod.splits)
  qed
qed (use assms in \<open>auto simp: flush_to_card_def\<close>)

lemma dec_digits_length: "n < 10 ^ Suc k \<Longrightarrow> length (dec_digits n) \<le> Suc k"
proof (induction k arbitrary: n)
  case (Suc k)
  then have "n div 10 < 10 ^ Suc k" by (simp add: less_mult_imp_div_less)
  with Suc.IH show ?case by (subst dec_digits.simps) auto
qed (subst dec_digits.simps, simp)

lemma notice_length: "length (dropped_notice d) \<le> 68"
proof -
  have "unat d < 2 ^ LENGTH(32)" by (rule unsigned_less)
  then have "unat d < 10 ^ Suc 9" by simp
  from dec_digits_length[OF this] show ?thesis by (simp add: dropped_notice_def)
qed

lemma batch_length:
  assumes "queue_inv q" "drain q = (ls, d, q1)"
  shows "length (batch_text ls d) \<le> QUEUE_MAX_BYTES + 68"
proof -
  have "length (concat ls) \<le> QUEUE_MAX_BYTES" using assms by (auto simp: queue_inv_def drain_def)
  then show ?thesis using notice_length[of d] by (simp add: batch_text_def)
qed

definition log_size :: "log_card \<Rightarrow> nat" where
  "log_size c = (case current_log c of None \<Rightarrow> 0 | Some s \<Rightarrow> length s)"

lemma pass_size:
  assumes "queue_inv (wqueue w)" "ready \<longrightarrow> stat_ok f" "log_size (wcard w) \<le> ROTATE_AT_BYTES + QUEUE_MAX_BYTES + 68"
  shows "log_size (wcard (snd (writer_pass ready f w))) \<le> ROTATE_AT_BYTES + QUEUE_MAX_BYTES + 68"
proof (cases ready)
  case True
  obtain r q' c' where fl: "flush_to_card f (wqueue w) (wcard w) = (r, q', c')" by (metis prod_cases3)
  obtain ls d q1 where dr: "drain (wqueue w) = (ls, d, q1)" by (metis prod_cases3)
  have k: "length (kept_log f (wcard w)) \<le> ROTATE_AT_BYTES"
    using assms(2) True by (auto simp: kept_log_def split: option.splits)
  have "log_size c' \<le> ROTATE_AT_BYTES + QUEUE_MAX_BYTES + 68"
    using flush_cases[OF fl dr] batch_length[OF assms(1) dr] k assms(3) by (auto simp: log_size_def)
  then show ?thesis using True fl by (auto simp: writer_pass_def split: sum.splits)
qed (use assms in \<open>simp add: writer_pass_def\<close>)

text \<open>The log file stays bounded: as long as the card answers for the size of the file, no history of
  logging and writer passes, whatever else fails in them, lets the current log grow past the rotation
  limit of 8 MiB by more than one queue (16 KiB) and its dropped-lines notice (68 bytes).\<close>

theorem log_file_bounded:
  assumes "queue_inv (wqueue w)" "log_size (wcard w) \<le> 8388608 + 16384 + 68"
    and "\<forall>f. Pass True f \<in> set ops \<longrightarrow> stat_ok f"
  shows "log_size (wcard (snd (log_run ops w))) \<le> 8388608 + 16384 + 68"
  using assms
proof (induction ops w rule: log_run.induct)
  case (3 ready f ops w)
  have "ready \<longrightarrow> stat_ok f" using "3.prems"(3) by (cases ready) auto
  then show ?case
    using "3.IH"[OF refl refl] pass_size[of w ready f] "3.prems" pass_inv[of w ready f]
    by (auto simp: Let_def ROTATE_AT_BYTES_def QUEUE_MAX_BYTES_def)
qed (auto simp: enqueue_inv)

theorem log_file_bounded_witness:
  "log_size (wcard (snd (log_run [Logged ''a'', Pass True (no_faults\<lparr>write_space := Some 0\<rparr>), Logged ''b'', Pass True no_faults]
      \<lparr>failed_once = False, wqueue = log_queue_new, wcard = \<lparr>current_log = None, rotated_log = None\<rparr>\<rparr>)))
    \<le> 8388608 + 16384 + 68"
  by (rule log_file_bounded) (auto simp: log_queue_new_def queue_inv_def log_size_def no_faults_def)

text \<open>A flush that succeeds appends the whole batch; one that fails has emptied the queue all the same.\<close>

theorem flush_success:
  assumes "flush_to_card f q c = (Inr (), q', c')" "q_lines q \<noteq> [] \<or> q_dropped q \<noteq> 0"
  shows "current_log c' = Some (kept_log f c @ batch_text (q_lines q) (q_dropped q)) \<and> q' = log_queue_new"
  using flush_cases[OF assms(1), of "q_lines q" "q_dropped q"] assms flush_queue[of f q c]
  by (auto simp: drain_def log_queue_new_def)

theorem failed_flush_loses_lines:
  "flush_to_card (no_faults\<lparr>open_ok := False\<rparr>) \<lparr>q_lines = [''x''], q_bytes = 1, q_dropped = 3\<rparr> c = (Inl ''open log'', log_queue_new, c)
   \<or> ROTATE_AT_BYTES < log_size c"
  by (auto simp: flush_to_card_def drain_def rotate_log_def append_log_def log_queue_new_def no_faults_def log_size_def
      split: option.splits)

end
