(* ===== verification/Card_Web.thy ===== *)
theory Card_Web
  imports Sdlog Utf8 "HOL-Library.List_Lexorder" "HOL-Library.Product_Lexorder" "HOL-Library.Option_ord" "HOL-Library.Char_ord"
begin

text \<open>The HTTP pages of the log mirror (\<open>sdlog.rs\<close>): downloads, the listing of the card root, deletion.\<close>

section \<open>Serving files\<close>

text \<open>The chunk loop of \<open>serve_file\<close>: \<open>read_chunk offset max\<close> is the card's answer, \<open>None\<close> an I/O error.
  The result is the chunks sent, and whether the handler returned normally. (The saturation of
  \<open>offset\<close> cannot be seen: \<open>len\<close> is a \<open>u64\<close> too.)\<close>

function serve_chunks :: "(nat \<Rightarrow> nat \<Rightarrow> string option) \<Rightarrow> nat \<Rightarrow> nat \<Rightarrow> bool \<times> string list" where
  "serve_chunks read_chunk len offset =
     (if len \<le> offset then (True, [])
      else case read_chunk offset HTTP_CHUNK_BYTES of
             None \<Rightarrow> (False, [])
           | Some chunk \<Rightarrow> if chunk = [] then (True, [])
               else map_prod id ((#) chunk) (serve_chunks read_chunk len (offset + length chunk)))"
  by pat_completeness auto
termination by (relation "measure (\<lambda>(_, len, offset). len - offset)") (auto simp: length_greater_0_conv[symmetric] simp del: length_greater_0_conv)

declare serve_chunks.simps [simp del]

datatype http_reply = Reply nat "string list" | Handler_Err

definition serve_file :: "nat option \<Rightarrow> (nat \<Rightarrow> nat \<Rightarrow> string option) \<Rightarrow> http_reply" where
  "serve_file stat_len read_chunk =
     (case stat_len of
        None \<Rightarrow> Reply 404 [''no such log'' @ [CHR 0x0A]]
      | Some len \<Rightarrow> (case serve_chunks read_chunk len 0 of
            (ok, chunks) \<Rightarrow> if ok then Reply 200 chunks else Handler_Err))"

text \<open>A file that does not change while it is served: a read gives some of the bytes at the offset, at
  least one before the end.\<close>

definition reads_file :: "string \<Rightarrow> (nat \<Rightarrow> nat \<Rightarrow> string option) \<Rightarrow> bool" where
  "reads_file content rd \<longleftrightarrow> (\<forall>off m. off < length content \<longrightarrow> 0 < m \<longrightarrow>
     (\<exists>n. 0 < n \<and> n \<le> m \<and> rd off m = Some (take n (drop off content))))"

lemma serve_from:
  assumes "reads_file content rd"
  shows "\<exists>cs. serve_chunks rd (length content) off = (True, cs) \<and> concat cs = drop off content \<and>
    (\<forall>c \<in> set cs. length c \<le> 2048)"
proof (induction "length content - off" arbitrary: off rule: less_induct)
  case less
  show ?case
  proof (cases "length content \<le> off")
    case False
    obtain n where n: "0 < n" "n \<le> HTTP_CHUNK_BYTES" "rd off HTTP_CHUNK_BYTES = Some (take n (drop off content))"
      using assms[unfolded reads_file_def, rule_format, of off HTTP_CHUNK_BYTES] False by (auto simp: HTTP_CHUNK_BYTES_def)
    let ?c = "take n (drop off content)"
    have c: "?c \<noteq> []" "0 < length ?c" "length ?c \<le> 2048" using n False by (auto simp: HTTP_CHUNK_BYTES_def)
    obtain cs where cs: "serve_chunks rd (length content) (off + length ?c) = (True, cs)"
      "concat cs = drop (off + length ?c) content" "\<forall>c \<in> set cs. length c \<le> 2048"
      using less[of "off + length ?c"] c(2) False by force
    have "?c @ drop (off + length ?c) content = drop off content"
      using append_take_drop_id[of n "drop off content"] False
      by (cases "n \<le> length (drop off content)") (auto simp: add.commute min_def)
    then show ?thesis using n(3) cs c False
      by (intro exI[of _ "?c # cs"]) (subst serve_chunks.simps, simp)
  qed (simp add: serve_chunks.simps)
qed

text \<open>C38: The log download always ends, and is complete: a file that does not change while it is served
  is sent with status 200, whole and in order, in pieces of at most 2048 bytes, however short the reads
  of the card are.\<close>

theorem serve_file_complete:
  assumes "reads_file content rd"
  shows "\<exists>chunks. serve_file (Some (length content)) rd = Reply 200 chunks \<and> concat chunks = content \<and>
    (\<forall>c \<in> set chunks. length c \<le> 2048)"
  using serve_from[OF assms, of 0] by (auto simp: serve_file_def)

lemma short_reads: "reads_file content (\<lambda>off m. Some (take (min m 2) (drop off content)))"
  unfolding reads_file_def
proof (intro allI impI)
  fix off m :: nat
  assume "0 < m"
  then show "\<exists>n. 0 < n \<and> n \<le> m \<and> Some (take (min m 2) (drop off content)) = Some (take n (drop off content))"
    by (intro exI[of _ "min m 2"]) simp
qed

text \<open>Five bytes read two at a time.\<close>

theorem serve_file_complete_witness:
  "\<exists>chunks. serve_file (Some (length ''hello'')) (\<lambda>off m. Some (take (min m 2) (drop off ''hello''))) = Reply 200 chunks \<and>
     concat chunks = ''hello'' \<and> (\<forall>c \<in> set chunks. length c \<le> 2048)"
  by (rule serve_file_complete[OF short_reads])

text \<open>When the writer appends between two reads, the body can exceed the announced length.\<close>

theorem growing_file_overruns:
  "serve_file (Some 1) (\<lambda>off m. Some (take m (drop off ''ab''))) = Reply 200 [''ab'']"
  by (simp add: serve_file_def serve_chunks.simps HTTP_CHUNK_BYTES_def)

section \<open>The listing\<close>

fun escape_char :: "char \<Rightarrow> string" where
  "escape_char c = (if c = CHR ''&'' then ''&amp;'' else if c = CHR ''<'' then ''&lt;''
     else if c = CHR ''>'' then ''&gt;'' else if c = CHR 0x22 then ''&quot;'' else [c])"

definition html_escape :: "string \<Rightarrow> string" where
  "html_escape s = concat (map escape_char s)"

definition marker_name :: string where "marker_name = ''.rust_gps_ntp_ready''"

definition listing_row :: "string \<times> nat option \<Rightarrow> string" where
  "listing_row e =
     (let escaped = html_escape (fst e) in
      ''<tr><td>'' @ escaped @ ''</td>'' @
      (case snd e of
         None \<Rightarrow> ''<td>dir</td><td></td></tr>''
       | Some bytes \<Rightarrow>
           if fst e = marker_name then ''<td>'' @ dec_digits bytes @ ''</td><td>protected</td></tr>''
           else ''<td>'' @ dec_digits bytes @ ''</td><td><form method=post action=/files/delete style='' @ [CHR 0x22] @ ''display:inline''
             @ [CHR 0x22] @ ''><input type=hidden name=name value='' @ [CHR 0x22] @ escaped @ [CHR 0x22] @ ''><button onclick='' @ [CHR 0x22]
             @ ''return confirm('' @ [CHR 0x27] @ ''Delete '' @ escaped @ ''?'' @ [CHR 0x27] @ '')'' @ [CHR 0x22]
             @ ''>delete</button></form></td></tr>''))"

text \<open>\<open>entries\<close> are the names and, for files, the sizes that reading the card root gives; an unreadable
  root gives none.\<close>

definition serve_listing :: "(string \<times> nat option) list \<Rightarrow> string" where
  "serve_listing entries =
     (let entries = sort entries in
      ''<!doctype html><title>SD card</title><style>body{font:14px monospace}td{padding:2px 10px}</style><h2>/sdcard</h2><table>''
      @ concat (map listing_row entries)
      @ ''</table><p>'' @ dec_digits (length entries)
      @ '' entries. Logs: <a href=/log>/log</a> <a href=/log/1>/log/1</a></p>'')"

lemma escape_char_safe: "c \<in> set (escape_char x) \<Longrightarrow> c \<noteq> CHR ''<'' \<and> c \<noteq> CHR ''>'' \<and> c \<noteq> CHR 0x22"
  by (auto split: if_splits)

lemma escape_char_inj: "escape_char a @ s = escape_char b @ t \<Longrightarrow> a = b"
  by (auto split: if_splits)

lemma escape_inj: "html_escape s = html_escape t \<Longrightarrow> s = t"
proof (induction s arbitrary: t)
  case Nil
  then show ?case by (cases t) (auto simp: html_escape_def split: if_splits)
next
  case (Cons a s)
  then obtain b t' where t: "t = b # t'"
    by (cases t) (auto simp: html_escape_def split: if_splits)
  then have "a = b" using Cons.prems escape_char_inj[of a "html_escape s" b "html_escape t'"] by (simp add: html_escape_def)
  with Cons t show ?case by (auto simp: html_escape_def)
qed


text \<open>File names cannot break out of the listing: no escaped name contains an angle bracket or a
  double quote, and different names stay different.\<close>

theorem listing_escapes_names:
  "set (html_escape s) \<inter> {CHR ''<'', CHR ''>'', CHR 0x22} = {} \<and> inj html_escape"
proof
  show "set (html_escape s) \<inter> {CHR ''<'', CHR ''>'', CHR 0x22} = {}"
    unfolding html_escape_def set_concat set_map by (auto simp del: escape_char.simps dest!: escape_char_safe)
  show "inj html_escape" by (rule injI) (rule escape_inj)
qed

text \<open>The single quote of the confirmation script is not escaped.\<close>

theorem single_quote_not_escaped: "html_escape [CHR 0x27] = [CHR 0x27]"
  by (simp add: html_escape_def)

section \<open>Deleting a file\<close>

text \<open>\<open>form_decode\<close> from byte \<open>i\<close> on; \<open>None\<close> is the panic of the slice.\<close>

function form_bytes :: "string \<Rightarrow> nat \<Rightarrow> string option" where
  "form_bytes raw i =
     (if length raw \<le> i then Some []
      else if raw ! i = CHR ''+'' then map_option ((#) CHR '' '') (form_bytes raw (i + 1))
      else if raw ! i = CHR ''%'' \<and> i + 2 < length raw then
        (case slice raw (i + 1) (i + 3) of
           None \<Rightarrow> None
         | Some hex \<Rightarrow> (case parse_uint 16 255 hex of
               Some v \<Rightarrow> map_option ((#) (char_of v)) (form_bytes raw (i + 3))
             | None \<Rightarrow> map_option ((#) CHR ''%'') (form_bytes raw (i + 1))))
      else map_option ((#) (raw ! i)) (form_bytes raw (i + 1)))"
  by pat_completeness auto
termination by (relation "measure (\<lambda>(raw, i). length raw - i)") auto

declare form_bytes.simps [simp del]

definition form_decode :: "string \<Rightarrow> string option" where
  "form_decode raw = map_option utf8_lossy (form_bytes raw 0)"

text \<open>Reading the request body: the pieces \<open>read\<close> returns (\<open>None\<close>: an error), the empty one at the end.\<close>

datatype body = Body string | Too_Large | Read_Err

fun read_body :: "string option list \<Rightarrow> string \<Rightarrow> body" where
  "read_body [] acc = Body acc"
| "read_body (None # rs) acc = Read_Err"
| "read_body (Some n # rs) acc =
     (if n = [] then Body acc
      else if DELETE_BODY_MAX < length (acc @ n) then Too_Large else read_body rs (acc @ n))"

definition form_name :: "string \<Rightarrow> string option option" where
  "form_name body =
     (case List.find (\<lambda>(k, v). k = ''name'') (List.map_filter (split_once CHR ''='') (split_char CHR ''&'' body)) of
        None \<Rightarrow> Some None
      | Some (k, v) \<Rightarrow> map_option Some (form_decode v))"

definition refused_name :: "string \<Rightarrow> bool" where
  "refused_name name \<longleftrightarrow> name = [] \<or> CHR ''/'' \<in> set name \<or> CHR 0x5C \<in> set name \<or>
     find_sub ''..'' name \<noteq> None \<or> name = marker_name"

text \<open>\<open>metadata\<close> of the path, and what \<open>remove_file\<close> answers; an error says whether it is \<open>NotFound\<close>.\<close>

datatype file_stat = Is_File | Not_File | Stat_Err bool

datatype delete_reply = Status nat | Delete_Err | Panicked

text \<open>\<open>handle_delete\<close>: the reply, and the path \<open>remove_file\<close> was called on, if any.\<close>

definition handle_delete ::
  "(string \<Rightarrow> file_stat) \<Rightarrow> (string \<Rightarrow> bool option) \<Rightarrow> string option list \<Rightarrow> delete_reply \<times> string option" where
  "handle_delete stat remove reads =
     (case read_body reads [] of
        Read_Err \<Rightarrow> (Delete_Err, None)
      | Too_Large \<Rightarrow> (Status 413, None)
      | Body raw \<Rightarrow>
          (case form_name (utf8_lossy raw) of
             None \<Rightarrow> (Panicked, None)
           | Some None \<Rightarrow> (Status 400, None)
           | Some (Some name) \<Rightarrow>
               if refused_name name then (Status 400, None)
               else let path = ''/sdcard/'' @ name in
                 (case stat path of
                    Is_File \<Rightarrow> (case remove path of
                        None \<Rightarrow> (Status 303, Some path)
                      | Some not_found \<Rightarrow> (Status (if not_found then 404 else 500), Some path))
                  | Not_File \<Rightarrow> (Status 400, None)
                  | Stat_Err not_found \<Rightarrow> (Status (if not_found then 404 else 500), None))))"

lemma body_limit: "read_body rs acc = Body s \<Longrightarrow> length acc \<le> 512 \<Longrightarrow> length s \<le> 512"
  by (induction rs acc rule: read_body.induct) (auto simp: DELETE_BODY_MAX_def split: if_splits)

text \<open>A file is removed only if it is a regular file directly in the card root, and not the ready marker.\<close>

lemma delete_scope:
  assumes "handle_delete stat remove reads = (reply, Some path)"
  shows "stat path = Is_File \<and> (\<exists>name. path = ''/sdcard/'' @ name \<and> name \<noteq> [] \<and> CHR ''/'' \<notin> set name \<and> CHR 0x5C \<notin> set name \<and>
      find_sub ''..'' name = None \<and> name \<noteq> ''.rust_gps_ntp_ready'')"
proof (cases "read_body reads []")
  case (Body raw)
  then show ?thesis
    using assms
    by (cases "form_name (utf8_lossy raw)")
      (auto simp: handle_delete_def Let_def refused_name_def marker_name_def split: option.splits if_splits file_stat.splits)
qed (use assms in \<open>auto simp: handle_delete_def\<close>)

text \<open>The answer 303 is given exactly when a removal succeeded.\<close>

lemma delete_answer:
  assumes "handle_delete stat remove reads = (reply, touched)"
  shows "reply = Status 303 \<longleftrightarrow> (\<exists>path. touched = Some path \<and> remove path = None)"
proof (cases "read_body reads []")
  case (Body raw)
  then show ?thesis
    using assms
    by (cases "form_name (utf8_lossy raw)")
      (auto simp: handle_delete_def Let_def split: option.splits if_splits file_stat.splits)
qed (use assms in \<open>auto simp: handle_delete_def\<close>)

lemma delete_example:
  "handle_delete (\<lambda>p. Is_File) (\<lambda>p. None) [Some ''name=old+log'', Some []] = (Status 303, Some ''/sdcard/old log'')"
  by code_simp

text \<open>A percent sign before a character that is not ASCII makes the decoder slice inside the character.\<close>

theorem delete_request_panics:
  "handle_delete stat remove [Some (''name=%a'' @ [char_of (195 :: nat), char_of (169 :: nat)])] = (Panicked, None)"
proof -
  have "form_name (utf8_lossy (''name=%a'' @ [char_of (195 :: nat), char_of (169 :: nat)])) = None" by code_simp
  then show ?thesis by (simp add: handle_delete_def DELETE_BODY_MAX_def)
qed

text \<open>The marker is compared byte by byte; a file system that folds case, as FAT does, knows it under
  other names.\<close>

theorem marker_alias_deleted:
  "handle_delete (\<lambda>p. if map to_lower p = ''/sdcard/.rust_gps_ntp_ready'' then Is_File else Stat_Err True) (\<lambda>p. None)
     [Some ''name=.RUST_GPS_NTP_READY''] = (Status 303, Some ''/sdcard/.RUST_GPS_NTP_READY'')"
  by code_simp

end
