(* ===== verification/Fmt.thy ===== *)
theory Fmt
  imports IEEE_Float Rust_Str
begin

text \<open>Printing of floats with a fixed number of decimals, as \<open>format!\<close> does it.\<close>

section \<open>Decimal printing of floats\<close>

text \<open>\<open>{:.p}\<close>: the exact value, rounded to \<open>p\<close> decimals, ties to even; the sign of a negative number
  is printed even when the digits round to zero. \<open>{:+.p}\<close> also prints a plus.\<close>

definition fmt_magnitude :: "nat \<Rightarrow> rat \<Rightarrow> string" where
  "fmt_magnitude p r =
     (let n = nat (rne (r * 10 ^ p))
      in dec_digits (n div 10 ^ p) @ (if p = 0 then [] else CHR ''.'' # zero_pad p (dec_digits (n mod 10 ^ p))))"

definition fmt_fixed :: "nat \<Rightarrow> fp \<Rightarrow> string" where
  "fmt_fixed p x =
     (case x of Num r \<Rightarrow> if r < 0 then CHR ''-'' # fmt_magnitude p (- r) else fmt_magnitude p r
      | NegZero \<Rightarrow> CHR ''-'' # fmt_magnitude p 0
      | Inf neg \<Rightarrow> if neg then ''-inf'' else ''inf''
      | NaN \<Rightarrow> ''NaN'')"

definition fmt_fixed_plus :: "nat \<Rightarrow> fp \<Rightarrow> string" where
  "fmt_fixed_plus p x =
     (case x of Num r \<Rightarrow> if r < 0 then fmt_fixed p x else CHR ''+'' # fmt_fixed p x
      | Inf False \<Rightarrow> ''+inf'' | _ \<Rightarrow> fmt_fixed p x)"

end
