(* ===== verification/Timezone.thy ===== *)
theory Timezone
  imports Gps Fmt
begin

text \<open>Time-zone lookup (\<open>timezone.rs\<close>): the HTTP lookup of a position, the worker that keeps it off the
  main loop, the cached name, and its use at boot (\<open>load_timezone_boot\<close> in board.rs) and by the main
  loop (\<open>apply_timezone_lookup_result\<close> in app.rs).\<close>

section \<open>Looking a time zone up\<close>

definition LOOKUP_RETRY_US :: int where "LOOKUP_RETRY_US = 300000000"
definition LOOKUP_REFRESH_US :: int where "LOOKUP_REFRESH_US = 21600000000"

definition lookup_interval_us :: "bool \<Rightarrow> int" where
  "lookup_interval_us tz_initialized = (if tz_initialized then LOOKUP_REFRESH_US else LOOKUP_RETRY_US)"

definition quoted :: "string \<Rightarrow> string" where
  "quoted s = CHR 0x22 # s @ [CHR 0x22]"

definition extract_json_string_field :: "string \<Rightarrow> string \<Rightarrow> string option" where
  "extract_json_string_field json key =
     (case find_sub (quoted key) json of None \<Rightarrow> None
      | Some key_pos \<Rightarrow>
          let after_key = drop (key_pos + length (quoted key)) json in
          (case position (\<lambda>c. c = CHR '':'') after_key of None \<Rightarrow> None
           | Some colon_pos \<Rightarrow>
               (case trim_start (drop (Suc colon_pos) after_key) of
                  [] \<Rightarrow> None
                | c # tail \<Rightarrow>
                    if c \<noteq> CHR 0x22 then None
                    else map_option (\<lambda>n. take n tail) (position (\<lambda>c. c = CHR 0x22) tail))))"

text \<open>What an HTTP GET of a URL gives: a transport error, or a status and the body as far as it could
  be read (\<open>None\<close> when reading failed). At most 1536 bytes of it are used.\<close>

datatype http_result = Http_Failed string | Http_Response nat "string option"

definition fetch_timezone_from_url :: "(string \<Rightarrow> http_result) \<Rightarrow> string \<Rightarrow> string + string option" where
  "fetch_timezone_from_url http url =
     (case http url of
        Http_Failed e \<Rightarrow> Inl e
      | Http_Response status rd \<Rightarrow>
          if \<not> (200 \<le> status \<and> status < 300) then Inl (''timezone lookup HTTP status '' @ dec_digits status)
          else (case rd of
                  None \<Rightarrow> Inl ''failed reading timezone lookup body''
                | Some full \<Rightarrow>
                    let body = take 1536 full in
                    if \<not> utf8_valid body then Inl ''timezone lookup body is not valid UTF-8''
                    else Inr (case extract_json_string_field body ''timezone'' of
                        Some v \<Rightarrow> Some v
                      | None \<Rightarrow> (case extract_json_string_field body ''timezoneId'' of
                            Some v \<Rightarrow> Some v
                          | None \<Rightarrow> extract_json_string_field body ''ianaTimeZoneId''))))"

definition open_meteo_url :: "fp \<Rightarrow> fp \<Rightarrow> string" where
  "open_meteo_url la lo = ''https://api.open-meteo.com/v1/forecast?latitude='' @ fmt_fixed 6 la @ ''&longitude='' @ fmt_fixed 6 lo
     @ ''&current=temperature_2m&timezone=auto''"

definition geonames_url :: "fp \<Rightarrow> fp \<Rightarrow> string" where
  "geonames_url la lo = ''https://secure.geonames.org/timezoneJSON?lat='' @ fmt_fixed 6 la @ ''&lng='' @ fmt_fixed 6 lo
     @ ''&username=demo''"

definition fetch_timezone_for_coords :: "(string \<Rightarrow> http_result) \<Rightarrow> fp \<Rightarrow> fp \<Rightarrow> string + string option" where
  "fetch_timezone_for_coords http la lo =
     (case fetch_timezone_from_url http (open_meteo_url la lo) of
        Inl e \<Rightarrow> Inl (''timezone lookup request failed (open-meteo): '' @ e)
      | Inr (Some tz) \<Rightarrow> Inr (Some tz)
      | Inr None \<Rightarrow>
          (case fetch_timezone_from_url http (geonames_url la lo) of
             Inl e \<Rightarrow> Inl (''timezone lookup request failed (geonames): '' @ e)
           | Inr r \<Rightarrow> Inr r))"

lemma position_first: "c \<notin> set s \<Longrightarrow> position (\<lambda>x. x = c) (s @ c # t) = Some (length s)"
  by (induction s) auto

lemma find_sub_skip:
  "CHR 0x22 \<notin> set pre \<Longrightarrow> find_sub (CHR 0x22 # k) (pre @ CHR 0x22 # k @ s) = Some (length pre)"
  by (induction pre) (auto simp: prefix_def)

lemma json_field:
  assumes "CHR 0x22 \<notin> set pre" "CHR 0x22 \<notin> set v" "set ws1 \<subseteq> {CHR '' '', CHR 0x09}" "set ws2 \<subseteq> {CHR '' '', CHR 0x09}"
  shows "extract_json_string_field (pre @ quoted k @ ws1 @ CHR '':'' # ws2 @ quoted v @ rest) k = Some v"
proof -
  have f: "find_sub (quoted k) (pre @ quoted k @ ws1 @ CHR '':'' # ws2 @ quoted v @ rest) = Some (length pre)"
    using find_sub_skip[OF assms(1), of "k @ [CHR 0x22]"] by (simp add: quoted_def)
  have d: "drop (length pre + length (quoted k)) (pre @ quoted k @ ws1 @ CHR '':'' # ws2 @ quoted v @ rest)
      = ws1 @ CHR '':'' # ws2 @ quoted v @ rest" by simp
  have c: "position (\<lambda>c. c = CHR '':'') (ws1 @ CHR '':'' # ws2 @ quoted v @ rest) = Some (length ws1)"
    using assms(3) by (intro position_first) auto
  have h: "ws_head (CHR 0x22 # s) = 0" "ws_head (CHR '' '' # s) = 1" "ws_head (CHR 0x09 # s) = 1" for s
    by (cases s rule: ws_head.cases; simp add: ascii_ws_def ws3_def)+
  have t: "trim_start (ws2 @ CHR 0x22 # s) = CHR 0x22 # s" for s
    using assms(4)
  proof (induction ws2)
    case Nil
    show ?case by (subst trim_start.simps) (simp add: h)
  next
    case (Cons a ws)
    then have "a = CHR '' '' \<or> a = CHR 0x09" by auto
    then have "ws_head (a # ws @ CHR 0x22 # s) = 1" using h by blast
    then show ?case using Cons by (subst trim_start.simps) simp
  qed
  have q: "quoted v @ rest = CHR 0x22 # v @ CHR 0x22 # rest" by (simp add: quoted_def)
  show ?thesis
    using t[of "v @ CHR 0x22 # rest"] position_first[OF assms(2), of rest]
    unfolding extract_json_string_field_def f option.case Let_def d c by (simp add: q)
qed

text \<open>The time zone of a position is read from the answer of the primary provider when that is
  well-formed: a 2xx answer of at most 1536 bytes whose first quoted string is the key \<open>timezone\<close>
  yields exactly the value of that key, with any spacing around the colon and whatever follows, and the
  fallback provider is not asked.\<close>

theorem lookup_reads_timezone:
  assumes "http (open_meteo_url la lo) = Http_Response status (Some body)" "200 \<le> status" "status < 300"
    and "body = pre @ quoted ''timezone'' @ ws1 @ CHR '':'' # ws2 @ quoted v @ rest"
    and "CHR 0x22 \<notin> set pre" "CHR 0x22 \<notin> set v" "set ws1 \<subseteq> {CHR '' '', CHR 0x09}" "set ws2 \<subseteq> {CHR '' '', CHR 0x09}"
    and "length body \<le> 1536" "utf8_valid body"
  shows "fetch_timezone_for_coords http la lo = Inr (Some v)"
  using json_field[OF assms(5-8), of "''timezone''" rest] assms(1-4,9,10)
  by (simp add: fetch_timezone_for_coords_def fetch_timezone_from_url_def)

theorem lookup_reads_timezone_witness:
  "fetch_timezone_for_coords (\<lambda>_. Http_Response 200 (Some (''{'' @ quoted ''timezone'' @ '':'' @ quoted ''Europe/Oslo'' @ ''}'')))
     (Num 60) (Num 11) = Inr (Some ''Europe/Oslo'')"
  by (rule lookup_reads_timezone[where status = 200 and
        body = "''{'' @ quoted ''timezone'' @ '':'' @ quoted ''Europe/Oslo'' @ ''}''" and pre = "''{''" and ?ws1.0 = "[]" and ?ws2.0 = "[]" and rest = "''}''"])
    (simp_all add: quoted_def utf8_ascii)

text \<open>A transport error of the primary provider ends the lookup; the fallback is only for an answer
  without the field.\<close>

theorem no_fallback_on_error:
  "http (open_meteo_url la lo) = Http_Failed e \<Longrightarrow>
   fetch_timezone_for_coords http la lo = Inl (''timezone lookup request failed (open-meteo): '' @ e)"
  by (simp add: fetch_timezone_for_coords_def fetch_timezone_from_url_def)

section \<open>The lookup worker\<close>

record tz_worker =
  tz_requests :: "(fp \<times> fp) list"
  tz_results :: "(string + string option) list"
  tz_pending :: bool
  tz_alive :: bool

definition tz_spawn :: tz_worker where
  "tz_spawn = \<lparr>tz_requests = [], tz_results = [], tz_pending = False, tz_alive = True\<rparr>"

definition try_request :: "fp \<Rightarrow> fp \<Rightarrow> tz_worker \<Rightarrow> bool \<times> tz_worker" where
  "try_request la lo w =
     (if tz_pending w then (False, w)
      else if \<not> tz_alive w then (False, w)
      else (True, w\<lparr>tz_requests := tz_requests w @ [(la, lo)], tz_pending := True\<rparr>))"

text \<open>One pass of the worker thread: it blocks without a request.\<close>

definition worker_lookup :: "(string \<Rightarrow> http_result) \<Rightarrow> tz_worker \<Rightarrow> tz_worker" where
  "worker_lookup http w =
     (if \<not> tz_alive w then w
      else case tz_requests w of
        [] \<Rightarrow> w
      | (la, lo) # rs \<Rightarrow> w\<lparr>tz_requests := rs, tz_results := tz_results w @ [fetch_timezone_for_coords http la lo]\<rparr>)"

definition tz_poll :: "tz_worker \<Rightarrow> (string + string option) option \<times> tz_worker" where
  "tz_poll w =
     (case tz_results w of
        r # rs \<Rightarrow> (Some r, w\<lparr>tz_results := rs, tz_pending := False\<rparr>)
      | [] \<Rightarrow> if tz_alive w then (None, w)
              else (Some (Inl ''timezone worker disconnected''), w\<lparr>tz_pending := False\<rparr>))"

text \<open>Steps of the main loop and the worker thread, interleaved; the worker sees the network as it is at
  that step. The run keeps the accepted requests and the results handed out.\<close>

datatype tz_event = Ask fp fp | Work "string \<Rightarrow> http_result" | Ask_Result

record tz_history =
  tz_state :: tz_worker
  accepted :: "(fp \<times> fp) list"
  answered :: "((fp \<times> fp) \<times> (string + string option)) list"
  delivered :: "(string + string option) list"

definition tz_begin :: tz_history where
  "tz_begin = \<lparr>tz_state = tz_spawn, accepted = [], answered = [], delivered = []\<rparr>"

inductive tz_step :: "tz_history \<Rightarrow> tz_event \<Rightarrow> tz_history \<Rightarrow> bool" where
  ask: "try_request la lo (tz_state m) = (ok, w) \<Longrightarrow>
    tz_step m (Ask la lo) (m\<lparr>tz_state := w, accepted := accepted m @ (if ok then [(la, lo)] else [])\<rparr>)"
| work: "worker_lookup http (tz_state m) = w \<Longrightarrow>
    tz_step m (Work http) (m\<lparr>tz_state := w, answered := answered m @
      (case tz_requests (tz_state m) of [] \<Rightarrow> [] | (la, lo) # _ \<Rightarrow> [((la, lo), fetch_timezone_for_coords http la lo)])\<rparr>)"
| ask_result: "tz_poll (tz_state m) = (r, w) \<Longrightarrow>
    tz_step m Ask_Result (m\<lparr>tz_state := w, delivered := delivered m @ (case r of None \<Rightarrow> [] | Some x \<Rightarrow> [x])\<rparr>)"

inductive_cases tz_stepE: "tz_step m e m'"

inductive tz_reach :: "tz_history \<Rightarrow> bool" where
  tz_begin: "tz_reach tz_begin"
| tz_next: "tz_reach m \<Longrightarrow> tz_step m e m' \<Longrightarrow> tz_reach m'"

definition tz_inv :: "tz_history \<Rightarrow> bool" where
  "tz_inv m \<longleftrightarrow> tz_alive (tz_state m) \<and>
     length (tz_requests (tz_state m)) + length (tz_results (tz_state m)) = (if tz_pending (tz_state m) then 1 else 0) \<and>
     List.map snd (answered m) = delivered m @ tz_results (tz_state m) \<and>
     accepted m = List.map fst (answered m) @ tz_requests (tz_state m)"

lemma tz_step_inv [step_inv]:
  assumes "tz_step m e m'" "tz_inv m"
  shows "tz_inv m'"
  using assms
proof (cases rule: tz_step.cases)
  case (ask la lo ok w)
  then show ?thesis using assms(2) by (auto simp: tz_inv_def try_request_def split: if_splits)
next
  case (work http w)
  then show ?thesis using assms(2) by (cases "tz_requests (tz_state m)") (auto simp: tz_inv_def worker_lookup_def split: if_splits)
next
  case (ask_result r w)
  then show ?thesis using assms(2) by (cases "tz_results (tz_state m)") (auto simp: tz_inv_def tz_poll_def split: if_splits)
qed

lemma tz_reach_inv: "tz_reach m \<Longrightarrow> tz_inv m"
proof (induction rule: tz_reach.induct)
  case (tz_next m e m')
  then show ?case by (blast intro: tz_step_inv)
qed (simp add: tz_inv_def tz_begin_def tz_spawn_def)

text \<open>C30: Time-zone lookups are answered one for one: in every reachable interleaving of the main loop and
  the worker thread, at most one request is in flight (exactly one when \<open>is_pending\<close> says so), the
  requests are answered in order, each by a lookup of its own coordinates, the results handed out are
  those answers in the same order, each once and none invented, and every accepted request has been
  handed out unless it is the one in flight.\<close>

theorem lookups_answered_in_order:
  assumes "tz_reach m"
  shows "prefix (List.map fst (answered m)) (accepted m) \<and> prefix (delivered m) (List.map snd (answered m)) \<and>
    length (accepted m) = length (delivered m) + (if tz_pending (tz_state m) then 1 else 0)"
proof -
  have i: "List.map snd (answered m) = delivered m @ tz_results (tz_state m)"
    "accepted m = List.map fst (answered m) @ tz_requests (tz_state m)"
    "length (tz_requests (tz_state m)) + length (tz_results (tz_state m)) = (if tz_pending (tz_state m) then 1 else 0)"
    using tz_reach_inv[OF assms] by (auto simp: tz_inv_def)
  have "length (answered m) = length (delivered m) + length (tz_results (tz_state m))"
    using arg_cong[OF i(1), of length] by simp
  with i show ?thesis by simp
qed

lemma tz_asked: "tz_reach (tz_begin\<lparr>tz_state := \<lparr>tz_requests = [(Num 1, Num 2)], tz_results = [], tz_pending = True, tz_alive = True\<rparr>,
    accepted := [(Num 1, Num 2)]\<rparr>)"
proof (rule tz_next[OF tz_begin])
  show "tz_step tz_begin (Ask (Num 1) (Num 2)) (tz_begin\<lparr>tz_state := \<lparr>tz_requests = [(Num 1, Num 2)], tz_results = [],
      tz_pending = True, tz_alive = True\<rparr>, accepted := [(Num 1, Num 2)]\<rparr>)"
    using tz_step.ask[of "Num 1" "Num 2" tz_begin] by (simp add: try_request_def tz_begin_def tz_spawn_def)
qed

theorem lookups_answered_in_order_witness:
  "length (accepted (tz_begin\<lparr>tz_state := \<lparr>tz_requests = [(Num 1, Num 2)], tz_results = [], tz_pending = True, tz_alive = True\<rparr>,
    accepted := [(Num 1, Num 2)]\<rparr>)) = (1 :: nat)"
  using lookups_answered_in_order[OF tz_asked] by (simp add: tz_begin_def)

section \<open>The cached name\<close>

text \<open>The two places the name is kept: NVS (none without a store) and the card. Reading NVS fails for a
  name that does not fit its 64-byte buffer with the terminator.\<close>

record tz_cache =
  nvs_store :: bool
  nvs_ok :: bool
  nvs_tz :: "string option"
  tz_card_ready :: bool
  sd_write_ok :: bool
  sd_tz :: "string option"

definition load_cached :: "tz_cache \<Rightarrow> unit + string option" where
  "load_cached c = (if \<not> nvs_ok c then Inl ()
     else case nvs_tz c of None \<Rightarrow> Inr None | Some s \<Rightarrow> if 63 < length s then Inl () else Inr (Some s))"

definition save :: "string \<Rightarrow> tz_cache \<Rightarrow> tz_cache" where
  "save tz_name c = (if nvs_ok c then c\<lparr>nvs_tz := Some tz_name\<rparr> else c)"

definition load_cached_sd :: "'tz tz_lib \<Rightarrow> tz_cache \<Rightarrow> string option" where
  "load_cached_sd L c =
     (if \<not> tz_card_ready c then None
      else case sd_tz c of None \<Rightarrow> None
           | Some file \<Rightarrow>
               let buf = take 64 file in
               if \<not> utf8_valid buf then None
               else let name = trim buf in
                 if name = [] \<or> tz_from_str L name = None then None else Some name)"

definition save_cached_sd :: "string \<Rightarrow> tz_cache \<Rightarrow> tz_cache" where
  "save_cached_sd tz_name c = (if tz_card_ready c \<and> sd_write_ok c then c\<lparr>sd_tz := Some tz_name\<rparr> else c)"

definition persist_cached :: "string \<Rightarrow> tz_cache \<Rightarrow> tz_cache" where
  "persist_cached tz_name c = save_cached_sd tz_name (if nvs_store c then save tz_name c else c)"

text \<open>\<open>load_timezone_boot\<close> of the board: the zone configuration, the offset for the first snapshot,
  whether a zone is set, and its name.\<close>

record 'tz timezone_boot =
  boot_cfg :: "'tz tz_config"
  boot_gps :: gps_snapshot
  boot_tz_initialized :: bool
  boot_tz_name :: "string option"

definition load_timezone_boot :: "chrono \<Rightarrow> 'tz tz_lib \<Rightarrow> tz_cache \<Rightarrow> int option \<Rightarrow> 'tz tz_config \<Rightarrow> 'tz timezone_boot" where
  "load_timezone_boot C L c boot_rtc_unix cfg =
     (let cached = (if nvs_store c then (case load_cached c of Inr r \<Rightarrow> r | Inl _ \<Rightarrow> None) else None);
          cached = (if cached = None then load_cached_sd L c else cached);
          (ok, cfg, name) = (case cached of
              None \<Rightarrow> (False, cfg, None)
            | Some tz_name \<Rightarrow> (case set_runtime_timezone L tz_name cfg of
                (True, cfg') \<Rightarrow> (True, cfg', Some tz_name) | (False, cfg') \<Rightarrow> (False, cfg', None)));
          gps = (case boot_rtc_unix of None \<Rightarrow> gps_snapshot_default
                 | Some utc \<Rightarrow> gps_snapshot_default\<lparr>tz_offset_hours := tz_offset_hours_at_unix C L cfg utc\<rparr>)
      in \<lparr>boot_cfg = cfg, boot_gps = gps, boot_tz_initialized = ok, boot_tz_name = name\<rparr>)"

text \<open>\<open>apply_timezone_lookup_result\<close> of the main loop.\<close>

definition apply_timezone_lookup_result ::
  "'tz tz_lib \<Rightarrow> string + string option \<Rightarrow> tz_cache \<times> bool \<times> string option \<times> 'tz tz_config \<Rightarrow>
   tz_cache \<times> bool \<times> string option \<times> 'tz tz_config" where
  "apply_timezone_lookup_result L result st =
     (case st of (c, tz_initialized, current_tz_name, cfg) \<Rightarrow>
        case result of
          Inr (Some tz_name) \<Rightarrow>
            (case set_runtime_timezone L tz_name cfg of
               (True, cfg') \<Rightarrow>
                 (if current_tz_name \<noteq> Some tz_name then persist_cached tz_name c else c, True, Some tz_name, cfg')
             | (False, cfg') \<Rightarrow> (c, tz_initialized, current_tz_name, cfg'))
        | _ \<Rightarrow> st)"

text \<open>A resolved zone survives a restart: when a lookup result changes the zone and at least one of
  the two caches can be written (NVS, or the card with an untouched or failing NVS), the next boot that
  reads the same caches starts with that zone, initialised and in force, whatever it was before.\<close>

theorem timezone_survives_restart:
  assumes "tz_from_str L tz_name = Some tz" "current \<noteq> Some tz_name"
    and "length tz_name \<le> 63" "utf8_valid tz_name" "trim tz_name = tz_name" "tz_name \<noteq> []"
    and "nvs_store c \<and> nvs_ok c \<or> \<not> nvs_store c \<and> tz_card_ready c \<and> sd_write_ok c
      \<or> nvs_store c \<and> \<not> nvs_ok c \<and> tz_card_ready c \<and> sd_write_ok c"
    and "apply_timezone_lookup_result L (Inr (Some tz_name)) (c, ini, current, cfg) = (c', ini', current', cfg')"
  shows "boot_tz_initialized (load_timezone_boot C L c' rtc cfg0) \<and>
    boot_tz_name (load_timezone_boot C L c' rtc cfg0) = Some tz_name \<and>
    runtime_tz (boot_cfg (load_timezone_boot C L c' rtc cfg0)) = Some tz \<and> runtime_tz cfg' = Some tz \<and> ini'"
proof -
  have c': "c' = persist_cached tz_name c" "ini'" "runtime_tz cfg' = Some tz"
    using assms(1,2,8) by (auto simp: apply_timezone_lookup_result_def set_runtime_timezone_def)
  have "(if nvs_store c' then (case load_cached c' of Inr r \<Rightarrow> r | Inl _ \<Rightarrow> None) else None) = Some tz_name
     \<or> (if nvs_store c' then (case load_cached c' of Inr r \<Rightarrow> r | Inl _ \<Rightarrow> None) else None) = None \<and> load_cached_sd L c' = Some tz_name"
    using assms(1,3-7) by (auto simp: c'(1) persist_cached_def save_def save_cached_sd_def load_cached_def load_cached_sd_def Let_def)
  then show ?thesis
    using c'(2,3) assms(1) by (elim disjE) (simp_all add: load_timezone_boot_def set_runtime_timezone_def Let_def)
qed

definition two_zones :: "nat tz_lib" where
  "two_zones = \<lparr>tz_from_str = (\<lambda>s. if s = ''Europe/Oslo'' then Some 1 else None), tz_offset = (\<lambda>_ _. 3600)\<rparr>"

theorem timezone_survives_restart_witness:
  "boot_tz_name (load_timezone_boot gregorian two_zones
     (fst (apply_timezone_lookup_result two_zones (Inr (Some ''Europe/Oslo''))
        (\<lparr>nvs_store = True, nvs_ok = True, nvs_tz = Some ''UTC'', tz_card_ready = False, sd_write_ok = False, sd_tz = None\<rparr>,
         False, None, \<lparr>runtime_tz = None, local_tz_env = None\<rparr>))) None \<lparr>runtime_tz = None, local_tz_env = None\<rparr>) = Some ''Europe/Oslo''"
proof -
  let ?st = "(\<lparr>nvs_store = True, nvs_ok = True, nvs_tz = Some ''UTC'', tz_card_ready = False, sd_write_ok = False, sd_tz = None\<rparr>,
         False, None, \<lparr>runtime_tz = None, local_tz_env = None :: string option\<rparr>)"
  obtain c' i' n' f' where r: "apply_timezone_lookup_result two_zones (Inr (Some ''Europe/Oslo'')) ?st = (c', i', n', f')"
    by (metis prod_cases4)
  have "trim ''Europe/Oslo'' = ''Europe/Oslo''" by code_simp
  then show ?thesis
    using timezone_survives_restart[OF _ _ _ _ _ _ _ r, of 1] r by (simp add: two_zones_def utf8_ascii)
qed

end
