(* ===== verification/Drivers.thy ===== *)
theory Drivers
  imports Pins Rust_Str
begin

text \<open>What the \<open>init\<close> functions of the drivers share: fallible calls with their error messages, the \<open>?\<close> operator, thread
  spawning (\<open>spawn_sd_thread\<close> in storage.rs, \<open>spawn_with_priority\<close> in ui_task.rs), and claims of GPIO lines.\<close>

section \<open>Fallible driver calls\<close>

text \<open>
  A driver call is identified by the message its error context reports; \<open>ok\<close> says which calls succeed.
  Where two calls report the same message, the step has a key of its own besides the message.
\<close>

type_synonym driver_step = "string \<times> string"

definition steps :: "string list \<Rightarrow> driver_step list" where
  "steps = map (\<lambda>m. (m, m))"

fun run_steps :: "(string \<Rightarrow> bool) \<Rightarrow> driver_step list \<Rightarrow> string + unit" where
  "run_steps ok [] = Inr ()"
| "run_steps ok ((k, m) # ss) = (if ok k then run_steps ok ss else Inl m)"

text \<open>The \<open>?\<close> operator on a result with the state it leaves.\<close>

definition and_then :: "('e + 'a) \<times> 's \<Rightarrow> ('a \<Rightarrow> 's \<Rightarrow> ('e + 'b) \<times> 's) \<Rightarrow> ('e + 'b) \<times> 's" where
  "and_then r k = (case r of (Inl e, s) \<Rightarrow> (Inl e, s) | (Inr a, s) \<Rightarrow> k a s)"

lemma and_then_simps [simp]:
  "and_then (Inl e, s) k = (Inl e, s)" "and_then (Inr a, s) k = k a s"
  by (simp_all add: and_then_def)

lemma run_steps_append:
  "run_steps ok (ss @ ts) = (case run_steps ok ss of Inl e \<Rightarrow> Inl e | Inr u \<Rightarrow> run_steps ok ts)"
  by (induction ss) auto

lemma run_steps_ok: "run_steps ok ss = Inr () \<longleftrightarrow> (\<forall>s \<in> set ss. ok (fst s))"
  by (induction ss) (auto split: if_splits)

lemma run_steps_error: "run_steps ok ss = Inl e \<Longrightarrow> \<exists>s \<in> set ss. \<not> ok (fst s) \<and> snd s = e"
  by (induction ss) (auto split: if_splits)

text \<open>Spawning a thread with a priority of its own: the spawn configuration is set, the thread spawned, the
  configuration restored; a failed restore is reported even when the thread runs.\<close>

definition spawn_steps :: "string \<Rightarrow> string \<Rightarrow> driver_step list" where
  "spawn_steps name what =
     [(name @ '' config'', ''failed to configure '' @ name @ what),
      (name @ '' restore'', ''failed to restore thread spawn configuration''),
      (name, ''failed to spawn '' @ name)]"

text \<open>Whether the thread runs afterwards.\<close>

definition spawned :: "(string \<Rightarrow> bool) \<Rightarrow> string \<Rightarrow> bool" where
  "spawned ok name \<longleftrightarrow> ok (name @ '' config'') \<and> ok name"

lemma spawn_runs: "run_steps ok (spawn_steps name what) = Inr () \<Longrightarrow> spawned ok name"
  by (simp add: spawn_steps_def spawned_def split: if_splits)

section \<open>Claims of a driver\<close>

definition pin_error_text :: "pin_error \<Rightarrow> string" where
  "pin_error_text e =
     (case e of
        AlreadyInUse pin owner \<Rightarrow> ''GPIO'' @ fmt_int (sint pin) @ '' already allocated by '' @ owner
      | NotAvailable pin \<Rightarrow> ''GPIO'' @ fmt_int (sint pin) @ '' not available on this board'')"

text \<open>The claims at the head of an \<open>init\<close>: lines are taken in order until one is refused; those taken stay.\<close>

fun claim_lines :: "pin list \<Rightarrow> string \<Rightarrow> pin_pool \<Rightarrow> (string + unit) \<times> pin_pool" where
  "claim_lines [] owner pool = (Inr (), pool)"
| "claim_lines (n # ns) owner pool =
     (case take_gpio n owner pool of
        (Inl e, pool) \<Rightarrow> (Inl (pin_error_text e), pool)
      | (Inr _, pool) \<Rightarrow> claim_lines ns owner pool)"

definition release_lines :: "pin list \<Rightarrow> pin_pool \<Rightarrow> pin_pool" where
  "release_lines = fold pool_release"

lemma release_lines_owner:
  assumes "pool_inv pool"
  shows "owner_of q (reg (release_lines ns pool)) = (if q \<in> set ns then None else owner_of q (reg pool))"
  using assms unfolding release_lines_def
  by (induction ns arbitrary: pool) (simp_all add: release_owner release_inv)

lemma release_lines_inv: "pool_inv pool \<Longrightarrow> pool_inv (release_lines ns pool)"
  unfolding release_lines_def by (induction ns arbitrary: pool) (simp_all add: release_inv)

lemma claim_lines_inv: "pool_inv pool \<Longrightarrow> pool_inv (snd (claim_lines ns owner pool))"
proof (induction ns arbitrary: pool)
  case (Cons n ns)
  obtain r p1 where t: "take_gpio n owner pool = (r, p1)" by fastforce
  then have "pool_inv p1" using take_inv[OF Cons.prems, of n owner] by simp
  then show ?case using Cons.IH t by (cases r) auto
qed simp

section \<open>What a boot stage leaves\<close>

text \<open>The pool after some claims: who owns which line, and the tokens left.\<close>

definition holding :: "(pin \<times> string) list \<Rightarrow> pin list \<Rightarrow> pin_pool \<Rightarrow> bool" where
  "holding hs left pool \<longleftrightarrow> pool_inv pool \<and> pool_lines pool = left \<and> (\<forall>q. owner_of q (reg pool) = map_of hs q)"

lemma holding_init: "holding [] board_lines from_board_pins"
  by (simp add: holding_def pool_inv_init) (simp add: from_board_pins_def registry_new_def owner_of_def Let_def)

lemma claim_lines_holding:
  assumes "holding hs left pool" "set ns \<subseteq> set left" "distinct ns" "\<forall>n \<in> set ns. map_of hs n = None"
  obtains p where "claim_lines ns a pool = (Inr (), p)" "holding (rev (map (\<lambda>n. (n, a)) ns) @ hs) (filter (\<lambda>x. x \<notin> set ns) left) p"
  using assms
proof (induction ns arbitrary: hs left pool thesis)
  case (Cons n ns)
  have free: "pool_inv pool" "n \<in> set (pool_lines pool)" "owner_of n (reg pool) = None"
    using Cons.prems(2,3,5) by (auto simp: holding_def)
  obtain p1 where t: "take_gpio n a pool = (Inr n, p1)" "pool_inv p1"
    "\<And>q. owner_of q (reg p1) = (if q = n then Some a else owner_of q (reg pool))"
    "pool_lines p1 = filter (\<lambda>x. x \<noteq> n) (pool_lines pool)"
    using take_ok[OF free] by metis
  have "holding ((n, a) # hs) (filter (\<lambda>x. x \<noteq> n) left) p1"
    using t Cons.prems(2) by (simp add: holding_def)
  moreover have "set ns \<subseteq> set (filter (\<lambda>x. x \<noteq> n) left)" "\<forall>m \<in> set ns. map_of ((n, a) # hs) m = None" "distinct ns"
    using Cons.prems(3-5) by auto
  ultimately obtain p where "claim_lines ns a p1 = (Inr (), p)"
    "holding (rev (map (\<lambda>n. (n, a)) ns) @ (n, a) # hs) (filter (\<lambda>x. x \<notin> set ns) (filter (\<lambda>x. x \<noteq> n) left)) p"
    using Cons.IH by metis
  then show thesis using Cons.prems(1) t(1) by (simp add: conj_commute)
qed simp

text \<open>A stage: its result, and the pool it leaves when it succeeds.\<close>

definition stage :: "('e + 'a) \<times> pin_pool \<Rightarrow> ('e + 'a) \<Rightarrow> (pin \<times> string) list \<Rightarrow> pin list \<Rightarrow> bool" where
  "stage r x hs left \<longleftrightarrow> fst r = x \<and> (isl x \<or> holding hs left (snd r))"

definition and_so :: "'e + 'a \<Rightarrow> ('a \<Rightarrow> 'e + 'b) \<Rightarrow> 'e + 'b" where
  "and_so x k = (case x of Inl e \<Rightarrow> Inl e | Inr a \<Rightarrow> k a)"

lemma and_so_simps [simp]: "and_so (Inl e) k = Inl e" "and_so (Inr a) k = k a"
  by (simp_all add: and_so_def)

lemma and_so_ok: "(\<exists>b. and_so x k = Inr b) \<longleftrightarrow> (\<exists>a. x = Inr a \<and> (\<exists>b. k a = Inr b))"
  by (cases x) simp_all

lemma stage_pure: "holding hs left pool \<Longrightarrow> stage (x, pool) x hs left"
  by (simp add: stage_def)

lemma stage_bind:
  assumes "stage r x hs left" "\<And>a pool. x = Inr a \<Longrightarrow> holding hs left pool \<Longrightarrow> stage (k a pool) (y a) hs' left'"
  shows "stage (and_then r k) (and_so x y) hs' left'"
  using assms by (cases r; cases x) (auto simp: stage_def)

lemma stage_claim:
  assumes "holding hs left pool" "set ns \<subseteq> set left \<and> distinct ns \<and> (\<forall>n \<in> set ns. map_of hs n = None)"
  shows "stage (claim_lines ns a pool) (Inr ()) (rev (map (\<lambda>n. (n, a)) ns) @ hs) (filter (\<lambda>x. x \<notin> set ns) left)"
proof -
  obtain p where "claim_lines ns a pool = (Inr (), p)" "holding (rev (map (\<lambda>n. (n, a)) ns) @ hs) (filter (\<lambda>x. x \<notin> set ns) left) p"
    using claim_lines_holding[OF assms(1)] assms(2) by blast
  then show ?thesis by (simp add: stage_def)
qed

end
