(* ===== verification/Wifi.thy ===== *)
theory Wifi
  imports Drivers
begin

text \<open>The Wi-Fi station (\<open>wifi.rs\<close>): credentials of the build environment, the sequence of the connection, the
  reconnect handler, and the snapshot the Network page shows.\<close>

section \<open>Network snapshot\<close>

record network_snapshot =
  net_ip :: string
  net_gateway :: string
  net_hostname :: string
  net_ssid :: string

text \<open>\<open>env_ssid\<close> is the build-time \<open>WIFI_SSID\<close>, \<open>hostname\<close> the build-time \<open>DEVICE_HOSTNAME\<close>.\<close>

definition non_empty_trimmed :: "string option \<Rightarrow> string option" where
  "non_empty_trimmed env = (case env of None \<Rightarrow> None | Some s \<Rightarrow> if trim s = [] then None else Some (trim s))"

definition compile_time_ssid :: "string option \<Rightarrow> string" where
  "compile_time_ssid env_ssid = (case non_empty_trimmed env_ssid of None \<Rightarrow> ''n/a'' | Some s \<Rightarrow> s)"

definition network_snapshot_default :: "string \<Rightarrow> string option \<Rightarrow> network_snapshot" where
  "network_snapshot_default hostname env_ssid =
     \<lparr>net_ip = ''n/a'', net_gateway = ''n/a'', net_hostname = hostname, net_ssid = compile_time_ssid env_ssid\<rparr>"

text \<open>\<open>lock_free\<close>: \<open>try_lock\<close> succeeds; \<open>ip_info\<close>: the printed address and gateway, if the netif has them.\<close>

definition read_network_snapshot :: "string \<Rightarrow> string option \<Rightarrow> bool \<Rightarrow> (string \<times> string) option \<Rightarrow> network_snapshot" where
  "read_network_snapshot hostname env_ssid lock_free ip_info =
     (let snap = network_snapshot_default hostname env_ssid in
      if \<not> lock_free then snap
      else case ip_info of None \<Rightarrow> snap | Some (ip, gw) \<Rightarrow> snap\<lparr>net_ip := ip, net_gateway := gw\<rparr>)"

section \<open>Credentials and connection\<close>

record wifi_credentials =
  cred_ssid :: string
  cred_pass :: string

definition load_wifi_credentials_from_env :: "string option \<Rightarrow> string option \<Rightarrow> string + wifi_credentials" where
  "load_wifi_credentials_from_env env_ssid env_pass =
     (case (non_empty_trimmed env_ssid, non_empty_trimmed env_pass) of
        (Some ssid, Some pass) \<Rightarrow> Inr \<lparr>cred_ssid = ssid, cred_pass = pass\<rparr>
      | _ \<Rightarrow> Inl ''No Wi-Fi credentials found. Set WIFI_SSID and WIFI_PASS in your shell before flashing.'')"

datatype auth_method = Auth_None | WPA2Personal

datatype wifi_event = StaDisconnected | Other_Event

text \<open>The ESP-IDF client configuration holds 32 bytes of SSID and 64 of password.\<close>

definition station_config :: "wifi_credentials \<Rightarrow> string + string \<times> string \<times> auth_method" where
  "station_config creds =
     (if 32 < length (cred_ssid creds) then Inl ''SSID too long for ESP-IDF client config''
      else if 64 < length (cred_pass creds) then Inl ''password too long for ESP-IDF client config''
      else Inr (cred_ssid creds, cred_pass creds, if cred_pass creds = [] then Auth_None else WPA2Personal))"

text \<open>The driver calls of \<open>connect_wifi_sta\<close>, in order; \<open>ok\<close> says which succeed. The result is the error, or
  the configuration the station joined with.\<close>

definition wifi_create_steps :: "driver_step list" where
  "wifi_create_steps = steps [''failed to create EspWifi'', ''failed to wrap BlockingWifi'']"

definition wifi_join_steps :: "driver_step list" where
  "wifi_join_steps = steps [''failed to set Wi-Fi STA configuration'', ''failed to start Wi-Fi driver'',
     ''failed to disable Wi-Fi power save'', ''failed to connect Wi-Fi STA'', ''Wi-Fi netif did not come up'',
     ''failed to read DHCP IP info'', ''failed to subscribe to Wi-Fi reconnect events'']"

definition connect_wifi_sta :: "(string \<Rightarrow> bool) \<Rightarrow> wifi_credentials \<Rightarrow> string + string \<times> string \<times> auth_method" where
  "connect_wifi_sta ok creds =
     (case run_steps ok wifi_create_steps of
        Inl e \<Rightarrow> Inl e
      | Inr _ \<Rightarrow>
          (case station_config creds of
             Inl e \<Rightarrow> Inl e
           | Inr cfg \<Rightarrow> (case run_steps ok wifi_join_steps of Inl e \<Rightarrow> Inl e | Inr _ \<Rightarrow> Inr cfg)))"

text \<open>The reconnect handler: whether the event makes it ask the driver to connect.\<close>

definition reconnect_handler :: "wifi_event \<Rightarrow> bool" where
  "reconnect_handler event \<longleftrightarrow> event = StaDisconnected"

text \<open>The station never joins an open network: whatever the build environment holds, a connection
  that comes up uses WPA2 with the trimmed, non-empty credentials of the environment, and missing or
  blank credentials stop the boot with an error.\<close>

theorem station_credentials:
  "(\<forall>creds cfg. load_wifi_credentials_from_env env_ssid env_pass = Inr creds \<longrightarrow> connect_wifi_sta ok creds = Inr cfg \<longrightarrow>
      (\<exists>s p. env_ssid = Some s \<and> env_pass = Some p \<and> cfg = (trim s, trim p, WPA2Personal) \<and>
        trim s \<noteq> [] \<and> trim p \<noteq> [] \<and> length (trim s) \<le> 32 \<and> length (trim p) \<le> 64)) \<and>
   (isl (load_wifi_credentials_from_env env_ssid env_pass) \<longleftrightarrow>
      non_empty_trimmed env_ssid = None \<or> non_empty_trimmed env_pass = None)"
  by (auto simp: load_wifi_credentials_from_env_def non_empty_trimmed_def connect_wifi_sta_def station_config_def compile_time_ssid_def
      split: option.splits if_splits sum.splits)

theorem station_credentials_witness:
  "\<exists>cfg. connect_wifi_sta (\<lambda>_. True) \<lparr>cred_ssid = ''lan'', cred_pass = ''secret''\<rparr> = Inr cfg \<and> snd (snd cfg) = WPA2Personal"
proof -
  have t: "trim ''lan'' = ''lan''" "trim ''secret'' = ''secret''" by (code_simp, code_simp)
  have l: "load_wifi_credentials_from_env (Some ''lan'') (Some ''secret'') = Inr \<lparr>cred_ssid = ''lan'', cred_pass = ''secret''\<rparr>"
    by (simp add: load_wifi_credentials_from_env_def non_empty_trimmed_def t)
  obtain cfg where c: "connect_wifi_sta (\<lambda>_. True) \<lparr>cred_ssid = ''lan'', cred_pass = ''secret''\<rparr> = Inr cfg"
    by (simp add: connect_wifi_sta_def station_config_def wifi_create_steps_def wifi_join_steps_def steps_def)
  then show ?thesis
    using station_credentials[of "Some ''lan''" "Some ''secret''" "\<lambda>_. True"] l by (cases cfg) auto
qed

end
