(* ===== verification/Logging.thy ===== *)
theory Logging
  imports Rust_Str
begin

text \<open>Log levels (\<open>logging.rs\<close>): overrides from the build environment and from sdkconfig.defaults.\<close>

section \<open>Levels from the configuration file\<close>

datatype esp_level = ESP_LOG_NONE | ESP_LOG_ERROR | ESP_LOG_WARN | ESP_LOG_INFO | ESP_LOG_DEBUG | ESP_LOG_VERBOSE

definition parse_level :: "string \<Rightarrow> esp_level option" where
  "parse_level value =
     (let v = map to_lower (trim value) in
      if v = ''none'' then Some ESP_LOG_NONE
      else if v = ''error'' then Some ESP_LOG_ERROR
      else if v = ''warn'' \<or> v = ''warning'' then Some ESP_LOG_WARN
      else if v = ''info'' then Some ESP_LOG_INFO
      else if v = ''debug'' then Some ESP_LOG_DEBUG
      else if v = ''trace'' \<or> v = ''verbose'' then Some ESP_LOG_VERBOSE
      else None)"

text \<open>\<open>str::lines\<close>: a final line end opens no further line; a carriage return goes with its line feed.\<close>

fun strip_cr :: "string list \<Rightarrow> string list" where
  "strip_cr [] = []"
| "strip_cr [l] = (if l = [] then [] else [l])"
| "strip_cr (l # ls) = (if l \<noteq> [] \<and> last l = CHR 0x0D then butlast l else l) # strip_cr ls"

definition str_lines :: "string \<Rightarrow> string list" where
  "str_lines s = strip_cr (split_char (CHR 0x0A) s)"

text \<open>\<open>cfg\<close> is the text of sdkconfig.defaults, compiled in.\<close>

fun scan_lines :: "string \<Rightarrow> string list \<Rightarrow> string option" where
  "scan_lines key [] = None"
| "scan_lines key (raw_line # ls) =
     (let line = trim raw_line in
      if line = [] \<or> prefix ''#'' line then scan_lines key ls
      else case split_once CHR ''='' line of
             None \<Rightarrow> scan_lines key ls
           | Some (lhs, rhs) \<Rightarrow> if trim lhs = key then Some (trim_char (CHR 0x22) (trim rhs)) else scan_lines key ls)"

definition level_from_sdkconfig_defaults :: "string \<Rightarrow> string \<Rightarrow> string option" where
  "level_from_sdkconfig_defaults cfg key = scan_lines key (str_lines cfg)"

definition level_from_key :: "string \<Rightarrow> string \<Rightarrow> string option \<Rightarrow> esp_level option" where
  "level_from_key cfg key build_env_value =
     (case (case build_env_value of Some v \<Rightarrow> Some v | None \<Rightarrow> level_from_sdkconfig_defaults cfg key) of
        None \<Rightarrow> None | Some raw \<Rightarrow> parse_level raw)"

definition sdkconfig_flag_enabled :: "string \<Rightarrow> string \<Rightarrow> bool" where
  "sdkconfig_flag_enabled cfg key \<longleftrightarrow> level_from_sdkconfig_defaults cfg key \<in> Some ` {''y'', ''1'', ''true'', ''yes''}"

definition global_default_level :: "string \<Rightarrow> esp_level" where
  "global_default_level cfg =
     (if sdkconfig_flag_enabled cfg ''CONFIG_LOG_DEFAULT_LEVEL_VERBOSE'' then ESP_LOG_VERBOSE
      else if sdkconfig_flag_enabled cfg ''CONFIG_LOG_DEFAULT_LEVEL_DEBUG'' then ESP_LOG_DEBUG
      else if sdkconfig_flag_enabled cfg ''CONFIG_LOG_DEFAULT_LEVEL_INFO'' then ESP_LOG_INFO
      else if sdkconfig_flag_enabled cfg ''CONFIG_LOG_DEFAULT_LEVEL_WARN'' then ESP_LOG_WARN
      else if sdkconfig_flag_enabled cfg ''CONFIG_LOG_DEFAULT_LEVEL_ERROR'' then ESP_LOG_ERROR
      else if sdkconfig_flag_enabled cfg ''CONFIG_LOG_DEFAULT_LEVEL_NONE'' then ESP_LOG_NONE
      else ESP_LOG_INFO)"

text \<open>The call of \<open>esp_log_level_set\<close> an override makes, if any; \<open>env\<close> gives the build-time variables.\<close>

definition set_level_from_key :: "string \<Rightarrow> string \<Rightarrow> string \<Rightarrow> string option \<Rightarrow> (string \<times> esp_level) list" where
  "set_level_from_key cfg tag key build_env_value =
     (case (case build_env_value of Some v \<Rightarrow> Some v | None \<Rightarrow> level_from_sdkconfig_defaults cfg key) of
        None \<Rightarrow> []
      | Some raw \<Rightarrow> (case level_from_key cfg key build_env_value of None \<Rightarrow> [] | Some level \<Rightarrow> [(tag, level)]))"

definition display_boot_test_enabled :: "string \<Rightarrow> (string \<Rightarrow> string option) \<Rightarrow> bool" where
  "display_boot_test_enabled cfg env =
     ((case level_from_key cfg ''LOG_DISPLAY_LEVEL'' (env ''LOG_DISPLAY_LEVEL'') of Some l \<Rightarrow> l | None \<Rightarrow> global_default_level cfg)
      \<in> {ESP_LOG_DEBUG, ESP_LOG_VERBOSE})"

definition override_keys :: "(string \<times> string) list" where
  "override_keys = [(''rust_gps_ntp::wifi'', ''LOG_WIFI_LEVEL''), (''rust_gps_ntp::gps'', ''LOG_GPS_LEVEL''),
     (''rust_gps_ntp::display'', ''LOG_DISPLAY_LEVEL''), (''rust_gps_ntp::battery'', ''LOG_BATTERY_LEVEL''),
     (''rust_gps_ntp::ntp'', ''LOG_NTP_LEVEL''), (''rust_gps_ntp'', ''LOG_PPS_LEVEL'')]"

definition logging_init :: "string \<Rightarrow> (string \<Rightarrow> string option) \<Rightarrow> (string \<times> esp_level) list" where
  "logging_init cfg env = concat (map (\<lambda>(tag, key). set_level_from_key cfg tag key (env key)) override_keys)"

lemma tag_levels:
  "(tag, level) \<in> set (logging_init cfg env) \<longleftrightarrow> (\<exists>key. (tag, key) \<in> set override_keys \<and> level_from_key cfg key (env key) = Some level)"
proof -
  have s: "(tag, level) \<in> set (set_level_from_key cfg t k v) \<longleftrightarrow> t = tag \<and> level_from_key cfg k v = Some level" for t k v
    by (auto simp: set_level_from_key_def level_from_key_def split: option.split)
  show ?thesis by (force simp: logging_init_def s)
qed

lemma init_tags_distinct: "distinct (map fst (logging_init cfg env))"
proof -
  have c: "set_level_from_key cfg tag key v = [] \<or> (\<exists>l. set_level_from_key cfg tag key v = [(tag, l)])" for tag key v
    by (auto simp: set_level_from_key_def split: option.split)
  show ?thesis
    unfolding logging_init_def override_keys_def
    using c[of "''rust_gps_ntp::wifi''" "''LOG_WIFI_LEVEL''" "env ''LOG_WIFI_LEVEL''"]
      c[of "''rust_gps_ntp::gps''" "''LOG_GPS_LEVEL''" "env ''LOG_GPS_LEVEL''"]
      c[of "''rust_gps_ntp::display''" "''LOG_DISPLAY_LEVEL''" "env ''LOG_DISPLAY_LEVEL''"]
      c[of "''rust_gps_ntp::battery''" "''LOG_BATTERY_LEVEL''" "env ''LOG_BATTERY_LEVEL''"]
      c[of "''rust_gps_ntp::ntp''" "''LOG_NTP_LEVEL''" "env ''LOG_NTP_LEVEL''"]
      c[of "''rust_gps_ntp''" "''LOG_PPS_LEVEL''" "env ''LOG_PPS_LEVEL''"]
    by (elim disjE exE) simp_all
qed

text \<open>The log level of a module is the configured one: the boot sets the level of a tag exactly when
  its key has a valid value, the build environment wins over the file (also when its value is invalid,
  which then sets nothing), and no tag is set twice.\<close>

theorem log_levels_configured:
  "((tag, level) \<in> set (logging_init cfg env) \<longleftrightarrow>
     (\<exists>key. (tag, key) \<in> set override_keys \<and>
        (case env key of Some v \<Rightarrow> parse_level v = Some level
         | None \<Rightarrow> (\<exists>v. level_from_sdkconfig_defaults cfg key = Some v \<and> parse_level v = Some level)))) \<and>
   distinct (map fst (logging_init cfg env))"
proof
  have "level_from_key cfg key (env key) = Some level \<longleftrightarrow> (case env key of Some v \<Rightarrow> parse_level v = Some level
         | None \<Rightarrow> (\<exists>v. level_from_sdkconfig_defaults cfg key = Some v \<and> parse_level v = Some level))" for key
    by (auto simp: level_from_key_def split: option.split)
  then show "(tag, level) \<in> set (logging_init cfg env) \<longleftrightarrow>
     (\<exists>key. (tag, key) \<in> set override_keys \<and>
        (case env key of Some v \<Rightarrow> parse_level v = Some level
         | None \<Rightarrow> (\<exists>v. level_from_sdkconfig_defaults cfg key = Some v \<and> parse_level v = Some level)))"
    by (simp add: tag_levels)
  show "distinct (map fst (logging_init cfg env))" by (rule init_tags_distinct)
qed

text \<open>Comments, blank and malformed lines never hide a later key.\<close>

lemma scan_skips:
  assumes "\<forall>l \<in> set ls. trim l = [] \<or> prefix ''#'' (trim l) \<or> split_once CHR ''='' (trim l) = None
      \<or> (\<exists>k v. split_once CHR ''='' (trim l) = Some (k, v) \<and> trim k \<noteq> key)"
  shows "scan_lines key (ls @ ms) = scan_lines key ms"
  using assms by (induction ls) (auto simp: Let_def)

end
