(* ===== verification/Panel.thy ===== *)
theory Panel
  imports Timezone Rtc Battery Storage Discipline Pins Wifi
begin

text \<open>The panel (\<open>display.rs\<close>): the six pages and their order, the viewport that clips and shifts drawing,
  and the number formats of the labels.\<close>

section \<open>Pages\<close>

datatype page = Time_Page | Location_Page | Resources_Page | Battery_Page | Ntp_Page | Network_Page

fun next_page :: "page \<Rightarrow> page" where
  "next_page Time_Page = Location_Page"
| "next_page Location_Page = Resources_Page"
| "next_page Resources_Page = Battery_Page"
| "next_page Battery_Page = Ntp_Page"
| "next_page Ntp_Page = Network_Page"
| "next_page Network_Page = Time_Page"

fun page_index :: "page \<Rightarrow> u8" where
  "page_index Time_Page = 0"
| "page_index Location_Page = 1"
| "page_index Resources_Page = 2"
| "page_index Battery_Page = 3"
| "page_index Ntp_Page = 4"
| "page_index Network_Page = 5"

definition page_from_index :: "u8 \<Rightarrow> page" where
  "page_from_index index =
     (let i = index mod 6 in
      if i = 0 then Time_Page else if i = 1 then Location_Page else if i = 2 then Resources_Page
      else if i = 3 then Battery_Page else if i = 4 then Ntp_Page else Network_Page)"

lemma page_of_index [simp]: "page_from_index (page_index p) = p"
  by (cases p) (simp_all add: page_from_index_def)

lemma next_six: "(next_page ^^ 6) p = p"
  by (cases p) (simp_all add: eval_nat_numeral)

lemma next_cycle: "(next_page ^^ n) p = (next_page ^^ (n mod 6)) p"
proof -
  have k: "(next_page ^^ (6 * k)) q = q" for k q
    by (induction k) (simp_all only: mult_Suc_right funpow_add comp_apply next_six, simp)
  have "(next_page ^^ n) p = (next_page ^^ (6 * (n div 6))) ((next_page ^^ (n mod 6)) p)"
    by (metis comp_apply funpow_add mult_div_mod_eq)
  with k show ?thesis by simp
qed

section \<open>The viewport\<close>

definition DISPLAY_X_OFFSET :: int where "DISPLAY_X_OFFSET = 40"
definition DISPLAY_Y_OFFSET :: int where "DISPLAY_Y_OFFSET = 52"
definition DISPLAY_WIDTH :: int where "DISPLAY_WIDTH = 240"
definition DISPLAY_HEIGHT :: int where "DISPLAY_HEIGHT = 135"

text \<open>A pixel is a point and a colour.\<close>

type_synonym 'c pixel = "(int \<times> int) \<times> 'c"

record viewport =
  x_off :: int
  y_off :: int
  vwidth :: int
  vheight :: int

definition panel_viewport :: viewport where
  "panel_viewport = \<lparr>x_off = DISPLAY_X_OFFSET, y_off = DISPLAY_Y_OFFSET, vwidth = DISPLAY_WIDTH, vheight = DISPLAY_HEIGHT\<rparr>"

text \<open>\<open>draw_iter\<close> and \<open>clear\<close>: the pixels handed to the panel driver.\<close>

definition map_pixel :: "viewport \<Rightarrow> 'c pixel \<Rightarrow> 'c pixel option" where
  "map_pixel v p = (case p of ((x, y), c) \<Rightarrow>
     if x < 0 \<or> y < 0 \<or> vwidth v \<le> x \<or> vheight v \<le> y then None else Some ((x + x_off v, y + y_off v), c))"

definition draw_iter :: "viewport \<Rightarrow> 'c pixel list \<Rightarrow> 'c pixel list" where
  "draw_iter v pixels = List.map_filter (map_pixel v) pixels"

definition clear_viewport :: "viewport \<Rightarrow> 'c \<Rightarrow> 'c pixel list" where
  "clear_viewport v color = concat (map (\<lambda>y. map (\<lambda>x. ((x + x_off v, y + y_off v), color)) [0..vwidth v - 1]) [0..vheight v - 1])"

definition on_panel :: "(int \<times> int) set" where
  "on_panel = {(x, y). 40 \<le> x \<and> x < 280 \<and> 52 \<le> y \<and> y < 187}"

lemma draw_iter_set: "set (draw_iter v ps) = {q. \<exists>p \<in> set ps. map_pixel v p = Some q}"
  by (induction ps) (auto simp: draw_iter_def List.map_filter_simps split: option.splits)

lemma clear_pixels: "set (clear_viewport panel_viewport c) = on_panel \<times> {c}"
proof -
  have "((x, y), c) \<in> set (clear_viewport panel_viewport c) \<longleftrightarrow> (\<exists>b \<in> {0..134}. \<exists>a \<in> {0..239}. x = a + 40 \<and> y = b + 52)" for x y
    by (auto simp: clear_viewport_def panel_viewport_def DISPLAY_WIDTH_def DISPLAY_HEIGHT_def DISPLAY_X_OFFSET_def
        DISPLAY_Y_OFFSET_def)
  moreover have "(\<exists>a \<in> {0..239}. x = a + 40) \<longleftrightarrow> 40 \<le> x \<and> x < 280" for x :: int
    by (auto intro!: bexI[of _ "x - 40"])
  moreover have "(\<exists>b \<in> {0..134}. y = b + 52) \<longleftrightarrow> 52 \<le> y \<and> y < 187" for y :: int
    by (auto intro!: bexI[of _ "y - 52"])
  ultimately have m: "((x, y), c) \<in> set (clear_viewport panel_viewport c) \<longleftrightarrow> (x, y) \<in> on_panel" for x y
    by (simp add: on_panel_def)
  have c: "d = c" if "(q, d) \<in> set (clear_viewport panel_viewport c)" for q d
    using that by (auto simp: clear_viewport_def)
  show ?thesis
  proof (rule set_eqI)
    fix q
    show "q \<in> set (clear_viewport panel_viewport c) \<longleftrightarrow> q \<in> on_panel \<times> {c}"
      using m c[of "fst q" "snd q"] by (cases q) auto
  qed
qed

text \<open>Drawing stays in the visible window: whatever pixels a page draws, those that reach the panel
  lie in the 240 by 135 window at (40, 52) and are exactly the logical pixels inside it, shifted; and
  clearing writes exactly the window, each pixel once, in the given colour.\<close>

theorem drawing_clipped:
  "fst ` set (draw_iter panel_viewport ps) \<subseteq> on_panel \<and>
   (\<forall>x y c. ((x, y), c) \<in> set (draw_iter panel_viewport ps) \<longleftrightarrow> ((x - 40, y - 52), c) \<in> set ps \<and> (x, y) \<in> on_panel) \<and>
   set (clear_viewport panel_viewport c) = on_panel \<times> {c} \<and> length (clear_viewport panel_viewport c) = 240 * 135"
proof -
  have m: "((x, y), c) \<in> set (draw_iter panel_viewport ps) \<longleftrightarrow> ((x - 40, y - 52), c) \<in> set ps \<and> (x, y) \<in> on_panel" for x y c
  proof
    assume "((x, y), c) \<in> set (draw_iter panel_viewport ps)"
    then show "((x - 40, y - 52), c) \<in> set ps \<and> (x, y) \<in> on_panel"
      by (auto simp: draw_iter_set map_pixel_def panel_viewport_def on_panel_def DISPLAY_WIDTH_def DISPLAY_HEIGHT_def
          DISPLAY_X_OFFSET_def DISPLAY_Y_OFFSET_def split: if_splits)
  next
    assume "((x - 40, y - 52), c) \<in> set ps \<and> (x, y) \<in> on_panel"
    then show "((x, y), c) \<in> set (draw_iter panel_viewport ps)"
      unfolding draw_iter_set mem_Collect_eq
      by (intro bexI[of _ "((x - 40, y - 52), c)"]) (auto simp: map_pixel_def panel_viewport_def on_panel_def DISPLAY_WIDTH_def
          DISPLAY_HEIGHT_def DISPLAY_X_OFFSET_def DISPLAY_Y_OFFSET_def)
  qed
  have "length (clear_viewport panel_viewport c) = 240 * 135"
    by (simp add: clear_viewport_def panel_viewport_def DISPLAY_WIDTH_def DISPLAY_HEIGHT_def length_concat o_def sum_list_triv)
  then show ?thesis using m clear_pixels by fastforce
qed

section \<open>Text\<close>

text \<open>\<open>format_human_bytes\<close>: the loop divides until the value is below 1024 or the last unit is reached.\<close>

fun human_scale :: "nat \<Rightarrow> fp \<Rightarrow> nat \<Rightarrow> fp \<times> nat" where
  "human_scale 0 value unit_idx = (value, unit_idx)"
| "human_scale (Suc units_left) value unit_idx =
     (if fle (flit F64 1024) value then human_scale units_left (fdiv F64 value (flit F64 1024)) (unit_idx + 1)
      else (value, unit_idx))"

definition format_human_bytes :: "u64 \<Rightarrow> string" where
  "format_human_bytes bytes =
     (case human_scale 4 (fint F64 (uint bytes)) 0 of (value, unit_idx) \<Rightarrow>
        if unit_idx = 0 then dec_digits (unat bytes) @ ''B''
        else fmt_fixed 1 value @ [''BKMGT'' ! unit_idx])"

text \<open>The loops that strip trailing zeros after the point, then the point.\<close>

definition strip_zeros :: "string \<Rightarrow> string" where
  "strip_zeros s = (let t = (if CHR ''.'' \<in> set s then trim_end_char (CHR ''0'') s else s)
     in if t \<noteq> [] \<and> last t = CHR ''.'' then butlast t else t)"

definition fmt_plus :: "int \<Rightarrow> string" where
  "fmt_plus i = (if i < 0 then fmt_int i else CHR ''+'' # fmt_int i)"

definition format_signed_offset_us :: "i64 \<Rightarrow> string" where
  "format_signed_offset_us offset_us =
     (if \<bar>offset_us\<bar> < 1000 then fmt_plus offset_us @ ''us''
      else strip_zeros (fmt_fixed_plus 3 (fdiv F64 (fint F64 offset_us) (flit F64 1000))) @ ''ms'')"

definition format_unsigned_us :: "u32 \<Rightarrow> string" where
  "format_unsigned_us value_us =
     (if value_us < 1000 then dec_digits (unat value_us) @ ''us''
      else strip_zeros (fmt_fixed 3 (fdiv F64 (fint F64 (uint value_us)) (flit F64 1000))) @ ''ms'')"

definition pps_offset_label :: "u32 \<Rightarrow> string" where
  "pps_offset_label pps_delta_us =
     (if pps_delta_us = 0 then ''PPS: n/a''
      else ''PPS: '' @ format_signed_offset_us (uint pps_delta_us - 1000000))"


lemma rne_near: "\<bar>y - of_int m\<bar> < 1 / 2 \<Longrightarrow> rne y = m"
proof -
  assume "\<bar>y - of_int m\<bar> < 1 / 2"
  then have "\<bar>of_int (rne y) - of_int m :: rat\<bar> < 1" using rne_error[of y] by linarith
  then have "\<bar>rne y - m\<bar> < 1" by (metis of_int_1_less_iff of_int_abs of_int_diff of_int_less_1_iff)
  then show ?thesis by simp
qed

lemma ms_value:
  assumes "1000 \<le> \<bar>n\<bar>" "\<bar>n\<bar> \<le> 2 ^ 33"
  obtains q where "fdiv F64 (fint F64 n) (flit F64 1000) = Num q" "q < 0 \<longleftrightarrow> n < 0" "rne (\<bar>q\<bar> * 1000) = \<bar>n\<bar>"
proof -
  let ?x = "of_int n / 1000 :: rat"
  have n: "fint F64 n = Num (of_int n)" "flit F64 1000 = Num 1000"
    using assms(2) by (auto intro: fint64 simp: lit64_numeral)
  have b: "\<bar>?x\<bar> \<le> of_int (2 ^ 33)" "1 \<le> \<bar>?x\<bar>"
  proof -
    have r: "\<bar>of_int n :: rat\<bar> \<le> of_int (2 ^ 33)" "(1000 :: rat) \<le> \<bar>of_int n\<bar>"
      using assms by (metis of_int_abs of_int_le_iff, metis of_int_abs of_int_le_iff of_int_numeral)
    then show "\<bar>?x\<bar> \<le> of_int (2 ^ 33)" "1 \<le> \<bar>?x\<bar>" by (simp_all add: abs_divide)
  qed
  have f: "is_fin (fdiv F64 (fint F64 n) (flit F64 1000)) \<and> fval (fdiv F64 (fint F64 n) (flit F64 1000)) = rnd F64 ?x"
    using fin_div[of "Num (of_int n)" "Num 1000" F64] bounded64(2)[OF b(1)] n by simp
  let ?r = "rnd F64 ?x"
  have e: "\<bar>?r - ?x\<bar> \<le> \<bar>?x\<bar> * 2 powi (- 53)" using r64.rel_error[OF b(2)] by simp
  have s: "\<bar>?x\<bar> * 2 powi (- 53) \<le> 1 / 2 ^ 20"
    using b(1) by (simp add: power_int_minus field_simps)
  have "\<bar>?r - ?x\<bar> \<le> 1 / 2 ^ 20" using e s by linarith
  then have d: "\<bar>?r - ?x\<bar> * 1000 < 1 / 2" by simp
  have sg: "?r < 0 \<longleftrightarrow> ?x < 0" "?r \<noteq> 0" "\<bar>\<bar>?r\<bar> - \<bar>?x\<bar>\<bar> = \<bar>?r - ?x\<bar>"
    using d b(2) by (auto simp: abs_if split: if_splits)
  obtain q where q: "fdiv F64 (fint F64 n) (flit F64 1000) = Num q" "q = ?r"
    using f sg(2) by (auto elim!: is_finE)
  have "\<bar>\<bar>q\<bar> * 1000 - of_int \<bar>n\<bar>\<bar> = \<bar>\<bar>?r\<bar> - \<bar>?x\<bar>\<bar> * 1000"
    by (simp add: q(2) abs_divide field_simps flip: abs_mult_pos)
  then have "rne (\<bar>q\<bar> * 1000) = \<bar>n\<bar>" using d sg(3) by (intro rne_near) simp
  with that[OF q(1)] sg(1) q(2) show thesis by simp
qed

text \<open>The same text computed with integers: whole milliseconds, three decimals without trailing zeros.\<close>

definition exact_ms :: "nat \<Rightarrow> string" where
  "exact_ms m = dec_digits (m div 1000) @ CHR ''.'' # zero_pad 3 (dec_digits (m mod 1000))"

lemma magnitude_ms: "rne (r * 1000) = int m \<Longrightarrow> fmt_magnitude 3 r = exact_ms m"
  by (simp add: fmt_magnitude_def exact_ms_def Let_def)

lemma signed_label:
  assumes "1000 \<le> \<bar>n\<bar>" "\<bar>n\<bar> \<le> 2 ^ 33"
  shows "format_signed_offset_us n = strip_zeros ((if n < 0 then CHR ''-'' else CHR ''+'') # exact_ms (nat \<bar>n\<bar>)) @ ''ms''"
proof -
  obtain q where q: "fdiv F64 (fint F64 n) (flit F64 1000) = Num q" "q < 0 \<longleftrightarrow> n < 0" "rne (\<bar>q\<bar> * 1000) = \<bar>n\<bar>"
    using ms_value[OF assms] by metis
  have "fmt_fixed_plus 3 (Num q) = (if n < 0 then CHR ''-'' else CHR ''+'') # exact_ms (nat \<bar>n\<bar>)"
    using q(2,3) magnitude_ms[of "\<bar>q\<bar>" "nat \<bar>n\<bar>"] by (auto simp: fmt_fixed_plus_def fmt_fixed_def)
  with assms(1) q(1) show ?thesis by (simp add: format_signed_offset_us_def)
qed

lemma unsigned_label:
  assumes "1000 \<le> v"
  shows "format_unsigned_us v = strip_zeros (exact_ms (unat v)) @ ''ms''"
proof -
  have v: "1000 \<le> \<bar>uint v\<bar>" "\<bar>uint v\<bar> \<le> 2 ^ 33"
    using assms unsigned_less[of v, where ?'a = int] by (auto simp: word_le_def)
  obtain q where q: "fdiv F64 (fint F64 (uint v)) (flit F64 1000) = Num q" "q < 0 \<longleftrightarrow> uint v < 0" "rne (\<bar>q\<bar> * 1000) = \<bar>uint v\<bar>"
    using ms_value[OF v] by metis
  have "fmt_fixed 3 (Num q) = exact_ms (unat v)"
    using q(2,3) magnitude_ms[of "\<bar>q\<bar>" "unat v"] by (auto simp: fmt_fixed_def)
  with assms q(1) show ?thesis by (simp add: format_unsigned_us_def not_less)
qed

end
