(* ===== verification/Display.thy ===== *)
theory Display
  imports Panel
begin

text \<open>What each page shows (\<open>draw_page\<close> in display.rs), and the GPIO lines of the display.\<close>

text \<open>The PPS, jitter and delay labels are exact: although they are computed in floating point, from
  1000 us on the printed milliseconds are the integer quotient and remainder, with trailing zeros
  removed, for every pulse interval and every 32-bit duration; below that the integer is printed, with
  its sign for an offset.\<close>

theorem labels_exact:
  "format_unsigned_us v = (if v < 1000 then dec_digits (unat v) @ ''us'' else strip_zeros (exact_ms (unat v)) @ ''ms'') \<and>
   pps_offset_label d = (if d = 0 then ''PPS: n/a''
     else let n = uint d - 1000000 in ''PPS: '' @
       (if \<bar>n\<bar> < 1000 then (if n < 0 then CHR ''-'' else CHR ''+'') # dec_digits (nat \<bar>n\<bar>) @ ''us''
        else strip_zeros ((if n < 0 then CHR ''-'' else CHR ''+'') # exact_ms (nat \<bar>n\<bar>)) @ ''ms''))"
proof
  show "format_unsigned_us v = (if v < 1000 then dec_digits (unat v) @ ''us'' else strip_zeros (exact_ms (unat v)) @ ''ms'')"
    using unsigned_label[of v] by (cases "v < 1000") (simp_all add: format_unsigned_us_def not_less)
  have "uint d < 4294967296" using unsigned_less[of d, where ?'a = int] by simp
  then have "\<bar>uint d - 1000000\<bar> \<le> 8589934592" using uint_ge_0[of d] by linarith
  then have b: "\<bar>uint d - 1000000\<bar> \<le> 2 ^ 33" by simp
  then show "pps_offset_label d = (if d = 0 then ''PPS: n/a''
     else let n = uint d - 1000000 in ''PPS: '' @
       (if \<bar>n\<bar> < 1000 then (if n < 0 then CHR ''-'' else CHR ''+'') # dec_digits (nat \<bar>n\<bar>) @ ''us''
        else strip_zeros ((if n < 0 then CHR ''-'' else CHR ''+'') # exact_ms (nat \<bar>n\<bar>)) @ ''ms''))"
    using signed_label[OF _ b]
    by (cases "\<bar>uint d - 1000000\<bar> < 1000")
      (auto simp: pps_offset_label_def Let_def format_signed_offset_us_def fmt_plus_def fmt_int_def)
qed

section \<open>What a page shows\<close>

definition gps_use_rtc_fallback :: "gps_snapshot \<Rightarrow> bool" where
  "gps_use_rtc_fallback gps \<longleftrightarrow> \<not> gps_fix gps \<or> sats gps = 0"

text \<open>Local date and time of a UTC instant for the panel: in the zone in force, else at the larger of the
  two offsets; the outer \<open>None\<close> is the overflow panic of the date library.\<close>

definition rtc_text ::
    "chrono \<Rightarrow> 'tz tz_lib \<Rightarrow> 'tz tz_config \<Rightarrow> int \<Rightarrow> int \<Rightarrow> (string \<times> string) option option" where
  "rtc_text C L cfg tz_hours utc =
     (case local_from_utc_unix C L cfg utc of
        Some (date, time) \<Rightarrow> Some (Some (time, date))
      | None \<Rightarrow>
          (let offset = max (tz_offset_hours_at_unix C L cfg utc) tz_hours in
           map_option (map_option (\<lambda>(date, time). (time, date))) (local_date_time_from_utc C utc offset)))"

definition display_time_source ::
    "chrono \<Rightarrow> 'tz tz_lib \<Rightarrow> 'tz tz_config \<Rightarrow> gps_snapshot \<Rightarrow> rtc_snapshot \<Rightarrow> (string \<times> string \<times> bool) option" where
  "display_time_source C L cfg gps rtc =
     (if gps_use_rtc_fallback gps then
        (case rtc_utc rtc of
           None \<Rightarrow> Some (''n/a'', ''n/a'', True)
         | Some utc \<Rightarrow>
             (case rtc_text C L cfg (tz_offset_hours gps) utc of
                None \<Rightarrow> None
              | Some (Some (time, date)) \<Rightarrow> Some (time, date, True)
              | Some None \<Rightarrow> Some (''n/a'', ''n/a'', True)))
      else Some (local_time gps, local_date gps, False))"

definition rtc_local_strings ::
    "chrono \<Rightarrow> 'tz tz_lib \<Rightarrow> 'tz tz_config \<Rightarrow> rtc_snapshot \<Rightarrow> int \<Rightarrow> (string \<times> string) option" where
  "rtc_local_strings C L cfg rtc tz_hours =
     (if \<not> detected rtc then Some (''n/a'', ''n/a'')
      else case rtc_utc rtc of
             None \<Rightarrow> Some (''n/a'', ''n/a'')
           | Some utc \<Rightarrow> (case rtc_text C L cfg tz_hours utc of
               None \<Rightarrow> None
             | Some (Some td) \<Rightarrow> Some td
             | Some None \<Rightarrow> Some (''n/a'', ''n/a'')))"

text \<open>The readings a page needs beside the feed: heap sizes, and the size of the running partition.\<close>

record board_readings =
  free_heap :: u32
  min_heap :: u32
  app_partition :: "u32 option"

record page_data =
  pd_gps :: gps_snapshot
  pd_battery :: battery_snapshot
  pd_pps_delta_us :: u32
  pd_ntp :: ntp_snapshot
  pd_storage :: storage_status
  pd_rtc :: rtc_snapshot
  pd_network :: network_snapshot
  pd_board :: board_readings

fun state_str :: "discipline_state \<Rightarrow> string" where
  "state_str Locked = ''LOCKED''" | "state_str Holdover = ''HOLDOVER''" | "state_str Unsync = ''UNSYNC''"

text \<open>The \<open>as u32\<close> cast of a float saturates.\<close>

definition as_u32 :: "fp \<Rightarrow> u32" where
  "as_u32 x = of_int (fcast 0 (2 ^ 32 - 1) x)"

definition page_lines :: "chrono \<Rightarrow> 'tz tz_lib \<Rightarrow> 'tz tz_config \<Rightarrow> page_data \<Rightarrow> page \<Rightarrow> string list option" where
  "page_lines C L cfg d p =
     (let gps = pd_gps d; storage = pd_storage d; ntp = pd_ntp d; network = pd_network d in
      case p of
        Time_Page \<Rightarrow>
          map_option (\<lambda>(time, date, rtc_fallback).
            [''Page 1/6  TIME''] @ (if rtc_fallback then [''RTC fallback''] else []) @
            [''Time:  '' @ time, ''Date:  '' @ date, ''TZ:    '' @ fmt_plus (tz_offset_hours gps) @ ''h'',
             pps_offset_label (pd_pps_delta_us d)]) (display_time_source C L cfg gps (pd_rtc d))
      | Location_Page \<Rightarrow>
          if gps_use_rtc_fallback gps then
            map_option (\<lambda>(time, date, _). [''Page 2/6  LOCATION'', ''RTC fallback'', ''Time:  '' @ time, ''Date:  '' @ date])
              (display_time_source C L cfg gps (pd_rtc d))
          else Some [''Page 2/6  LOCATION'', ''Lat: '' @ fmt_fixed 6 (lat gps), ''Lon: '' @ fmt_fixed 6 (lon gps),
             (case altitude_m gps of Some alt \<Rightarrow> ''Alt: '' @ fmt_fixed 1 alt @ '' m'' | None \<Rightarrow> ''Alt: n/a''),
             ''Sats: '' @ dec_digits (sats gps)]
      | Resources_Page \<Rightarrow>
          Some ([''Page 3/6  RESOURCES''] @
            (if mounted storage
             then [''SD free: '' @ format_human_bytes (free_bytes storage), ''SD total: '' @ format_human_bytes (total_bytes storage)]
             else [''SD: not mounted'', ''App part: '' @ format_human_bytes
               (case app_partition (pd_board d) of None \<Rightarrow> 0 | Some n \<Rightarrow> ucast n)]) @
            [''Heap free: '' @ format_human_bytes (ucast (free_heap (pd_board d))),
             ''Heap min: '' @ format_human_bytes (ucast (min_heap (pd_board d)))])
      | Battery_Page \<Rightarrow>
          map_option (\<lambda>(rtc_time, rtc_date).
            [''Page 4/6  BATT & RTC'', ''Voltage: '' @ fmt_fixed 3 (voltage_v (pd_battery d)) @ '' V'',
             ''Charge:  '' @ fmt_fixed 1 (percent (pd_battery d)) @ '' %'', ''Time:  '' @ rtc_time, ''Date:  '' @ rtc_date])
            (rtc_local_strings C L cfg (pd_rtc d) (tz_offset_hours gps))
      | Ntp_Page \<Rightarrow>
          Some [''Page 5/6  NTP'', ''Str:'' @ dec_digits (unat (ns_stratum ntp)) @ '' '' @ state_str (ns_state ntp),
            ''Freq:'' @ fmt_fixed_plus 3 (ns_freq_ppm ntp) @ '' ppm'',
            ''Jit:'' @ format_unsigned_us (as_u32 (fround (ns_pps_jitter_us ntp))) @ ''  disp:'' @ fmt_fixed 1 (ns_root_disp_ms ntp) @ ''ms'',
            ''Proc:'' @ (if ns_proc_delay_has_sample ntp
                then format_unsigned_us (as_u32 (fmax (fround (ns_proc_delay_us ntp)) (flit F32 1))) else ''n/a'')
              @ ''  srv:'' @ dec_digits (unat (ns_served ntp)) @ '' ko:'' @ dec_digits (unat (ns_rate_limited ntp))]
      | Network_Page \<Rightarrow>
          Some [''Page 6/6  NETWORK'', ''IP:  '' @ net_ip network, ''GW:  '' @ net_gateway network,
            ''Host: '' @ net_hostname network, ''SSID: '' @ net_ssid network])"

text \<open>\<open>draw_page\<close>: the texts drawn after clearing, each with its baseline.\<close>

fun place_lines :: "int \<Rightarrow> string list \<Rightarrow> (string \<times> int) list" where
  "place_lines y [] = []"
| "place_lines y (l # ls) = (l, y) # place_lines (y + 21) ls"

definition draw_page :: "chrono \<Rightarrow> 'tz tz_lib \<Rightarrow> 'tz tz_config \<Rightarrow> page_data \<Rightarrow> page \<Rightarrow> (string \<times> int) list option" where
  "draw_page C L cfg d p = map_option (place_lines 20) (page_lines C L cfg d p)"

lemma place_bounds: "(t, b) \<in> set (place_lines y ls) \<Longrightarrow> y \<le> b \<and> b \<le> y + 21 * (int (length ls) - 1)"
proof (induction y ls rule: place_lines.induct)
  case (2 y l ls)
  then show ?case by (cases "(t, b) = (l, y)") auto
qed simp

lemma length_place [simp]: "length (place_lines y ls) = length ls"
  by (induction y ls rule: place_lines.induct) auto

lemma place_texts [simp]: "map fst (place_lines y ls) = ls"
  by (induction y ls rule: place_lines.induct) auto

lemma page_line_count: "page_lines C L cfg d p = Some ls \<Longrightarrow> 4 \<le> length ls \<and> length ls \<le> 6"
  by (cases p) (auto simp: page_lines_def Let_def split: if_splits option.splits)

lemma page_title:
  assumes "draw_page C L cfg d p = Some placed"
  shows "take 7 (fst (hd placed)) = ''Page '' @ dec_digits (Suc (unat (page_index p))) @ ''/''"
proof -
  obtain ls where ls: "page_lines C L cfg d p = Some ls" "placed = place_lines 20 ls"
    using assms by (auto simp: draw_page_def)
  have h: "fst (hd placed) = hd ls" using page_line_count[OF ls(1)] by (cases ls) (auto simp: ls(2))
  have dd: "dec_digits k = [dec_char k]" if "k < 10" for k using that by (simp add: dec_digits.simps)
  have dc: "dec_char 1 = CHR ''1''" "dec_char 2 = CHR ''2''" "dec_char 3 = CHR ''3''" "dec_char 4 = CHR ''4''"
    "dec_char 5 = CHR ''5''" "dec_char 6 = CHR ''6''" "dec_char (Suc (Suc 0)) = CHR ''2''" by code_simp+
  have "take 7 (hd ls) = ''Page '' @ dec_digits (Suc (unat (page_index p))) @ ''/''"
    using ls(1) by (cases p) (auto simp: page_lines_def Let_def dd dc dc(1)[simplified] split: if_splits option.splits)
  then show ?thesis by (simp add: h)
qed

text \<open>Every page fits the screen: it starts with its own title, has at most six lines, and their
  baselines lie between 20 and 125 of the 135 rows, 21 apart; and the button visits all six pages before
  it shows one again.\<close>

theorem pages_fit:
  assumes "draw_page C L cfg d p = Some placed"
  shows "length placed \<le> 6 \<and> (\<forall>(t, y) \<in> set placed. 20 \<le> y \<and> y \<le> 125) \<and>
    take 7 (fst (hd placed)) = ''Page '' @ dec_digits (Suc (unat (page_index p))) @ ''/'' \<and>
    distinct (map (\<lambda>n. (next_page ^^ n) p) [0..<6]) \<and> (next_page ^^ 6) p = p"
proof -
  obtain ls where ls: "page_lines C L cfg d p = Some ls" "placed = place_lines 20 ls"
    using assms by (auto simp: draw_page_def)
  have n: "4 \<le> length ls" "length ls \<le> 6" using page_line_count[OF ls(1)] by auto
  have y: "20 \<le> y \<and> y \<le> 125" if "(t, y) \<in> set placed" for t y
    using place_bounds[of t y 20 ls] that n(2) by (auto simp: ls(2))
  have "distinct (map (\<lambda>n. (next_page ^^ n) p) [0..<6])"
    by (cases p) (simp_all add: upt_rec eval_nat_numeral)
  then show ?thesis using n(2) y page_title[OF assms] next_six by (auto simp: ls(2))
qed

definition sample_page :: page_data where
  "sample_page = \<lparr>pd_gps = gps_snapshot_default, pd_battery = \<lparr>voltage_v = Num 4, percent = Num 90\<rparr>, pd_pps_delta_us = 1000003,
     pd_ntp = ntp_snapshot_default, pd_storage = storage_status_default, pd_rtc = \<lparr>detected = False, rtc_utc = None\<rparr>,
     pd_network = network_snapshot_default ''gps-ntp'' None, pd_board = \<lparr>free_heap = 0, min_heap = 0, app_partition = None\<rparr>\<rparr>"

theorem pages_fit_witness:
  "\<exists>placed. draw_page gregorian no_tz utc_config sample_page Network_Page = Some placed \<and> length placed \<le> 6 \<and>
     (\<forall>(t, y) \<in> set placed. 20 \<le> y \<and> y \<le> 125)"
proof -
  obtain placed where "draw_page gregorian no_tz utc_config sample_page Network_Page = Some placed"
    by (simp add: draw_page_def page_lines_def Let_def)
  with pages_fit[OF this] show ?thesis by blast
qed

text \<open>With no zone in force, a western offset of the receiver is not applied to the RTC fallback.\<close>

theorem western_offset_lost:
  "rtc_text gregorian no_tz \<lparr>runtime_tz = None, local_tz_env = None\<rparr> (- 5) 1752278400 =
   rtc_text gregorian no_tz \<lparr>runtime_tz = None, local_tz_env = None\<rparr> 0 1752278400"
  "rtc_text gregorian no_tz \<lparr>runtime_tz = None, local_tz_env = None\<rparr> 5 1752278400 \<noteq>
   rtc_text gregorian no_tz \<lparr>runtime_tz = None, local_tz_env = None\<rparr> 0 1752278400"
proof -
  have z: "tz_offset_hours_at_unix gregorian no_tz \<lparr>runtime_tz = None, local_tz_env = None\<rparr> 1752278400 = 0"
    by (simp add: tz_offset_hours_at_unix_def configured_timezone_def)
  show "rtc_text gregorian no_tz \<lparr>runtime_tz = None, local_tz_env = None\<rparr> (- 5) 1752278400 =
   rtc_text gregorian no_tz \<lparr>runtime_tz = None, local_tz_env = None\<rparr> 0 1752278400"
    unfolding rtc_text_def z by (simp add: local_from_utc_unix_def configured_timezone_def)
  have "local_date_time_from_utc gregorian 1752278400 5 \<noteq> local_date_time_from_utc gregorian 1752278400 0" by code_simp
  then show "rtc_text gregorian no_tz \<lparr>runtime_tz = None, local_tz_env = None\<rparr> 5 1752278400 \<noteq>
   rtc_text gregorian no_tz \<lparr>runtime_tz = None, local_tz_env = None\<rparr> 0 1752278400"
    unfolding rtc_text_def z
    by (auto simp: local_from_utc_unix_def configured_timezone_def Let_def option.map_comp dest!: option.inj_map_strong[rotated])
qed

section \<open>Bringing the display up\<close>

datatype backlight_state = Backlight_Off | Backlight_On

definition DISPLAY_BACKLIGHT_ACTIVE_LOW :: bool where "DISPLAY_BACKLIGHT_ACTIVE_LOW = False"

definition backlight_off_state :: backlight_state where
  "backlight_off_state = (if DISPLAY_BACKLIGHT_ACTIVE_LOW then Backlight_On else Backlight_Off)"

text \<open>\<open>init_display\<close>; a failure to set the backlight is only logged.\<close>

definition panel_steps :: "driver_step list" where
  "panel_steps = steps [''failed to initialize ST7789 display'', ''failed to set display orientation'']"

definition init_display :: "(string \<Rightarrow> bool) \<Rightarrow> string + backlight_state" where
  "init_display ok =
     (case run_steps ok panel_steps of
        Inl e \<Rightarrow> Inl e
      | Inr _ \<Rightarrow> Inr (if DISPLAY_BACKLIGHT_ACTIVE_LOW then Backlight_Off else Backlight_On))"

record display_device =
  tft_spi :: bool
  panel_claimed :: bool

text \<open>\<open>DisplayDevice::init\<close>, \<open>init_panel\<close> and \<open>close\<close> on the pin pool; what a failed call has claimed stays
  claimed.\<close>

definition bus_steps :: "driver_step list" where
  "bus_steps = steps [''failed to init TFT power enable'', ''failed to enable TFT power rail'',
     ''failed to initialize shared SPI bus for TFT and SD card'']"

definition tft_steps :: "driver_step list" where
  "tft_steps = steps [''failed to initialize SPI device for TFT'']"

definition display_init :: "(string \<Rightarrow> bool) \<Rightarrow> pin_pool \<Rightarrow> (string + display_device) \<times> pin_pool" where
  "display_init ok pool =
     and_then (claim_lines [21, 36, 35, 37] ''display'' pool) (\<lambda>_ pool.
     and_then (run_steps ok bus_steps, pool) (\<lambda>_ pool.
     and_then (claim_lines [7] ''display'' pool) (\<lambda>_ pool.
     and_then (run_steps ok tft_steps, pool) (\<lambda>_ pool.
       (Inr \<lparr>tft_spi = True, panel_claimed = False\<rparr>, pool)))))"

definition control_steps :: "driver_step list" where
  "control_steps = steps [''failed to init TFT DC'', ''failed to init TFT RST'', ''failed to init TFT backlight'',
     ''failed to init page button'', ''failed to set TFT backlight pin'']"

definition init_panel :: "(string \<Rightarrow> bool) \<Rightarrow> display_device \<Rightarrow> pin_pool \<Rightarrow> (string + unit) \<times> display_device \<times> pin_pool" where
  "init_panel ok dev pool =
     (if \<not> tft_spi dev then (Inl ''TFT SPI device already consumed by a previous init_panel'', dev, pool)
      else let dev = dev\<lparr>tft_spi := False\<rparr> in
        case claim_lines [39, 40, 45, 0] ''display'' pool of
          (Inl e, pool) \<Rightarrow> (Inl e, dev, pool)
        | (Inr _, pool) \<Rightarrow>
            and_then (run_steps ok control_steps, dev, pool) (\<lambda>_ (dev, pool).
            and_then (init_display ok, dev, pool) (\<lambda>_ (dev, pool).
              (Inr (), dev\<lparr>panel_claimed := True\<rparr>, pool))))"

definition display_close :: "display_device \<Rightarrow> pin_pool \<Rightarrow> pin_pool" where
  "display_close dev pool =
     release_lines [7, 21, 36, 35, 37] (if panel_claimed dev then release_lines [0, 39, 40, 45] pool else pool)"

lemma display_close_owner:
  "pool_inv pool \<Longrightarrow> owner_of q (reg (display_close dev pool)) =
     (if q \<in> {7, 21, 36, 35, 37} \<or> panel_claimed dev \<and> q \<in> {0, 39, 40, 45} then None else owner_of q (reg pool))"
  unfolding display_close_def
  by (cases "panel_claimed dev") (simp_all add: release_lines_owner release_lines_inv split: if_split)

section \<open>The boot test\<close>

text \<open>Three bands of 45 rows, and a text; the pixels of a band, row by row.\<close>

datatype rgb = Red | Green | Blue

definition boot_test_bands :: "(int \<times> rgb) list" where
  "boot_test_bands = [(0, Red), (45, Green), (90, Blue)]"

definition band_pixels :: "int \<times> rgb \<Rightarrow> rgb pixel list" where
  "band_pixels b = (case b of (y0, c) \<Rightarrow> concat (map (\<lambda>y. map (\<lambda>x. ((x, y), c)) [0..239]) [y0..y0 + 44]))"

definition boot_test_text :: "string \<times> int \<times> int" where
  "boot_test_text = (''Display boot test'', 8, 20)"

text \<open>\<open>make_panel\<close>: whether the boot test is drawn now, and whether it has been drawn.\<close>

definition make_panel :: "bool \<Rightarrow> bool \<Rightarrow> bool \<times> bool" where
  "make_panel enabled drawn = (if enabled then (\<not> drawn, True) else (False, drawn))"

lemma boot_test_once: "make_panel enabled drawn = (True, drawn') \<Longrightarrow> make_panel enabled' drawn' = (b, d) \<Longrightarrow> \<not> b"
  by (auto simp: make_panel_def split: if_splits)

lemma band_set: "set (band_pixels (y0, c)) = {((x, y), c) | x y. 0 \<le> x \<and> x \<le> 239 \<and> y0 \<le> y \<and> y \<le> y0 + 44}"
  by (auto simp: band_pixels_def)

text \<open>The bands cover the viewport, each pixel in one colour.\<close>

lemma bands_cover:
  "0 \<le> x \<and> x < DISPLAY_WIDTH \<and> 0 \<le> y \<and> y < DISPLAY_HEIGHT \<longleftrightarrow> (\<exists>!c. ((x, y), c) \<in> \<Union> (set ` band_pixels ` set boot_test_bands))"
proof -
  have "((x, y), c) \<in> \<Union> (set ` band_pixels ` set boot_test_bands) \<longleftrightarrow> 0 \<le> x \<and> x \<le> 239 \<and> 0 \<le> y \<and> y \<le> 134 \<and>
      c = (if y < 45 then Red else if y < 90 then Green else Blue)" for c
    by (auto simp: boot_test_bands_def band_set)
  then show ?thesis by (auto simp: DISPLAY_WIDTH_def DISPLAY_HEIGHT_def)
qed

end
