(* ===== verification/Ui_Feed.thy ===== *)
theory Ui_Feed
  imports Display
begin

text \<open>The feed the main loop and the panel task share, and the sensor half of a panel pass (\<open>ui_task.rs\<close>).\<close>

section \<open>The shared feed\<close>

record ui_feed =
  feed_gps :: gps_snapshot
  feed_pps_delta_us :: u32
  feed_ntp :: ntp_snapshot
  feed_rtc :: rtc_snapshot
  feed_storage :: storage_status
  feed_battery :: battery_snapshot
  rtc_write_pending :: i64

definition rtc_snapshot_default :: rtc_snapshot where
  "rtc_snapshot_default = \<lparr>detected = False, rtc_utc = None\<rparr>"

definition battery_snapshot_default :: battery_snapshot where
  "battery_snapshot_default = \<lparr>voltage_v = Num 0, percent = Num 0\<rparr>"

definition feed_new :: "storage_status \<Rightarrow> ui_feed" where
  "feed_new storage = \<lparr>feed_gps = gps_snapshot_default, feed_pps_delta_us = 0, feed_ntp = ntp_snapshot_default,
     feed_rtc = rtc_snapshot_default, feed_storage = storage, feed_battery = battery_snapshot_default, rtc_write_pending = 0\<rparr>"

definition publish_gps :: "gps_snapshot \<Rightarrow> ui_feed \<Rightarrow> ui_feed" where
  "publish_gps gps f = f\<lparr>feed_gps := gps\<rparr>"

definition publish_pps_delta :: "u32 \<Rightarrow> ui_feed \<Rightarrow> ui_feed" where
  "publish_pps_delta delta_us f = f\<lparr>feed_pps_delta_us := delta_us\<rparr>"

definition publish_ntp :: "ntp_snapshot \<Rightarrow> ui_feed \<Rightarrow> ui_feed" where
  "publish_ntp snap f = f\<lparr>feed_ntp := snap\<rparr>"

definition publish_rtc :: "rtc_snapshot \<Rightarrow> ui_feed \<Rightarrow> ui_feed" where
  "publish_rtc snap f = f\<lparr>feed_rtc := snap\<rparr>"

definition request_rtc_write :: "i64 \<Rightarrow> ui_feed \<Rightarrow> ui_feed" where
  "request_rtc_write utc f = f\<lparr>rtc_write_pending := utc\<rparr>"

definition publish_storage :: "storage_status \<Rightarrow> ui_feed \<Rightarrow> ui_feed" where
  "publish_storage status f = f\<lparr>feed_storage := status\<rparr>"

definition publish_battery :: "battery_snapshot \<Rightarrow> ui_feed \<Rightarrow> ui_feed" where
  "publish_battery sample f = f\<lparr>feed_battery := sample\<rparr>"

definition feed_snapshot :: "ui_feed \<Rightarrow> gps_snapshot \<times> u32 \<times> ntp_snapshot \<times> storage_status \<times> rtc_snapshot" where
  "feed_snapshot f = (feed_gps f, feed_pps_delta_us f, feed_ntp f, feed_storage f, feed_rtc f)"

section \<open>Sampling the sensors\<close>

definition BATTERY_SAMPLE_US :: int where "BATTERY_SAMPLE_US = 5000000"
definition RTC_SAMPLE_US :: int where "RTC_SAMPLE_US = 1000000"
definition STATUS_REFRESH_US :: int where "STATUS_REFRESH_US = 60000000"

record panel_clock =
  last_battery_us :: int
  last_rtc_us :: int
  last_storage_us :: int

definition panel_clock_new :: panel_clock where
  "panel_clock_new = \<lparr>last_battery_us = 0, last_rtc_us = 0, last_storage_us = 0\<rparr>"

text \<open>\<open>rtc_lock_free\<close>: the \<open>try_write\<close> on the RTC sample succeeds. \<open>'b\<close> is the I2C bus.\<close>

definition sample_battery ::
    "'b i2c_driver \<Rightarrow> battery_monitor option \<Rightarrow> int \<Rightarrow> ui_feed \<times> panel_clock \<times> 'b \<Rightarrow> ui_feed \<times> panel_clock \<times> 'b" where
  "sample_battery drv monitor now_us st =
     (case st of (f, k, b) \<Rightarrow>
        if last_battery_us k = 0 \<or> BATTERY_SAMPLE_US \<le> sat_sub now_us (last_battery_us k) then
          (case monitor of
             None \<Rightarrow> (f, k\<lparr>last_battery_us := now_us\<rparr>, b)
           | Some kind \<Rightarrow>
               (case read_battery drv kind b of
                  (Inr reading, b1) \<Rightarrow> (publish_battery reading f, k\<lparr>last_battery_us := now_us\<rparr>, b1)
                | (Inl err, b1) \<Rightarrow> (f, k\<lparr>last_battery_us := now_us\<rparr>, b1)))
        else (f, k, b))"

definition rtc_write_step :: "chrono \<Rightarrow> 'b i2c_driver \<Rightarrow> ui_feed \<times> 'b \<Rightarrow> ui_feed \<times> 'b" where
  "rtc_write_step C drv st =
     (case st of (f, b) \<Rightarrow>
        let pending_write = rtc_write_pending f; f = f\<lparr>rtc_write_pending := 0\<rparr> in
        if 0 < pending_write then (f, snd (write_unix_seconds C drv pending_write b)) else (f, b))"

definition sample_rtc ::
    "chrono \<Rightarrow> 'b i2c_driver \<Rightarrow> bool \<Rightarrow> int \<Rightarrow> ui_feed \<times> panel_clock \<times> 'b \<Rightarrow> ui_feed \<times> panel_clock \<times> 'b" where
  "sample_rtc C drv rtc_lock_free now_us st =
     (case st of (f, k, b) \<Rightarrow>
        if last_rtc_us k \<noteq> 0 \<and> sat_sub now_us (last_rtc_us k) < RTC_SAMPLE_US then (f, k, b)
        else (case read_unix_seconds C drv b of (r, b1) \<Rightarrow>
          let snap = (case r of Inr secs \<Rightarrow> \<lparr>detected = True, rtc_utc = Some secs\<rparr> | Inl _ \<Rightarrow> \<lparr>detected = True, rtc_utc = None\<rparr>)
          in if rtc_lock_free then (f\<lparr>feed_rtc := snap\<rparr>, k\<lparr>last_rtc_us := now_us\<rparr>, b1) else (f, k, b1)))"

definition sample_sensors ::
    "chrono \<Rightarrow> 'b i2c_driver \<Rightarrow> battery_monitor option \<Rightarrow> rtc_device \<Rightarrow> bool \<Rightarrow> int \<Rightarrow>
     ui_feed \<times> panel_clock \<times> 'b \<Rightarrow> ui_feed \<times> panel_clock \<times> 'b" where
  "sample_sensors C drv monitor rtc rtc_lock_free now_us st =
     (case sample_battery drv monitor now_us st of (f, k, b) \<Rightarrow>
        if \<not> present rtc then (f, k, b)
        else (case rtc_write_step C drv (f, b) of (f, b) \<Rightarrow> sample_rtc C drv rtc_lock_free now_us (f, k, b)))"

text \<open>The second half of a panel pass: sensors unless a frame is pending, the free-space request, and a
  finished sample of it (\<open>storage::take_usage\<close>).\<close>

definition panel_sensors ::
    "chrono \<Rightarrow> 'b i2c_driver \<Rightarrow> battery_monitor option \<Rightarrow> rtc_device \<Rightarrow> bool \<Rightarrow> bool \<Rightarrow> int \<Rightarrow>
     ui_feed \<times> panel_clock \<times> 'b \<times> usage_state \<Rightarrow> ui_feed \<times> panel_clock \<times> 'b \<times> usage_state" where
  "panel_sensors C drv monitor rtc rtc_lock_free frame_pending now_us st =
     (case st of (f, k, b, u) \<Rightarrow>
        let (f, k, b, u) =
          (if frame_pending then (f, k, b, u)
           else case sample_sensors C drv monitor rtc rtc_lock_free now_us (f, k, b) of (f, k, b) \<Rightarrow>
             if mounted (feed_storage f) \<and> (last_storage_us k = 0 \<or> STATUS_REFRESH_US \<le> sat_sub now_us (last_storage_us k))
             then (f, k\<lparr>last_storage_us := now_us\<rparr>, b, request_usage_refresh u)
             else (f, k, b, u))
        in case take_usage u of
             (Some status, u) \<Rightarrow> (publish_storage status f, k, b, u)
           | (None, u) \<Rightarrow> (f, k, b, u))"

section \<open>Correctness\<close>

lemma sample_battery_frame:
  assumes "sample_battery drv monitor now_us (f, k, b) = (f', k', b')"
  shows "rtc_write_pending f' = rtc_write_pending f" "last_rtc_us k' = last_rtc_us k" "feed_rtc f' = feed_rtc f"
  using assms by (auto simp: sample_battery_def publish_battery_def split: if_splits option.splits prod.splits sum.splits)

text \<open>A requested RTC write reaches the chip and the panel shows what the chip says: on a bus with a
  working PCF8523, the first sensor pass after \<open>request_rtc_write\<close> of an instant of 2020 to 2099 writes
  it, the request is consumed, and when the sample is due and its lock is free, the feed shows exactly
  that instant, whatever fuel gauge shares the bus.\<close>

theorem rtc_write_reaches_feed:
  assumes "calendar C" "pcf8523 drv regs" "1577836800 \<le> t" "t < 4102444800" "present rtc"
    and "last_rtc_us k = 0 \<or> 1000000 \<le> now_us - last_rtc_us k"
    and "sample_sensors C drv monitor rtc True now_us (request_rtc_write t f, k, b) = (f', k', b')"
  shows "rtc_write_pending f' = 0 \<and> rtc_utc (feed_rtc f') = Some t \<and> detected (feed_rtc f') \<and> last_rtc_us k' = now_us"
proof -
  obtain f1 k1 b1 where s: "sample_battery drv monitor now_us (request_rtc_write t f, k, b) = (f1, k1, b1)" by (metis prod_cases3)
  note s1 = sample_battery_frame[OF s]
  obtain b2 where w: "write_unix_seconds C drv t b1 = (Inr (), b2)" "fst (read_unix_seconds C drv b2) = Inr t"
    using write_then_read[OF assms(1,2), of t b1] assms(3,4) by (auto simp: rtc_range_def)
  have due: "\<not> (last_rtc_us k1 \<noteq> 0 \<and> sat_sub now_us (last_rtc_us k1) < RTC_SAMPLE_US)"
    using assms(6) s1(2) sat_sub_less_iff[of 1000000 now_us "last_rtc_us k"]
    by (auto simp: RTC_SAMPLE_US_def i64_min_def i64_max_def)
  obtain b3 where r: "read_unix_seconds C drv b2 = (Inr t, b3)" using w(2) by (metis prod.collapse)
  show ?thesis
    using assms(3,5,7) s s1(1) w(1) due r
    by (auto simp: sample_sensors_def rtc_write_step_def sample_rtc_def request_rtc_write_def Let_def)
qed

theorem rtc_write_reaches_feed_witness:
  "\<exists>f' k' b'. sample_sensors gregorian (chip_driver PCF8523_ADDR 20) None \<lparr>present = True, boot_utc = None\<rparr> True 5000000
      (request_rtc_write 1717770645 (feed_new storage_status_default), panel_clock_new, \<lambda>_. 0) = (f', k', b') \<and>
    rtc_utc (feed_rtc f') = Some 1717770645"
proof -
  obtain f' k' b' where s: "sample_sensors gregorian (chip_driver PCF8523_ADDR 20) None \<lparr>present = True, boot_utc = None\<rparr> True 5000000
      (request_rtc_write 1717770645 (feed_new storage_status_default), panel_clock_new, \<lambda>_. 0) = (f', k', b')"
    by (metis prod_cases3)
  from rtc_write_reaches_feed[OF calendar_gregorian pcf8523_simulated _ _ _ _ s] s show ?thesis
    by (simp add: panel_clock_new_def)
qed

text \<open>A write the bus refuses is consumed all the same; it is not tried again.\<close>

theorem failed_rtc_write_dropped:
  "rtc_write_pending (fst (rtc_write_step C drv (f, b))) = 0"
  by (simp add: rtc_write_step_def Let_def)

end
