(* ===== verification/Ui_Task.thy ===== *)
theory Ui_Task
  imports Ui_Feed
begin

text \<open>The button task, and the redraw protocol between it and the panel task (\<open>ui_task.rs\<close>).\<close>

section \<open>The button task\<close>

definition DRAW_INTERVAL_US :: int where "DRAW_INTERVAL_US = 5000000"
definition SCREEN_BLANK_US :: int where "SCREEN_BLANK_US = 15000000"
definition BUTTON_DEBOUNCE_US :: int where "BUTTON_DEBOUNCE_US = 200000"
definition PULLUP_REFRESH_US :: int where "PULLUP_REFRESH_US = 1000000"
definition PANEL_LOOP_STALL_US :: int where "PANEL_LOOP_STALL_US = 5000000"
definition BUTTON_HELD_RECOVER_US :: int where "BUTTON_HELD_RECOVER_US = 500000"
definition STUCK_LOW_US :: int where "STUCK_LOW_US = 2000000"
definition DISPLAY_DEBUG_ALWAYS_ON :: bool where "DISPLAY_DEBUG_ALWAYS_ON = False"

text \<open>The level \<open>set_backlight_pin\<close> drives.\<close>

definition backlight_level :: "bool \<Rightarrow> bool" where
  "backlight_level on = (if DISPLAY_BACKLIGHT_ACTIVE_LOW then \<not> on else on)"

record ui_control =
  ctl_page :: u8
  screen_on :: bool
  render_req :: u32

definition ui_control_new :: ui_control where
  "ui_control_new = \<lparr>ctl_page = page_index Time_Page, screen_on = True, render_req = 1\<rparr>"

record button_state =
  last_edges :: u32
  last_level_pressed :: bool
  last_action_us :: int
  last_interaction_us :: int
  last_redraw_req_us :: int
  last_pullup_us :: int
  low_since :: int
  stuck_logged :: bool
  last_recover_us :: int
  restart_blocked_logged :: bool

definition button_start :: "u32 \<Rightarrow> int \<Rightarrow> button_state" where
  "button_start edges now_us = \<lparr>last_edges = edges, last_level_pressed = False, last_action_us = 0, last_interaction_us = now_us,
     last_redraw_req_us = now_us, last_pullup_us = now_us, low_since = 0, stuck_logged = False, last_recover_us = 0,
     restart_blocked_logged = False\<rparr>"

text \<open>What one pass reads: the clock, the edge counter, the level of GPIO0 (high: not pressed), the edge
  counter after a repair of the pin, the time the panel last reached the top of its loop, and the level
  again before a restart.\<close>

record button_input =
  bi_now_us :: int
  bi_edges :: u32
  bi_high :: bool
  bi_edges_after_repair :: u32
  bi_panel_at :: int
  bi_high_later :: bool

text \<open>Edge and level detection, with the repair of a pin held low; the flag says whether this pass saw a
  press.\<close>

definition read_button :: "button_input \<Rightarrow> button_state \<Rightarrow> bool \<times> button_state" where
  "read_button i s =
     (let now_us = bi_now_us i;
          edge_press = bi_edges i \<noteq> last_edges s;
          s = (if edge_press then s\<lparr>last_edges := bi_edges i\<rparr> else s);
          level_pressed = \<not> bi_high i;
          level_press = level_pressed \<and> \<not> last_level_pressed s;
          s = s\<lparr>last_level_pressed := level_pressed\<rparr>;
          s = (if level_pressed then
                 (let s = (if low_since s = 0 then s\<lparr>low_since := now_us\<rparr>
                           else if BUTTON_HELD_RECOVER_US \<le> sat_sub now_us (low_since s)
                                \<and> PULLUP_REFRESH_US \<le> sat_sub now_us (last_recover_us s)
                           then s\<lparr>last_edges := bi_edges_after_repair i, last_recover_us := now_us\<rparr> else s)
                  in if \<not> stuck_logged s \<and> STUCK_LOW_US \<le> sat_sub now_us (low_since s) then s\<lparr>stuck_logged := True\<rparr> else s)
               else s\<lparr>low_since := 0, stuck_logged := False\<rparr>)
      in (edge_press \<or> level_press, s))"

definition press_action :: "bool \<Rightarrow> int \<Rightarrow> button_state \<times> ui_control \<Rightarrow> bool \<times> button_state \<times> ui_control" where
  "press_action pressed now_us st =
     (case st of (s, c) \<Rightarrow>
        if pressed \<and> BUTTON_DEBOUNCE_US \<le> sat_sub now_us (last_action_us s) then
          let s = s\<lparr>last_action_us := now_us, last_interaction_us := now_us, last_redraw_req_us := now_us\<rparr>;
              c = (if \<not> screen_on c then c\<lparr>screen_on := True\<rparr>
                   else c\<lparr>ctl_page := page_index (next_page (page_from_index (ctl_page c)))\<rparr>)
          in (True, s, c\<lparr>render_req := render_req c + 1\<rparr>)
        else (False, s, c))"

definition blank_and_redraw :: "int \<Rightarrow> button_state \<times> ui_control \<Rightarrow> button_state \<times> ui_control" where
  "blank_and_redraw now_us st =
     (case st of (s, c) \<Rightarrow>
        let c = (if \<not> DISPLAY_DEBUG_ALWAYS_ON \<and> screen_on c \<and> SCREEN_BLANK_US \<le> sat_sub now_us (last_interaction_us s)
                 then c\<lparr>screen_on := False\<rparr> else c);
            (s, c) = (if screen_on c \<and> DRAW_INTERVAL_US \<le> sat_sub now_us (last_redraw_req_us s)
                      then (s\<lparr>last_redraw_req_us := now_us\<rparr>, c\<lparr>render_req := render_req c + 1\<rparr>) else (s, c));
            s = (if PULLUP_REFRESH_US \<le> sat_sub now_us (last_pullup_us s) then s\<lparr>last_pullup_us := now_us\<rparr> else s)
        in (s, c))"

definition panel_stalled :: "int \<Rightarrow> int \<Rightarrow> bool" where
  "panel_stalled now_us panel_at \<longleftrightarrow> panel_at \<noteq> 0 \<and> PANEL_LOOP_STALL_US \<le> sat_sub now_us panel_at"

text \<open>One pass of \<open>button_task_main\<close>: whether a press was acted on, whether the chip is restarted.\<close>

definition button_pass :: "button_input \<Rightarrow> button_state \<times> ui_control \<Rightarrow> bool \<times> bool \<times> button_state \<times> ui_control" where
  "button_pass i st =
     (case st of (s, c) \<Rightarrow>
        case read_button i s of (pressed, s) \<Rightarrow>
        case press_action pressed (bi_now_us i) (s, c) of (acted, s, c) \<Rightarrow>
        case blank_and_redraw (bi_now_us i) (s, c) of (s, c) \<Rightarrow>
          if panel_stalled (bi_now_us i) (bi_panel_at i) then
            if bi_high_later i then (acted, True, s, c)
            else (acted, False, s\<lparr>restart_blocked_logged := True\<rparr>, c)
          else (acted, False, s\<lparr>restart_blocked_logged := False\<rparr>, c))"

fun button_run :: "button_input list \<Rightarrow> button_state \<times> ui_control \<Rightarrow> int list \<times> bool \<times> button_state \<times> ui_control" where
  "button_run [] st = ([], False, st)"
| "button_run (i # is) st =
     (case button_pass i st of (acted, restart, st1) \<Rightarrow>
        if restart then (if acted then [bi_now_us i] else [], True, st1)
        else case button_run is st1 of (ts, r, st2) \<Rightarrow> ((if acted then bi_now_us i # ts else ts), r, st2))"

lemma read_button_frame:
  assumes "read_button i s = (pressed, s')"
  shows "last_action_us s' = last_action_us s" "last_interaction_us s' = last_interaction_us s"
    "last_redraw_req_us s' = last_redraw_req_us s"
  using assms by (auto simp: read_button_def Let_def split: if_splits)

lemma blank_frame:
  assumes "blank_and_redraw now_us (s, c) = (s', c')"
  shows "last_action_us s' = last_action_us s" "last_interaction_us s' = last_interaction_us s" "ctl_page c' = ctl_page c"
    "screen_on c' \<longleftrightarrow> screen_on c \<and> sat_sub now_us (last_interaction_us s) < SCREEN_BLANK_US"
  using assms by (auto simp: blank_and_redraw_def Let_def DISPLAY_DEBUG_ALWAYS_ON_def split: if_splits)

lemma sat_ge: "i64_min < k \<Longrightarrow> k \<le> i64_max \<Longrightarrow> k \<le> sat_sub a b \<longleftrightarrow> k \<le> a - b"
  using sat_sub_less_iff[of k a b] by linarith

lemma ui_limits:
  "BUTTON_DEBOUNCE_US \<le> sat_sub a b \<longleftrightarrow> 200000 \<le> a - b"
  "sat_sub a b < SCREEN_BLANK_US \<longleftrightarrow> a - b < 15000000"
  "PANEL_LOOP_STALL_US \<le> sat_sub a b \<longleftrightarrow> 5000000 \<le> a - b"
  by (simp_all add: BUTTON_DEBOUNCE_US_def SCREEN_BLANK_US_def PANEL_LOOP_STALL_US_def sat_ge sat_sub_less_iff i64_min_def i64_max_def)

lemma button_pass_effect:
  assumes "button_pass i (s, c) = (acted, restart, s', c')"
  shows "acted \<longrightarrow> 200000 \<le> bi_now_us i - last_action_us s \<and> last_action_us s' = bi_now_us i \<and> last_interaction_us s' = bi_now_us i \<and>
      screen_on c' \<and> page_from_index (ctl_page c') =
        (if screen_on c then next_page (page_from_index (ctl_page c)) else page_from_index (ctl_page c))"
    "\<not> acted \<longrightarrow> last_action_us s' = last_action_us s \<and> last_interaction_us s' = last_interaction_us s \<and> ctl_page c' = ctl_page c \<and>
      (screen_on c' \<longleftrightarrow> screen_on c \<and> bi_now_us i - last_interaction_us s < 15000000)"
    "restart \<longleftrightarrow> bi_panel_at i \<noteq> 0 \<and> 5000000 \<le> bi_now_us i - bi_panel_at i \<and> bi_high_later i"
proof -
  obtain p s1 where r: "read_button i s = (p, s1)" by fastforce
  obtain a s2 c2 where pa: "press_action p (bi_now_us i) (s1, c) = (a, s2, c2)" by (metis prod_cases3)
  obtain s3 c3 where b: "blank_and_redraw (bi_now_us i) (s2, c2) = (s3, c3)" by fastforce
  note f = read_button_frame[OF r] blank_frame[OF b]
  have o: "acted = a" "c' = c3" "last_action_us s' = last_action_us s3" "last_interaction_us s' = last_interaction_us s3"
    "restart \<longleftrightarrow> panel_stalled (bi_now_us i) (bi_panel_at i) \<and> bi_high_later i"
    using assms r pa b by (auto simp: button_pass_def split: if_splits)
  have self: "sat_sub (bi_now_us i) (bi_now_us i) < SCREEN_BLANK_US" by (simp add: ui_limits)
  show "acted \<longrightarrow> 200000 \<le> bi_now_us i - last_action_us s \<and> last_action_us s' = bi_now_us i \<and> last_interaction_us s' = bi_now_us i \<and>
      screen_on c' \<and> page_from_index (ctl_page c') =
        (if screen_on c then next_page (page_from_index (ctl_page c)) else page_from_index (ctl_page c))"
    using pa f o self by (auto simp: press_action_def Let_def ui_limits split: if_splits)
  show "\<not> acted \<longrightarrow> last_action_us s' = last_action_us s \<and> last_interaction_us s' = last_interaction_us s \<and> ctl_page c' = ctl_page c \<and>
      (screen_on c' \<longleftrightarrow> screen_on c \<and> bi_now_us i - last_interaction_us s < 15000000)"
    using pa f o by (auto simp: press_action_def Let_def ui_limits split: if_splits)
  show "restart \<longleftrightarrow> bi_panel_at i \<noteq> 0 \<and> 5000000 \<le> bi_now_us i - bi_panel_at i \<and> bi_high_later i"
    using o(5) by (simp add: panel_stalled_def ui_limits)
qed


lemma run_spacing:
  assumes "button_run is (s, c) = (ts, r, s', c')"
  shows "sorted_wrt (\<lambda>a b. 200000 \<le> b - a) (last_action_us s # ts)"
  using assms
proof (induction "is" "(s, c)" arbitrary: s c ts rule: button_run.induct)
  case (2 i "is")
  obtain a re s1 c1 where p: "button_pass i (s, c) = (a, re, s1, c1)" by (metis prod_cases4)
  note e = button_pass_effect[OF p]
  show ?case
  proof (cases re)
    case True
    then show ?thesis using 2(2) p e by (auto split: if_splits)
  next
    case False
    obtain ts1 r1 st1 where q: "button_run is (s1, c1) = (ts1, r1, st1)" by (metis prod_cases3)
    then have IH: "sorted_wrt (\<lambda>a b. 200000 \<le> b - a) (last_action_us s1 # ts1)"
      using 2(1)[OF p[symmetric]] False 2(2) p by (auto split: prod.splits)
    then show ?thesis using 2(2) p q False e by (force split: if_splits)
  qed
qed simp

section \<open>The redraw protocol\<close>

text \<open>
  The button task and the panel task on the shared atomics, one atomic access per step. A press stores
  the page (or lights the screen) and then counts a redraw request; a periodic redraw only counts. The
  panel loads the request count, then the screen flag, then the page, draws, and loads both again. The
  frame is what the glass shows; \<open>n_req\<close> counts the requests and is read by no step.
\<close>

datatype press_pc = P_Idle | P_Bump

datatype panel_pc = Top | Req u32 | Lit u32 | Page_Read u32 page | Drawn u32 page | Recheck u32 page page

record ui_sys =
  ctl :: ui_control
  press :: press_pc
  panel :: panel_pc
  last_drawn :: u32
  frame :: "page option"
  n_req :: nat

definition ui_start :: ui_sys where
  "ui_start = \<lparr>ctl = ui_control_new, press = P_Idle, panel = Top, last_drawn = 0, frame = None, n_req = 1\<rparr>"

definition count_request :: "ui_sys \<Rightarrow> ui_sys" where
  "count_request m = m\<lparr>ctl := (ctl m)\<lparr>render_req := render_req (ctl m) + 1\<rparr>, press := P_Idle, n_req := n_req m + 1\<rparr>"

definition button_actions :: "ui_sys \<Rightarrow> ui_sys list" where
  "button_actions m =
     (case press m of
        P_Bump \<Rightarrow> [count_request m]
      | P_Idle \<Rightarrow>
          [(if screen_on (ctl m)
            then m\<lparr>ctl := (ctl m)\<lparr>ctl_page := page_index (next_page (page_from_index (ctl_page (ctl m))))\<rparr>, press := P_Bump\<rparr>
            else m\<lparr>ctl := (ctl m)\<lparr>screen_on := True\<rparr>, press := P_Bump\<rparr>),
           m\<lparr>ctl := (ctl m)\<lparr>screen_on := False\<rparr>\<rparr>,
           count_request m])"

definition panel_step :: "ui_sys \<Rightarrow> ui_sys" where
  "panel_step m =
     (case panel m of
        Top \<Rightarrow> m\<lparr>panel := Req (render_req (ctl m))\<rparr>
      | Req r \<Rightarrow> if screen_on (ctl m) \<and> r \<noteq> last_drawn m
                 then m\<lparr>panel := Lit r\<rparr> else m\<lparr>panel := Top\<rparr>
      | Lit r \<Rightarrow> m\<lparr>panel := Page_Read r (page_from_index (ctl_page (ctl m)))\<rparr>
      | Page_Read r p \<Rightarrow> m\<lparr>frame := Some p, panel := Drawn r p\<rparr>
      | Drawn r p \<Rightarrow> m\<lparr>panel := Recheck r p (page_from_index (ctl_page (ctl m)))\<rparr>
      | Recheck r p page_now \<Rightarrow>
          (if page_now = p \<and> render_req (ctl m) = r then m\<lparr>last_drawn := r, panel := Top\<rparr> else m\<lparr>panel := Top\<rparr>))"

inductive ui_step :: "ui_sys \<Rightarrow> ui_sys \<Rightarrow> bool" where
  button: "m' \<in> set (button_actions m) \<Longrightarrow> ui_step m m'"
| panel: "ui_step m (panel_step m)"

inductive_cases ui_stepE: "ui_step m m'"

inductive ui_reach :: "ui_sys \<Rightarrow> bool" where
  ui_init: "ui_reach ui_start"
| ui_next: "ui_reach m \<Longrightarrow> ui_step m m' \<Longrightarrow> ui_reach m'"

abbreviation shown_page :: "ui_sys \<Rightarrow> page" where
  "shown_page m \<equiv> page_from_index (ctl_page (ctl m))"

text \<open>A draw for the latest request, with no press under way, is a draw of the current page.\<close>

definition fresh_draw :: "ui_sys \<Rightarrow> nat \<Rightarrow> page \<Rightarrow> bool" where
  "fresh_draw m k p \<longleftrightarrow> k \<le> n_req m \<and> (k = n_req m \<and> press m = P_Idle \<longrightarrow> p = shown_page m)"

definition draw_inv :: "ui_sys \<Rightarrow> nat \<Rightarrow> bool" where
  "draw_inv m d \<longleftrightarrow> last_drawn m = of_nat d \<and> d \<le> n_req m \<and>
     (d = n_req m \<and> press m = P_Idle \<longrightarrow> frame m = Some (shown_page m)) \<and>
     (case panel m of
        Top \<Rightarrow> True
      | Req r \<Rightarrow> (\<exists>k. r = of_nat k \<and> d \<le> k \<and> k \<le> n_req m)
      | Lit r \<Rightarrow> (\<exists>k. r = of_nat k \<and> d < k \<and> k \<le> n_req m)
      | Page_Read r p \<Rightarrow> (\<exists>k. r = of_nat k \<and> d < k \<and> fresh_draw m k p)
      | Drawn r p \<Rightarrow> (\<exists>k. r = of_nat k \<and> d < k \<and> fresh_draw m k p \<and> frame m = Some p)
      | Recheck r p q \<Rightarrow> (\<exists>k. r = of_nat k \<and> d < k \<and> fresh_draw m k p \<and> frame m = Some p))"

definition ui_inv :: "ui_sys \<Rightarrow> bool" where
  "ui_inv m \<longleftrightarrow> render_req (ctl m) = of_nat (n_req m) \<and> (\<exists>d. draw_inv m d)"

lemma count_fields [simp]:
  "n_req (count_request m) = Suc (n_req m)" "panel (count_request m) = panel m" "last_drawn (count_request m) = last_drawn m"
  "frame (count_request m) = frame m" "render_req (ctl (count_request m)) = render_req (ctl m) + 1"
  by (simp_all add: count_request_def)

lemma count_fresh: "fresh_draw m k p \<Longrightarrow> fresh_draw (count_request m) k p"
  by (auto simp: fresh_draw_def)

lemma count_inv:
  assumes "render_req (ctl m) = of_nat (n_req m)" "draw_inv m d"
  shows "ui_inv (count_request m)"
proof -
  have "d \<le> n_req m" "last_drawn m = of_nat d" using assms(2) by (simp_all add: draw_inv_def)
  moreover have "case panel m of
        Top \<Rightarrow> True
      | Req r \<Rightarrow> (\<exists>k. r = of_nat k \<and> d \<le> k \<and> k \<le> n_req (count_request m))
      | Lit r \<Rightarrow> (\<exists>k. r = of_nat k \<and> d < k \<and> k \<le> n_req (count_request m))
      | Page_Read r p \<Rightarrow> (\<exists>k. r = of_nat k \<and> d < k \<and> fresh_draw (count_request m) k p)
      | Drawn r p \<Rightarrow> (\<exists>k. r = of_nat k \<and> d < k \<and> fresh_draw (count_request m) k p \<and> frame m = Some p)
      | Recheck r p q \<Rightarrow> (\<exists>k. r = of_nat k \<and> d < k \<and> fresh_draw (count_request m) k p \<and> frame m = Some p)"
    using assms(2) by (cases "panel m") (auto simp: draw_inv_def intro: le_SucI count_fresh)
  ultimately have "draw_inv (count_request m) d" by (cases "panel m") (simp_all add: draw_inv_def)
  with assms(1) show ?thesis by (auto simp: ui_inv_def)
qed

lemma same_draws:
  assumes "draw_inv m d" "n_req m' = n_req m" "panel m' = panel m" "last_drawn m' = last_drawn m" "frame m' = frame m"
    and "press m' = P_Idle \<Longrightarrow> press m = P_Idle \<and> shown_page m' = shown_page m"
  shows "draw_inv m' d"
proof -
  have f: "fresh_draw m k p \<Longrightarrow> fresh_draw m' k p" for k p using assms(2,6) by (auto simp: fresh_draw_def)
  show ?thesis using assms by (cases "panel m") (auto simp: draw_inv_def intro: f)
qed

lemma button_inv:
  assumes "ui_inv m" "m' \<in> set (button_actions m)"
  shows "ui_inv m'"
proof (cases "m' = count_request m")
  case True
  then show ?thesis using assms(1) count_inv by (auto simp: ui_inv_def)
next
  case False
  obtain d where d: "render_req (ctl m) = of_nat (n_req m)" "draw_inv m d" using assms(1) by (auto simp: ui_inv_def)
  have f: "n_req m' = n_req m" "panel m' = panel m" "last_drawn m' = last_drawn m" "frame m' = frame m"
    "render_req (ctl m') = render_req (ctl m)" "press m' = P_Idle \<Longrightarrow> press m = P_Idle \<and> shown_page m' = shown_page m"
    using False assms(2) by (auto simp: button_actions_def split: press_pc.splits if_splits)
  show ?thesis unfolding ui_inv_def using same_draws[OF d(2) f(1-4,6)] d(1) f(1,5) by auto
qed

lemma u32_inj: "(of_nat a :: u32) = of_nat b \<Longrightarrow> a < 2 ^ 32 \<Longrightarrow> b < 2 ^ 32 \<Longrightarrow> a = b"
proof -
  assume "(of_nat a :: u32) = of_nat b" "a < 2 ^ 32" "b < 2 ^ 32"
  moreover have "unat (of_nat n :: u32) = n" if "n < 2 ^ 32" for n
    using that by (simp add: unat_of_nat)
  ultimately show "a = b" by metis
qed

lemma panel_inv:
  assumes "ui_inv m" "n_req m < 2 ^ 32"
  shows "ui_inv (panel_step m)"
proof -
  obtain d where d: "render_req (ctl m) = of_nat (n_req m)" "draw_inv m d" using assms(1) by (auto simp: ui_inv_def)
  have c: "ctl (panel_step m) = ctl m" "n_req (panel_step m) = n_req m" "press (panel_step m) = press m"
    by (auto simp: panel_step_def split: panel_pc.split)
  show ?thesis
  proof (cases "panel m")
    case Top
    then have "draw_inv (panel_step m) d" using d by (auto simp: draw_inv_def panel_step_def fresh_draw_def)
    then show ?thesis using d(1) c by (auto simp: ui_inv_def)
  next
    case (Req r)
    then obtain k where k: "r = of_nat k" "d \<le> k" "k \<le> n_req m" using d(2) by (auto simp: draw_inv_def)
    have "r \<noteq> last_drawn m \<Longrightarrow> d < k" using k(1,2) d(2) by (auto simp: draw_inv_def le_less)
    then have "draw_inv (panel_step m) d" using d(2) Req k by (auto simp: draw_inv_def panel_step_def fresh_draw_def)
    then show ?thesis using d(1) c by (auto simp: ui_inv_def)
  next
    case (Lit r)
    then have "draw_inv (panel_step m) d" using d(2) by (auto simp: draw_inv_def panel_step_def fresh_draw_def)
    then show ?thesis using d(1) c by (auto simp: ui_inv_def)
  next
    case (Page_Read r p)
    then have "draw_inv (panel_step m) d" using d(2) by (auto simp: draw_inv_def panel_step_def fresh_draw_def)
    then show ?thesis using d(1) c by (auto simp: ui_inv_def)
  next
    case (Drawn r p)
    then have "draw_inv (panel_step m) d" using d(2) by (auto simp: draw_inv_def panel_step_def fresh_draw_def)
    then show ?thesis using d(1) c by (auto simp: ui_inv_def)
  next
    case (Recheck r p q)
    then obtain k where k: "r = of_nat k" "d < k" "fresh_draw m k p" "frame m = Some p" using d(2) by (auto simp: draw_inv_def)
    show ?thesis
    proof (cases "q = p \<and> render_req (ctl m) = r")
      case True
      then have "draw_inv (panel_step m) k" using Recheck k by (auto simp: draw_inv_def panel_step_def fresh_draw_def)
      then show ?thesis using d(1) c by (auto simp: ui_inv_def)
    next
      case False
      then have "draw_inv (panel_step m) d" using Recheck d(2) by (auto simp: draw_inv_def panel_step_def fresh_draw_def)
      then show ?thesis using d(1) c by (auto simp: ui_inv_def)
    qed
  qed
qed

lemma n_req_grows: "ui_step m m' \<Longrightarrow> n_req m \<le> n_req m'"
  by (auto elim!: ui_stepE simp: button_actions_def count_request_def panel_step_def split: press_pc.splits panel_pc.splits if_splits)

lemma ui_start_inv: "ui_inv ui_start"
  unfolding ui_inv_def
  by (intro conjI exI[of _ 0]) (simp_all add: draw_inv_def ui_start_def ui_control_new_def)

lemma ui_reach_inv: "ui_reach m \<Longrightarrow> n_req m < 2 ^ 32 \<Longrightarrow> ui_inv m"
proof (induction rule: ui_reach.induct)
  case (ui_next m m')
  then have "ui_inv m" using n_req_grows[of m m'] by linarith
  moreover have "n_req m < 2 ^ 32" using ui_next n_req_grows[of m m'] by linarith
  ultimately show ?case using ui_next(2) button_inv panel_inv by (auto elim!: ui_stepE)
qed (rule ui_start_inv)

text \<open>An undisturbed pass of the panel: its steps until it is back at the top.\<close>

definition panel_pass :: "ui_sys \<Rightarrow> ui_sys" where
  "panel_pass m = (if screen_on (ctl m) \<and> render_req (ctl m) \<noteq> last_drawn m
     then (panel_step ^^ 6) m else (panel_step ^^ 2) m)"

lemma pass_shows_page:
  assumes "ui_reach m" "n_req m < 2 ^ 32" "panel m = Top" "press m = P_Idle" "screen_on (ctl m)"
  shows "panel (panel_pass m) = Top \<and> frame (panel_pass m) = Some (page_from_index (ctl_page (ctl m))) \<and>
    last_drawn (panel_pass m) = render_req (ctl m) \<and> ctl (panel_pass m) = ctl m"
proof -
  obtain d where d: "render_req (ctl m) = of_nat (n_req m)" "draw_inv m d"
    using ui_reach_inv[OF assms(1,2)] by (auto simp: ui_inv_def)
  show ?thesis
  proof (cases "render_req (ctl m) = last_drawn m")
    case True
    then have "(of_nat d :: u32) = of_nat (n_req m)" "d \<le> n_req m" using d by (auto simp: draw_inv_def)
    then have "d = n_req m" using u32_inj[of d "n_req m"] assms(2) by linarith
    then have "frame m = Some (shown_page m)" using d(2) assms(4) by (auto simp: draw_inv_def)
    then show ?thesis using True assms(3,5) by (simp add: panel_pass_def panel_step_def eval_nat_numeral)
  next
    case False
    then show ?thesis using assms(3,5) by (simp add: panel_pass_def panel_step_def eval_nat_numeral)
  qed
qed

text \<open>No press is lost on the way to the glass: in every reachable interleaving of presses, blanking,
  periodic redraws and panel steps (fewer than \<open>2 ^ 32\<close> requests), whenever the panel is at the top of
  its loop and no press is half done, one undisturbed panel pass with the screen on leaves the current
  page on the glass and nothing pending, also when presses arrived during the previous draw.\<close>

theorem no_lost_redraw:
  assumes "ui_reach m" "n_req m < 2 ^ 32" "panel m = Top" "press m = P_Idle" "screen_on (ctl m)"
  shows "panel (panel_pass m) = Top \<and> frame (panel_pass m) = Some (page_from_index (ctl_page (ctl m))) \<and>
    last_drawn (panel_pass m) = render_req (ctl m) \<and> ctl (panel_pass m) = ctl m"
  using pass_shows_page[OF assms] .

theorem no_lost_redraw_witness:
  "panel (panel_pass ui_start) = Top \<and> frame (panel_pass ui_start) = Some (page_from_index (ctl_page (ctl ui_start)))"
  using no_lost_redraw[OF ui_init] by (simp add: ui_start_def ui_control_new_def)

end
