(* ===== verification/App.thy ===== *)
theory App
  imports Server Ui_Feed Pps Timezone
begin

text \<open>The main loop (\<open>run\<close> in app.rs) and the state the boot gives it (board.rs): one pass as the composition of
  its stages, in the order of the code.\<close>

section \<open>State\<close>

definition WRITEBACK_INTERVAL_US :: int where "WRITEBACK_INTERVAL_US = 60000000"
definition FALLBACK_INTERVAL_US :: int where "FALLBACK_INTERVAL_US = 1000000"

text \<open>The handles and locals of \<open>run\<close>; the flags that only decide whether a message is logged are left out.\<close>

record 'tz app =
  gps_uart :: gps_uart
  pps :: pps_poll_state
  server :: ntp_server
  ui_feed :: ui_feed
  tz_worker :: "tz_worker option"
  tz_cache :: tz_cache
  tz_cfg :: "'tz tz_config"
  tz_initialized :: bool
  current_tz_name :: "string option"
  rtc_present :: bool
  last_tz_lookup_us :: int
  last_ntp_publish_us :: int
  last_ntp_served :: u64
  last_rtc_fallback_us :: int
  last_rtc_utc :: "int option"
  last_rtc_write_us :: int
  first_fix_logged :: bool
  rtc_seeded_from_gps :: bool

text \<open>What one pass reads from outside: the UART, the clock at each GPS fix (once for the server, once for
  the lookup), what the socket delivers, the PPS snapshot, the clock readings of the steps, and the
  readings of the three kinds of NTP snapshot (clock, clock, wall clock).\<close>

record app_input =
  ai_rx :: "string option"
  ai_fix_clock :: "nat \<Rightarrow> int \<times> int"
  ai_socket :: "recv_event list"
  ai_served_us :: int
  ai_fallback_us :: int
  ai_seed_us :: int
  ai_pps :: "u32 \<times> u64"
  ai_pps_publish_us :: int
  ai_writeback_us :: int
  ai_now_us :: int
  ai_served_snap :: "int \<times> int \<times> wall_clock"
  ai_pps_snap :: "int \<times> int \<times> wall_clock"
  ai_writeback_snap :: "int \<times> int \<times> wall_clock"
  ai_tick_snap :: "int \<times> int \<times> wall_clock"

definition snapshot_at :: "(fp \<Rightarrow> fp) \<Rightarrow> bool \<Rightarrow> int \<times> int \<times> wall_clock \<Rightarrow> ntp_server \<Rightarrow> ntp_snapshot" where
  "snapshot_at log2 fix r s = (case r of (now_us, cur_us, wall) \<Rightarrow> get_ntp_snapshot log2 fix now_us cur_us wall s)"

section \<open>The steps of a pass\<close>

definition maybe_schedule_timezone_lookup :: "gps_snapshot \<Rightarrow> int \<Rightarrow> bool \<Rightarrow> tz_worker \<times> int \<Rightarrow> tz_worker \<times> int" where
  "maybe_schedule_timezone_lookup gps now_us initialized st =
     (case st of (w, last_us) \<Rightarrow>
        let should_lookup = (last_us = 0 \<or> lookup_interval_us initialized \<le> wrap_i64 (now_us - last_us)) in
        if should_lookup \<and> \<not> tz_pending w
        then (case try_request (lat gps) (lon gps) w of (ok, w) \<Rightarrow> (w, if ok then now_us else last_us))
        else (w, last_us))"

definition on_snapshot :: "gps_snapshot \<Rightarrow> 'tz app \<Rightarrow> 'tz app" where
  "on_snapshot gps a = a\<lparr>ui_feed := publish_gps gps (ui_feed a)\<rparr>"

definition on_fix :: "gps_snapshot \<Rightarrow> int \<times> int \<Rightarrow> 'tz app \<Rightarrow> 'tz app" where
  "on_fix gps clk a =
     (let a = (case utc_unix_seconds gps of
                 None \<Rightarrow> a | Some utc \<Rightarrow> a\<lparr>server := update_gps_utc_seconds utc (fst clk) (server a)\<rparr>)
      in case tz_worker a of
           None \<Rightarrow> a
         | Some w \<Rightarrow>
             (case maybe_schedule_timezone_lookup gps (snd clk) (tz_initialized a) (w, last_tz_lookup_us a) of
                (w, last_us) \<Rightarrow> a\<lparr>tz_worker := Some w, last_tz_lookup_us := last_us\<rparr>))"

fun dispatch :: "(nat \<Rightarrow> int \<times> int) \<Rightarrow> nat \<Rightarrow> gps_event list \<Rightarrow> 'tz app \<Rightarrow> 'tz app" where
  "dispatch clk n [] a = a"
| "dispatch clk n (On_Snapshot gps # evs) a = dispatch clk n evs (on_snapshot gps a)"
| "dispatch clk n (On_Fix gps # evs) a = dispatch clk (Suc n) evs (on_fix gps (clk n) a)"

definition gps_stage :: "chrono \<Rightarrow> 'tz tz_lib \<Rightarrow> app_input \<Rightarrow> 'tz app \<Rightarrow> 'tz app" where
  "gps_stage C L i a =
     (case gps_poll C L (tz_cfg a) (ai_rx i) (gps_uart a) of
        (evs, u) \<Rightarrow> (dispatch (ai_fix_clock i) 0 evs a)\<lparr>gps_uart := u\<rparr>)"

text \<open>A finished lookup: \<open>apply_timezone_lookup_result\<close>, then the offset of the zone for the snapshot.\<close>

definition tz_stage :: "chrono \<Rightarrow> 'tz tz_lib \<Rightarrow> 'tz app \<Rightarrow> 'tz app" where
  "tz_stage C L a =
     (case tz_worker a of
        None \<Rightarrow> a
      | Some w \<Rightarrow>
          (case tz_poll w of
             (None, w) \<Rightarrow> a\<lparr>tz_worker := Some w\<rparr>
           | (Some result, w) \<Rightarrow>
               (case apply_timezone_lookup_result L result (tz_cache a, tz_initialized a, current_tz_name a, tz_cfg a) of
                  (cache, ini, name, cfg) \<Rightarrow>
                    let a = a\<lparr>tz_worker := Some w, tz_cache := cache, tz_initialized := ini, current_tz_name := name, tz_cfg := cfg\<rparr>;
                        gps = uart_snapshot (gps_uart a);
                        utc = (case utc_unix_seconds gps of Some t \<Rightarrow> Some t | None \<Rightarrow> rtc_utc (feed_rtc (ui_feed a)))
                    in if \<not> ini then a
                       else case utc of
                              None \<Rightarrow> a
                            | Some t \<Rightarrow>
                                let gps = gps\<lparr>tz_offset_hours := tz_offset_hours_at_unix C L cfg t\<rparr>
                                in a\<lparr>gps_uart := (gps_uart a)\<lparr>uart_snapshot := gps\<rparr>, ui_feed := publish_gps gps (ui_feed a)\<rparr>)))"

text \<open>Serving the socket; the packets sent are the result. A failed poll publishes nothing.\<close>

definition ntp_stage :: "(fp \<Rightarrow> fp) \<Rightarrow> app_input \<Rightarrow> 'tz app \<Rightarrow> sent list \<times> 'tz app" where
  "ntp_stage log2 i a =
     (let fix = gps_fix (uart_snapshot (gps_uart a)) in
      case poll log2 fix (ai_socket i) (server a) of
        (out, res, s) \<Rightarrow>
          let a = a\<lparr>server := s\<rparr> in
          (out, if \<not> isl res \<and> last_ntp_served a < served s
                then a\<lparr>ui_feed := publish_ntp (snapshot_at log2 fix (ai_served_snap i) s) (ui_feed a),
                       last_ntp_publish_us := ai_served_us i, last_ntp_served := served s\<rparr>
                else a))"

definition maybe_apply_rtc_fallback :: "app_input \<Rightarrow> 'tz app \<Rightarrow> 'tz app" where
  "maybe_apply_rtc_fallback i a =
     (let rtc = feed_rtc (ui_feed a); now_us = ai_fallback_us i in
      if gps_fix (uart_snapshot (gps_uart a)) \<or> \<not> detected rtc then a
      else case rtc_utc rtc of
             None \<Rightarrow> a
           | Some secs \<Rightarrow>
               if last_rtc_fallback_us a = 0 \<or> FALLBACK_INTERVAL_US \<le> wrap_i64 (now_us - last_rtc_fallback_us a)
               then a\<lparr>server := seed_utc_seconds secs (ai_seed_us i) (server a), last_rtc_utc := Some secs,
                      last_rtc_fallback_us := now_us\<rparr>
               else a)"

definition maybe_writeback_rtc :: "(fp \<Rightarrow> fp) \<Rightarrow> app_input \<Rightarrow> int \<Rightarrow> 'tz app \<Rightarrow> 'tz app" where
  "maybe_writeback_rtc log2 i now_us a =
     (let fix = gps_fix (uart_snapshot (gps_uart a)) in
      if \<not> fix \<or> ns_state (snapshot_at log2 fix (ai_writeback_snap i) (server a)) \<noteq> Locked
         \<or> last_rtc_write_us a \<noteq> 0 \<and> wrap_i64 (now_us - last_rtc_write_us a) < WRITEBACK_INTERVAL_US
      then a
      else case current_utc_unix_seconds (ai_writeback_us i) (server a) of
             None \<Rightarrow> a
           | Some secs \<Rightarrow> a\<lparr>ui_feed := request_rtc_write secs (ui_feed a), last_rtc_write_us := now_us\<rparr>)"

definition pps_stage :: "(fp \<Rightarrow> fp) \<Rightarrow> int \<Rightarrow> app_input \<Rightarrow> 'tz app \<Rightarrow> 'tz app" where
  "pps_stage log2 fudge i a =
     (case pps_poll (ai_pps i) (pps a) of
        (None, st) \<Rightarrow> a\<lparr>pps := st\<rparr>
      | (Some event, st) \<Rightarrow>
          let fix = gps_fix (uart_snapshot (gps_uart a));
              a = (case event of
                     First edge_us \<Rightarrow> a\<lparr>server := observe_pps_pulse fudge None edge_us (server a)\<rparr>
                   | Delta interval_us edge_us \<Rightarrow>
                       a\<lparr>ui_feed := publish_pps_delta interval_us (ui_feed a),
                         server := observe_pps_pulse fudge (Some interval_us) edge_us (server a)\<rparr>);
              a = a\<lparr>pps := st, ui_feed := publish_ntp (snapshot_at log2 fix (ai_pps_snap i) (server a)) (ui_feed a),
                    last_ntp_publish_us := ai_pps_publish_us i\<rparr>
          in maybe_writeback_rtc log2 i (last_ntp_publish_us a) a)"

definition publish_stage :: "(fp \<Rightarrow> fp) \<Rightarrow> app_input \<Rightarrow> 'tz app \<Rightarrow> 'tz app" where
  "publish_stage log2 i a =
     (if 1000000 \<le> wrap_i64 (ai_now_us i - last_ntp_publish_us a)
      then a\<lparr>ui_feed := publish_ntp (snapshot_at log2 (gps_fix (uart_snapshot (gps_uart a))) (ai_tick_snap i) (server a)) (ui_feed a),
             last_ntp_publish_us := ai_now_us i\<rparr>
      else a)"

text \<open>The first fix sets a clock chip that had no time.\<close>

definition first_fix_stage :: "'tz app \<Rightarrow> 'tz app" where
  "first_fix_stage a =
     (let gps = uart_snapshot (gps_uart a) in
      if first_fix_logged a \<or> \<not> gps_fix gps then a
      else let a = a\<lparr>first_fix_logged := True\<rparr> in
        if rtc_present a \<and> \<not> rtc_seeded_from_gps a then
          (case utc_unix_seconds gps of
             None \<Rightarrow> a
           | Some utc \<Rightarrow> a\<lparr>ui_feed := request_rtc_write utc (ui_feed a), rtc_seeded_from_gps := True\<rparr>)
        else a)"

text \<open>One pass of the loop of \<open>run\<close>.\<close>

definition app_pass ::
    "chrono \<Rightarrow> 'tz tz_lib \<Rightarrow> (fp \<Rightarrow> fp) \<Rightarrow> int \<Rightarrow> app_input \<Rightarrow> 'tz app \<Rightarrow> sent list \<times> 'tz app" where
  "app_pass C L log2 fudge i a =
     (case ntp_stage log2 i (tz_stage C L (gps_stage C L i a)) of
        (out, a) \<Rightarrow>
          (out, first_fix_stage (publish_stage log2 i (pps_stage log2 fudge i (maybe_apply_rtc_fallback i a)))))"

section \<open>Boot\<close>

text \<open>\<open>BoardBoot::boot\<close> and \<open>init_ntp_server\<close> as far as they set up this state; \<open>worker\<close> says whether the
  lookup thread could be spawned, \<open>cidr\<close> is the build-time access list.\<close>

definition init_ntp_server :: "string \<Rightarrow> int option \<Rightarrow> int \<Rightarrow> ntp_server" where
  "init_ntp_server cidr boot_rtc_unix now_us =
     (let s = apply_boot_acl cidr from_socket in
      case boot_rtc_unix of None \<Rightarrow> s | Some secs \<Rightarrow> seed_utc_seconds secs now_us s)"

definition boot_app ::
    "chrono \<Rightarrow> 'tz tz_lib \<Rightarrow> 'tz tz_config \<Rightarrow> tz_cache \<Rightarrow> rtc_device \<Rightarrow> storage_status \<Rightarrow> string \<Rightarrow> int \<Rightarrow> bool \<Rightarrow>
     pps_poll_state \<Rightarrow> gps_uart \<Rightarrow> 'tz app" where
  "boot_app C L cfg cache rtc storage cidr now_us worker p u =
     (let tz = load_timezone_boot C L cache (boot_utc rtc) cfg;
          feed = feed_new storage;
          feed = (if present rtc then publish_rtc \<lparr>detected = True, rtc_utc = boot_utc rtc\<rparr> feed else feed);
          feed = publish_gps (boot_gps tz) feed
      in \<lparr>gps_uart = discard_backlog (set_snapshot (boot_gps tz) u), pps = p, server = init_ntp_server cidr (boot_utc rtc) now_us,
          ui_feed = feed, tz_worker = (if worker then Some tz_spawn else None), tz_cache = cache, tz_cfg = boot_cfg tz,
          tz_initialized = boot_tz_initialized tz, current_tz_name = boot_tz_name tz, rtc_present = present rtc,
          last_tz_lookup_us = 0, last_ntp_publish_us = 0, last_ntp_served = 0, last_rtc_fallback_us = 0,
          last_rtc_utc = boot_utc rtc, last_rtc_write_us = 0, first_fix_logged = False,
          rtc_seeded_from_gps = (boot_utc rtc \<noteq> None)\<rparr>)"

end
