(* ===== verification/App_Runs.thy ===== *)
theory App_Runs
  imports App
begin

text \<open>Runs of the main loop together with the lookup thread and the panel task: what they do to the server, to
  the data the panel shows, and to the lookups.\<close>

section \<open>Runs of the firmware\<close>

text \<open>
  Besides the passes of the main loop, the lookup thread and the panel task act on this state. The
  panel writes only the RTC, storage and battery samples of the feed and consumes the pending RTC write
  (\<open>panel_sensors_frame\<close>).
\<close>

definition panel_update :: "ui_feed \<Rightarrow> ui_feed \<Rightarrow> bool" where
  "panel_update f f' \<longleftrightarrow> feed_gps f' = feed_gps f \<and> feed_pps_delta_us f' = feed_pps_delta_us f \<and> feed_ntp f' = feed_ntp f \<and>
     rtc_write_pending f' \<in> {rtc_write_pending f, 0}"

inductive app_step :: "chrono \<Rightarrow> 'tz tz_lib \<Rightarrow> (fp \<Rightarrow> fp) \<Rightarrow> int \<Rightarrow> 'tz app \<Rightarrow> 'tz app \<Rightarrow> bool" for C L log2 fudge where
  loop_pass: "app_pass C L log2 fudge i a = (out, a') \<Longrightarrow> app_step C L log2 fudge a a'"
| lookup_thread: "tz_worker a = Some w \<Longrightarrow> app_step C L log2 fudge a (a\<lparr>tz_worker := Some (worker_lookup http w)\<rparr>)"
| panel_task: "panel_update (ui_feed a) f \<Longrightarrow> app_step C L log2 fudge a (a\<lparr>ui_feed := f\<rparr>)"

inductive_cases app_stepE: "app_step C L log2 fudge a a'"

inductive app_reach :: "chrono \<Rightarrow> 'tz tz_lib \<Rightarrow> (fp \<Rightarrow> fp) \<Rightarrow> int \<Rightarrow> 'tz app \<Rightarrow> bool" for C L log2 fudge where
  app_boot: "app_reach C L log2 fudge (boot_app C L cfg cache rtc storage cidr now_us worker p u)"
| app_next: "app_reach C L log2 fudge a \<Longrightarrow> app_step C L log2 fudge a a' \<Longrightarrow> app_reach C L log2 fudge a'"

lemma panel_sensors_frame:
  assumes "panel_sensors C drv monitor rtc lock frame_pending now_us (f, k, b, u) = (f', k', b', u')"
  shows "panel_update f f'"
proof -
  have bat: "panel_update f f1" if "sample_battery drv monitor now_us (f, k, b) = (f1, k1, b1)" for f k b f1 k1 b1
    using that by (auto simp: sample_battery_def publish_battery_def panel_update_def split: if_splits option.splits prod.splits sum.splits)
  have rtc: "panel_update f f1" if "sample_rtc C drv lock now_us (f, k, b) = (f1, k1, b1)" for f k b f1 k1 b1
    using that by (auto simp: sample_rtc_def panel_update_def Let_def split: if_splits prod.splits)
  have wr: "panel_update f f1" if "rtc_write_step C drv (f, b) = (f1, b1)" for f b f1 b1
    using that by (auto simp: rtc_write_step_def panel_update_def Let_def split: if_splits)
  have tr: "panel_update f g \<Longrightarrow> panel_update g h \<Longrightarrow> panel_update f h" for f g h by (auto simp: panel_update_def)
  have s: "panel_update f f3" if sp: "sample_sensors C drv monitor rtc lock now_us (f, k, b) = (f3, k3, b3)" for f k b f3 k3 b3
  proof -
    obtain f1 k1 b1 where 1: "sample_battery drv monitor now_us (f, k, b) = (f1, k1, b1)" by (metis prod_cases3)
    obtain f2 b2 where 2: "rtc_write_step C drv (f1, b1) = (f2, b2)" by fastforce
    show ?thesis
    proof (cases "present rtc")
      case True
      then have "sample_rtc C drv lock now_us (f2, k1, b2) = (f3, k3, b3)" using sp 1 2 by (simp add: sample_sensors_def)
      with bat[OF 1] wr[OF 2] rtc tr show ?thesis by blast
    qed (use sp 1 bat in \<open>auto simp: sample_sensors_def\<close>)
  qed
  have p: "panel_update f g \<Longrightarrow> panel_update f (publish_storage st g)" for f g st
    by (simp add: panel_update_def publish_storage_def)
  obtain f1 k1 b1 where ss: "sample_sensors C drv monitor rtc lock now_us (f, k, b) = (f1, k1, b1)" by (metis prod_cases3)
  have "f' = f \<or> f' = f1 \<or> (\<exists>st. f' = publish_storage st f) \<or> (\<exists>st. f' = publish_storage st f1)"
    using assms ss by (auto simp: panel_sensors_def Let_def split: prod.splits if_splits option.splits)
  then show ?thesis using s[OF ss] p[of f f] p[OF s[OF ss]] by (auto simp: panel_update_def)
qed

text \<open>The stages, seen from the server: each is a run of its operations.\<close>

definition serves :: "(fp \<Rightarrow> fp) \<Rightarrow> int \<Rightarrow> 'tz app \<Rightarrow> bool" where
  "serves log2 fudge a \<longleftrightarrow> (\<exists>h. server_run fudge log2 h (server a))"

lemma serves_step: "serves log2 fudge a \<Longrightarrow> server_step fudge log2 (server a) e (server a') \<Longrightarrow> serves log2 fudge a'"
  unfolding serves_def by (blast intro: server_run.step)

lemma serves_same: "serves log2 fudge a \<Longrightarrow> server a' = server a \<Longrightarrow> serves log2 fudge a'"
  by (simp add: serves_def)

lemma serves_inv: "serves log2 fudge a \<Longrightarrow> server_inv (server a)"
  unfolding serves_def by (blast intro: run_inv)

lemma on_fix_serves:
  assumes "serves log2 fudge a"
  shows "serves log2 fudge (on_fix g clk a)"
proof -
  have s: "server (on_fix g clk a) = (case utc_unix_seconds g of None \<Rightarrow> server a
      | Some utc \<Rightarrow> update_gps_utc_seconds utc (fst clk) (server a))"
    by (auto simp: on_fix_def Let_def split: option.split prod.split)
  show ?thesis
  proof (cases "utc_unix_seconds g")
    case None
    then show ?thesis using serves_same[OF assms] s by simp
  next
    case (Some utc)
    show ?thesis by (rule serves_step[OF assms, of "Gps_Update utc (fst clk)"]) (simp add: s Some server_step.gps)
  qed
qed

lemma on_snapshot_serves: "serves log2 fudge a \<Longrightarrow> serves log2 fudge (on_snapshot gps a)"
  by (simp add: serves_def on_snapshot_def)

lemma dispatch_serves: "serves log2 fudge a \<Longrightarrow> serves log2 fudge (dispatch clk n evs a)"
  by (induction clk n evs a rule: dispatch.induct) (simp_all add: on_fix_serves on_snapshot_serves)

lemma gps_stage_serves: "serves log2 fudge a \<Longrightarrow> serves log2 fudge (gps_stage C L i a)"
  unfolding gps_stage_def by (auto split: prod.split intro: serves_same[OF dispatch_serves])

lemma tz_stage_server [simp]: "server (tz_stage C L a) = server a"
  by (auto simp: tz_stage_def Let_def split: option.split prod.split)

lemma ntp_stage_serves:
  assumes "serves log2 fudge a" "ntp_stage log2 i a = (out, a')"
  shows "serves log2 fudge a'"
proof -
  obtain o1 r s where p: "poll log2 (gps_fix (uart_snapshot (gps_uart a))) (ai_socket i) (server a) = (o1, r, s)" by (metis prod_cases3)
  have "server a' = s" using assms(2) p by (auto simp: ntp_stage_def Let_def split: if_splits)
  with serves_step[OF assms(1)] server_step.poll[OF p] show ?thesis by metis
qed

lemma fallback_serves:
  assumes "serves log2 fudge a"
  shows "serves log2 fudge (maybe_apply_rtc_fallback i a)"
proof -
  have "server (maybe_apply_rtc_fallback i a) = server a \<or>
     (\<exists>secs. server (maybe_apply_rtc_fallback i a) = seed_utc_seconds secs (ai_seed_us i) (server a))"
    by (auto simp: maybe_apply_rtc_fallback_def Let_def split: option.split)
  with serves_same[OF assms] serves_step[OF assms] server_step.seed show ?thesis by metis
qed

lemma writeback_server [simp]: "server (maybe_writeback_rtc log2 i now a) = server a"
  by (auto simp: maybe_writeback_rtc_def Let_def split: option.split)

lemma pps_stage_server:
  "server (pps_stage log2 fudge i a) = (case fst (pps_poll (ai_pps i) (pps a)) of None \<Rightarrow> server a
     | Some (First e) \<Rightarrow> observe_pps_pulse fudge None e (server a)
     | Some (Delta d e) \<Rightarrow> observe_pps_pulse fudge (Some d) e (server a))"
  by (auto simp: pps_stage_def Let_def split: prod.split option.split pps_event.split)

lemma pps_stage_serves:
  assumes "serves log2 fudge a"
  shows "serves log2 fudge (pps_stage log2 fudge i a)"
proof (cases "fst (pps_poll (ai_pps i) (pps a))")
  case None
  then show ?thesis using serves_same[OF assms] pps_stage_server[of log2 fudge i a] by simp
next
  case (Some ev)
  define d where "d = (case ev of First e \<Rightarrow> None | Delta d e \<Rightarrow> Some d)"
  define e where "e = (case ev of First e \<Rightarrow> e | Delta d e \<Rightarrow> e)"
  have "server (pps_stage log2 fudge i a) = observe_pps_pulse fudge d e (server a)"
    using Some pps_stage_server[of log2 fudge i a] by (cases ev) (simp_all add: d_def e_def)
  then show ?thesis by (intro serves_step[OF assms, of "Pulse d e"]) (simp add: server_step.pulse)
qed

lemma later_stages_server [simp]:
  "server (publish_stage log2 i a) = server a" "server (first_fix_stage a) = server a"
  by (auto simp: publish_stage_def first_fix_stage_def Let_def split: option.split)

lemma app_pass_serves:
  assumes "serves log2 fudge a" "app_pass C L log2 fudge i a = (out, a')"
  shows "serves log2 fudge a'"
proof -
  obtain o1 a1 where n: "ntp_stage log2 i (tz_stage C L (gps_stage C L i a)) = (o1, a1)" by fastforce
  have "serves log2 fudge (tz_stage C L (gps_stage C L i a))"
    using serves_same[OF gps_stage_serves[OF assms(1)]] by (metis tz_stage_server)
  from pps_stage_serves[OF fallback_serves[OF ntp_stage_serves[OF this n]]]
  have "serves log2 fudge (pps_stage log2 fudge i (maybe_apply_rtc_fallback i a1))" .
  then show ?thesis using assms(2) n by (auto simp: app_pass_def intro: serves_same)
qed

lemma boot_serves: "serves log2 fudge (boot_app C L cfg cache rtc storage cidr now_us worker p u)"
proof -
  have "server_run fudge log2 [Boot_Acl cidr] (apply_boot_acl cidr from_socket)"
    using server_run.step[OF server_run.start server_step.boot_acl] by simp
  moreover from this have "server_run fudge log2 [Boot_Acl cidr, Seed secs now_us] (seed_utc_seconds secs now_us (apply_boot_acl cidr from_socket))" for secs
    using server_run.step[OF _ server_step.seed] by fastforce
  ultimately show ?thesis
    by (auto simp: serves_def boot_app_def init_ntp_server_def Let_def split: option.split)
qed

lemma app_serves: "app_reach C L log2 fudge a \<Longrightarrow> serves log2 fudge a"
proof (induction rule: app_reach.induct)
  case (app_next a a')
  then show ?case by (auto elim!: app_stepE intro: app_pass_serves serves_same)
qed (rule boot_serves)

section \<open>The panel's data and the lookups\<close>

text \<open>The snapshot the feed shows after the consumer's calls.\<close>

definition shown :: "gps_event list \<Rightarrow> gps_snapshot \<Rightarrow> gps_snapshot" where
  "shown evs g = foldl (\<lambda>g e. case e of On_Snapshot s \<Rightarrow> s | On_Fix _ \<Rightarrow> g) g evs"

lemma shown_simps [simp]:
  "shown [] g = g" "shown (On_Snapshot s # evs) g = shown evs s" "shown (On_Fix s # evs) g = shown evs g"
  "shown (xs @ ys) g = shown ys (shown xs g)"
  by (simp_all add: shown_def)

lemma handle_line_shown: "handle_line C L cfg l g = (evs, g') \<Longrightarrow> shown evs g = g'"
  by (auto simp: handle_line_def parse_rmc_def parse_gga_def Let_def split: if_splits option.splits prod.splits)

lemma drain_shown: "drain_lines C L cfg buf g = (evs, buf', g') \<Longrightarrow> shown evs g = g'"
proof (induction C L cfg buf g arbitrary: evs buf' g' rule: drain_lines.induct)
  case (1 C L cfg buf g)
  show ?case
  proof (cases "position (\<lambda>c. c = LF) buf")
    case (Some n)
    obtain e1 g1 where h: "handle_line C L cfg (received_line (take n buf)) g = (e1, g1)" by fastforce
    obtain e2 b2 g2 where d: "drain_lines C L cfg (drop (Suc n) buf) g1 = (e2, b2, g2)" by (metis prod_cases3)
    have "shown e2 g1 = g2" using "1.IH"[OF Some h[symmetric] d] by simp
    then show ?thesis using "1.prems" Some h d handle_line_shown[OF h] by (auto simp: drain_lines.simps[of _ _ _ buf])
  qed (use "1.prems" in \<open>simp add: drain_lines.simps[of _ _ _ buf]\<close>)
qed

lemma poll_shown: "gps_poll C L cfg rx u = (evs, u') \<Longrightarrow> shown evs (uart_snapshot u) = uart_snapshot u'"
  by (auto simp: gps_poll_def Let_def split: option.splits if_splits prod.splits dest: drain_shown)

lemma on_fix_feed [simp]: "ui_feed (on_fix g clk a) = ui_feed a" "gps_uart (on_fix g clk a) = gps_uart a"
  by (auto simp: on_fix_def Let_def split: option.split prod.split)

lemma dispatch_feed:
  "feed_gps (ui_feed (dispatch clk n evs a)) = shown evs (feed_gps (ui_feed a))"
  "rtc_write_pending (ui_feed (dispatch clk n evs a)) = rtc_write_pending (ui_feed a)"
  by (induction clk n evs a rule: dispatch.induct) (simp_all add: on_snapshot_def publish_gps_def)

definition worker_inv :: "tz_worker option \<Rightarrow> bool" where
  "worker_inv w \<longleftrightarrow> (case w of None \<Rightarrow> True
     | Some w \<Rightarrow> tz_alive w \<and> length (tz_requests w) + length (tz_results w) = (if tz_pending w then 1 else 0))"

definition app_inv :: "'tz app \<Rightarrow> bool" where
  "app_inv a \<longleftrightarrow> feed_gps (ui_feed a) = uart_snapshot (gps_uart a) \<and> worker_inv (tz_worker a)"

lemma on_fix_worker: "worker_inv (tz_worker a) \<Longrightarrow> worker_inv (tz_worker (on_fix g clk a))"
  by (auto simp: on_fix_def maybe_schedule_timezone_lookup_def try_request_def worker_inv_def Let_def split: option.split prod.split)

lemma dispatch_worker: "worker_inv (tz_worker a) \<Longrightarrow> worker_inv (tz_worker (dispatch clk n evs a))"
  by (induction clk n evs a rule: dispatch.induct) (simp_all add: on_snapshot_def on_fix_worker)

lemma tz_poll_worker: "worker_inv (Some w) \<Longrightarrow> worker_inv (Some (snd (tz_poll w)))"
  by (cases "tz_results w") (auto simp: tz_poll_def worker_inv_def split: if_splits)

lemma lookup_worker: "worker_inv (Some w) \<Longrightarrow> worker_inv (Some (worker_lookup http w))"
  by (cases "tz_requests w") (auto simp: worker_lookup_def worker_inv_def split: if_splits)

lemma gps_stage_inv:
  assumes "app_inv a"
  shows "app_inv (gps_stage C L i a)"
proof -
  obtain evs u where p: "gps_poll C L (tz_cfg a) (ai_rx i) (gps_uart a) = (evs, u)" by fastforce
  show ?thesis using assms p poll_shown[OF p] dispatch_feed(1)[of "ai_fix_clock i" 0 evs a] dispatch_worker[of a "ai_fix_clock i" 0 evs]
    by (simp add: app_inv_def gps_stage_def)
qed

lemma tz_stage_frame:
  "gps_fix (uart_snapshot (gps_uart (tz_stage C L a))) = gps_fix (uart_snapshot (gps_uart a))"
  "utc_unix_seconds (uart_snapshot (gps_uart (tz_stage C L a))) = utc_unix_seconds (uart_snapshot (gps_uart a))"
  "rtc_write_pending (ui_feed (tz_stage C L a)) = rtc_write_pending (ui_feed a)" "pps (tz_stage C L a) = pps a"
  "rtc_present (tz_stage C L a) = rtc_present a" "rtc_seeded_from_gps (tz_stage C L a) = rtc_seeded_from_gps a"
  "tz_worker (tz_stage C L a) = map_option (\<lambda>w. snd (tz_poll w)) (tz_worker a)"
  by (auto simp: tz_stage_def Let_def publish_gps_def split: option.split prod.split)

lemma tz_stage_feed:
  "feed_gps (ui_feed a) = uart_snapshot (gps_uart a) \<Longrightarrow>
   feed_gps (ui_feed (tz_stage C L a)) = uart_snapshot (gps_uart (tz_stage C L a))"
  by (auto simp: tz_stage_def Let_def publish_gps_def split: option.split prod.split)

lemma tz_stage_inv:
  assumes "app_inv a"
  shows "app_inv (tz_stage C L a)"
proof -
  have "worker_inv (tz_worker (tz_stage C L a))"
    using assms tz_poll_worker by (cases "tz_worker a") (auto simp: app_inv_def tz_stage_frame(7))
  with assms tz_stage_feed[of a C L] show ?thesis by (simp add: app_inv_def)
qed

text \<open>The stages after it leave parser, worker and GPS sample alone.\<close>

definition same_view :: "'tz app \<Rightarrow> 'tz app \<Rightarrow> bool" where
  "same_view a a' \<longleftrightarrow> gps_uart a' = gps_uart a \<and> tz_worker a' = tz_worker a \<and> feed_gps (ui_feed a') = feed_gps (ui_feed a) \<and>
     rtc_present a' = rtc_present a"

lemma same_view_inv: "same_view a a' \<Longrightarrow> app_inv a \<Longrightarrow> app_inv a'"
  by (simp add: same_view_def app_inv_def)

lemma same_view_trans: "same_view a b \<Longrightarrow> same_view b c \<Longrightarrow> same_view a c"
  by (simp add: same_view_def)

lemma stage_views:
  "ntp_stage log2 i a = (out, a') \<Longrightarrow> same_view a a'"
  "same_view a (maybe_apply_rtc_fallback i a)"
  "same_view a (maybe_writeback_rtc log2 i now a)"
  "same_view a (publish_stage log2 i a)"
  "same_view a (first_fix_stage a)"
  by (auto simp: same_view_def ntp_stage_def maybe_apply_rtc_fallback_def maybe_writeback_rtc_def publish_stage_def first_fix_stage_def
      publish_ntp_def request_rtc_write_def Let_def split: prod.splits if_splits option.splits)

lemmas writeback_view [simp] = stage_views(3)[unfolded same_view_def, THEN conjunct1]
  stage_views(3)[unfolded same_view_def, THEN conjunct2, THEN conjunct1]
  stage_views(3)[unfolded same_view_def, THEN conjunct2, THEN conjunct2, THEN conjunct1]
  stage_views(3)[unfolded same_view_def, THEN conjunct2, THEN conjunct2, THEN conjunct2]

lemma pps_stage_view: "same_view a (pps_stage log2 fudge i a)"
  by (auto simp: pps_stage_def Let_def same_view_def publish_ntp_def publish_pps_delta_def
      split: prod.split option.split pps_event.split)

lemma app_pass_inv:
  assumes "app_inv a" "app_pass C L log2 fudge i a = (out, a')"
  shows "app_inv a'"
proof -
  obtain o1 a1 where n: "ntp_stage log2 i (tz_stage C L (gps_stage C L i a)) = (o1, a1)" by fastforce
  have "app_inv a1" using same_view_inv[OF stage_views(1)[OF n] tz_stage_inv[OF gps_stage_inv[OF assms(1)]]] .
  moreover have "same_view a1 (first_fix_stage (publish_stage log2 i (pps_stage log2 fudge i (maybe_apply_rtc_fallback i a1))))"
    by (rule same_view_trans[OF same_view_trans[OF same_view_trans[OF stage_views(2) pps_stage_view] stage_views(4)] stage_views(5)])
  moreover have "a' = first_fix_stage (publish_stage log2 i (pps_stage log2 fudge i (maybe_apply_rtc_fallback i a1)))"
    using assms(2) n by (simp add: app_pass_def)
  ultimately show ?thesis using same_view_inv by blast
qed

lemma boot_inv: "app_inv (boot_app C L cfg cache rtc storage cidr now_us worker p u)"
  by (auto simp: app_inv_def boot_app_def worker_inv_def tz_spawn_def publish_gps_def discard_backlog_def set_snapshot_def Let_def)

lemma app_reach_inv: "app_reach C L log2 fudge a \<Longrightarrow> app_inv a"
proof (induction rule: app_reach.induct)
  case (app_next a a')
  from app_next(2) show ?case
  proof (cases rule: app_step.cases)
    case (lookup_thread w http)
    then show ?thesis using app_next lookup_worker[of w http] by (simp add: app_inv_def)
  next
    case (panel_task f)
    then show ?thesis using app_next by (simp add: app_inv_def panel_update_def)
  qed (use app_next app_pass_inv in blast)
qed (rule boot_inv)

text \<open>C4: The firmware refines the server's state machine: in every state the main loop can reach,
  together with the lookup thread and the panel task, the NTP server's state is one that a history of
  its own operations produces, so everything proved of all such histories holds of the running device;
  the panel shows exactly the GPS data the parser holds, and at most one time-zone lookup is in flight.\<close>

theorem firmware_refines_server:
  assumes "app_reach C L log2 fudge a"
  shows "(\<exists>h. server_run fudge log2 h (server a)) \<and> feed_gps (ui_feed a) = uart_snapshot (gps_uart a) \<and>
    (\<forall>w. tz_worker a = Some w \<longrightarrow> length (tz_requests w) + length (tz_results w) = (if tz_pending w then 1 else 0))"
  using app_serves[OF assms] app_reach_inv[OF assms] by (auto simp: serves_def app_inv_def worker_inv_def)

end
