(* ===== verification/App_Props.thy ===== *)
theory App_Props
  imports App_Runs
begin

text \<open>End-to-end properties of a pass of the main loop.\<close>

definition bare_boot :: "unit app" where
  "bare_boot = boot_app gregorian no_tz utc_config
     \<lparr>nvs_store = False, nvs_ok = False, nvs_tz = None, tz_card_ready = False, sd_write_ok = False, sd_tz = None\<rparr>
     \<lparr>present = False, boot_utc = None\<rparr> storage_status_default ''0.0.0.0/0'' 0 True pps_poll_default
     \<lparr>uart_snapshot = gps_snapshot_default, line_buf = [], bytes_seen = 0\<rparr>"

theorem firmware_refines_server_witness:
  "(\<exists>h. server_run 1 id h (server bare_boot)) \<and> feed_gps (ui_feed bare_boot) = uart_snapshot (gps_uart bare_boot)"
proof -
  have "app_reach gregorian no_tz id 1 bare_boot" unfolding bare_boot_def by (rule app_boot)
  from firmware_refines_server[OF this] show ?thesis by blast
qed

section \<open>When the RTC is written\<close>

lemma ntp_stage_pending:
  "ntp_stage log2 i a = (out, a') \<Longrightarrow> rtc_write_pending (ui_feed a') = rtc_write_pending (ui_feed a) \<and>
     rtc_seeded_from_gps a' = rtc_seeded_from_gps a"
  by (auto simp: ntp_stage_def publish_ntp_def Let_def split: prod.splits if_splits)

lemma fallback_pending:
  "rtc_write_pending (ui_feed (maybe_apply_rtc_fallback i a)) = rtc_write_pending (ui_feed a)"
  "rtc_seeded_from_gps (maybe_apply_rtc_fallback i a) = rtc_seeded_from_gps a"
  by (auto simp: maybe_apply_rtc_fallback_def Let_def split: option.split)

lemma on_fix_seeded [simp]: "rtc_seeded_from_gps (on_fix g clk a) = rtc_seeded_from_gps a" "rtc_present (on_fix g clk a) = rtc_present a"
  by (auto simp: on_fix_def Let_def split: option.split prod.split)

lemma dispatch_seeded:
  "rtc_seeded_from_gps (dispatch clk n evs a) = rtc_seeded_from_gps a" "rtc_present (dispatch clk n evs a) = rtc_present a"
  by (induction clk n evs a rule: dispatch.induct) (simp_all add: on_snapshot_def)

lemma gps_stage_pending:
  "rtc_write_pending (ui_feed (gps_stage C L i a)) = rtc_write_pending (ui_feed a)"
  "rtc_seeded_from_gps (gps_stage C L i a) = rtc_seeded_from_gps a" "rtc_present (gps_stage C L i a) = rtc_present a"
  by (auto simp: gps_stage_def dispatch_feed(2) dispatch_seeded split: prod.split)

lemma publish_pending:
  "rtc_write_pending (ui_feed (publish_stage log2 i a)) = rtc_write_pending (ui_feed a)"
  "rtc_seeded_from_gps (publish_stage log2 i a) = rtc_seeded_from_gps a"
  by (auto simp: publish_stage_def publish_ntp_def)

definition locked_time :: "(fp \<Rightarrow> fp) \<Rightarrow> app_input \<Rightarrow> 'tz app \<Rightarrow> int \<Rightarrow> bool" where
  "locked_time log2 i a t \<longleftrightarrow> gps_fix (uart_snapshot (gps_uart a)) \<and>
     ns_state (snapshot_at log2 True (ai_writeback_snap i) (server a)) = Locked \<and>
     current_utc_unix_seconds (ai_writeback_us i) (server a) = Some t"

lemma writeback_pending:
  "rtc_write_pending (ui_feed (maybe_writeback_rtc log2 i n a)) = rtc_write_pending (ui_feed a) \<or>
   locked_time log2 i a (rtc_write_pending (ui_feed (maybe_writeback_rtc log2 i n a)))"
  "rtc_seeded_from_gps (maybe_writeback_rtc log2 i n a) = rtc_seeded_from_gps a"
  by (auto simp: maybe_writeback_rtc_def locked_time_def request_rtc_write_def Let_def split: option.split)

lemma locked_time_cong:
  "server b = server a \<Longrightarrow> gps_uart b = gps_uart a \<Longrightarrow> locked_time log2 i b t = locked_time log2 i a t"
  by (simp add: locked_time_def)

lemma pps_stage_pending:
  "rtc_write_pending (ui_feed (pps_stage log2 fudge i a)) = rtc_write_pending (ui_feed a) \<or>
   locked_time log2 i (pps_stage log2 fudge i a) (rtc_write_pending (ui_feed (pps_stage log2 fudge i a)))"
  "rtc_seeded_from_gps (pps_stage log2 fudge i a) = rtc_seeded_from_gps a"
proof -
  obtain ev st where p: "pps_poll (ai_pps i) (pps a) = (ev, st)" by fastforce
  have *: "(rtc_write_pending (ui_feed (pps_stage log2 fudge i a)) = rtc_write_pending (ui_feed a) \<or>
      locked_time log2 i (pps_stage log2 fudge i a) (rtc_write_pending (ui_feed (pps_stage log2 fudge i a)))) \<and>
      rtc_seeded_from_gps (pps_stage log2 fudge i a) = rtc_seeded_from_gps a"
  proof (cases ev)
    case None
    then show ?thesis using p by (simp add: pps_stage_def)
  next
    case (Some e)
    obtain b n where b: "pps_stage log2 fudge i a = maybe_writeback_rtc log2 i n b"
      "rtc_write_pending (ui_feed b) = rtc_write_pending (ui_feed a)" "rtc_seeded_from_gps b = rtc_seeded_from_gps a"
      using p Some by (cases e) (auto simp: pps_stage_def publish_ntp_def publish_pps_delta_def Let_def)
    have "locked_time log2 i (maybe_writeback_rtc log2 i n b) t = locked_time log2 i b t" for t
      by (rule locked_time_cong) simp_all
    then show ?thesis using writeback_pending[of log2 i n b] b by metis
  qed
  show "rtc_write_pending (ui_feed (pps_stage log2 fudge i a)) = rtc_write_pending (ui_feed a) \<or>
   locked_time log2 i (pps_stage log2 fudge i a) (rtc_write_pending (ui_feed (pps_stage log2 fudge i a)))"
    "rtc_seeded_from_gps (pps_stage log2 fudge i a) = rtc_seeded_from_gps a"
    using * by blast+
qed

text \<open>C13: The RTC only ever receives trusted time: when a pass of the main loop asks for an RTC write of a
  new value, GPS has a fix, and the value is either the current time of a server that is locked, or, the
  first time, on a board whose clock chip had no time, the UTC second of the fix.\<close>

theorem rtc_written_trusted:
  assumes "app_pass C L log2 fudge i a = (out, a')" "rtc_write_pending (ui_feed a') \<noteq> rtc_write_pending (ui_feed a)"
  shows "gps_fix (uart_snapshot (gps_uart a')) \<and>
    (ns_state (snapshot_at log2 True (ai_writeback_snap i) (server a')) = Locked \<and>
       current_utc_unix_seconds (ai_writeback_us i) (server a') = Some (rtc_write_pending (ui_feed a')) \<or>
     rtc_present a \<and> \<not> rtc_seeded_from_gps a \<and>
       utc_unix_seconds (uart_snapshot (gps_uart a')) = Some (rtc_write_pending (ui_feed a')))"
proof -
  obtain o1 a1 where n: "ntp_stage log2 i (tz_stage C L (gps_stage C L i a)) = (o1, a1)" by fastforce
  let ?b = "pps_stage log2 fudge i (maybe_apply_rtc_fallback i a1)"
  let ?c = "publish_stage log2 i ?b"
  have a': "a' = first_fix_stage ?c" using assms(1) n by (simp add: app_pass_def)
  have p: "rtc_write_pending (ui_feed (maybe_apply_rtc_fallback i a1)) = rtc_write_pending (ui_feed a)"
    "rtc_seeded_from_gps ?c = rtc_seeded_from_gps a"
    using ntp_stage_pending[OF n]
    by (simp_all add: fallback_pending publish_pending pps_stage_pending(2) tz_stage_frame gps_stage_pending)
  have v: "same_view a1 ?c"
    by (rule same_view_trans[OF same_view_trans[OF stage_views(2) pps_stage_view] stage_views(4)])
  have r: "rtc_present ?c = rtc_present a"
    using v stage_views(1)[OF n] by (simp add: same_view_def tz_stage_frame gps_stage_pending)
  have c: "rtc_write_pending (ui_feed ?c) = rtc_write_pending (ui_feed a) \<or> locked_time log2 i ?c (rtc_write_pending (ui_feed ?c))"
  proof -
    have "locked_time log2 i ?c t = locked_time log2 i ?b t" for t
      using stage_views(4)[of ?b log2 i] by (intro locked_time_cong) (simp_all add: same_view_def)
    then show ?thesis using pps_stage_pending(1)[of log2 fudge i "maybe_apply_rtc_fallback i a1"] p(1)
      by (simp add: publish_pending)
  qed
  have f: "gps_uart a' = gps_uart ?c" "server a' = server ?c" using a' stage_views(5)[of ?c] by (simp_all add: same_view_def)
  have "rtc_write_pending (ui_feed a') = rtc_write_pending (ui_feed ?c) \<or>
      gps_fix (uart_snapshot (gps_uart ?c)) \<and> rtc_present ?c \<and> \<not> rtc_seeded_from_gps ?c \<and>
      utc_unix_seconds (uart_snapshot (gps_uart ?c)) = Some (rtc_write_pending (ui_feed a'))"
    unfolding a' first_fix_stage_def Let_def by (auto simp: request_rtc_write_def split: option.split)
  then show ?thesis using assms(2) c p(2) r f by (auto simp: locked_time_def)
qed


definition quiet_input :: app_input where
  "quiet_input = \<lparr>ai_rx = None, ai_fix_clock = (\<lambda>_. (0, 0)), ai_socket = [], ai_served_us = 0, ai_fallback_us = 0, ai_seed_us = 0,
     ai_pps = (0, 0), ai_pps_publish_us = 0, ai_writeback_us = 0, ai_now_us = 0, ai_served_snap = (0, 0, None),
     ai_pps_snap = (0, 0, None), ai_writeback_snap = (0, 0, None), ai_tick_snap = (0, 0, None)\<rparr>"

lemma quiet_stages:
  "gps_stage C L quiet_input a = a" "last_ntp_served a = 0 \<Longrightarrow> served (server a) = 0 \<Longrightarrow> ntp_stage log2 quiet_input a = ([], a)"
  "pps_stage log2 fudge quiet_input a = a" "last_ntp_publish_us a = 0 \<Longrightarrow> publish_stage log2 quiet_input a = a"
  by (simp_all add: gps_stage_def gps_poll_def quiet_input_def ntp_stage_def poll_def Let_def pps_stage_def pps_poll_def publish_stage_def
      wrap_i64_def split: prod.split)

theorem rtc_written_trusted_witness:
  "\<exists>out a'. app_pass gregorian no_tz id 1 quiet_input
      (bare_boot\<lparr>rtc_present := True, gps_uart := (gps_uart bare_boot)\<lparr>uart_snapshot :=
         gps_snapshot_default\<lparr>gps_fix := True, utc_unix_seconds := Some 1717770645\<rparr>\<rparr>\<rparr>) = (out, a') \<and>
    gps_fix (uart_snapshot (gps_uart a')) \<and> rtc_write_pending (ui_feed a') = 1717770645"
proof -
  let ?a = "bare_boot\<lparr>rtc_present := True, gps_uart := (gps_uart bare_boot)\<lparr>uart_snapshot :=
         gps_snapshot_default\<lparr>gps_fix := True, utc_unix_seconds := Some 1717770645\<rparr>\<rparr>\<rparr>"
  have b: "tz_worker ?a = Some tz_spawn" "last_ntp_served ?a = 0" "served (server ?a) = 0" "last_ntp_publish_us ?a = 0"
    "rtc_write_pending (ui_feed ?a) = 0" "\<not> first_fix_logged ?a" "\<not> rtc_seeded_from_gps ?a"
    by (simp_all add: bare_boot_def boot_app_def Let_def init_ntp_server_def apply_boot_acl_def set_acl_def from_socket_def
        publish_gps_def feed_new_def)
  have t: "tz_stage gregorian no_tz ?a = ?a\<lparr>tz_worker := Some tz_spawn\<rparr>" using b(1) by (simp add: tz_stage_def tz_poll_def tz_spawn_def)
  obtain out a' where r: "app_pass gregorian no_tz id 1 quiet_input ?a = (out, a')" by fastforce
  have v: "rtc_write_pending (ui_feed a') = 1717770645"
    using r b by (auto simp: app_pass_def quiet_stages t maybe_apply_rtc_fallback_def first_fix_stage_def request_rtc_write_def)
  with rtc_written_trusted[OF r] b(5) r show ?thesis by auto
qed

section \<open>From the sentence to the clock\<close>

lemma rmc_line_poll:
  assumes "calendar C" "nmea_checksum_valid s" "prefix ''$GNRMC'' s \<or> prefix ''$GPRMC'' s" "split_char (CHR '','') s = fs" "10 \<le> length fs"
    and "fs ! 2 = ''A''" "fs ! 1 = pad2 h @ pad2 mi @ pad2 sec @ r" "fs ! 9 = pad2 d @ pad2 mo @ pad2 yy @ r'"
    and "d < 100" "mo < 100" "yy < 100" "h < 100" "mi < 100" "sec < 100" "valid_civil (2000 + int yy, mo, d, h, mi, sec)"
    and "LF \<notin> set s" "\<not> ascii_ws (byte_of (last s))" "line_buf u = []"
  obtains g u' where "gps_poll C L cfg (Some (s @ [char_of (13 :: nat), LF])) u = ([On_Snapshot g, On_Fix g], u')"
    "gps_fix g" "utc_unix_seconds g = Some (civil_seconds (2000 + int yy, mo, d, h, mi, sec))" "uart_snapshot u' = g"
proof -
  have asc: "is_ascii s" using checksum_ascii[OF assms(2)] .
  obtain s' where s': "s = CHR ''$'' # s'" using assms(3) by (auto simp: prefix_def)
  have d: "prefix ''$'' s" by (simp add: s')
  have "last s \<in> set s" using s' by (intro last_in_set) simp
  then have last: "byte_of (last s) < 128" using asc by (simp add: is_ascii_def list_all_iff)
  have "rev s = last s # rev (butlast s)" using s' by (metis append_butlast_last_id list.distinct(1) rev_eq_Cons_iff rev_rev_ident)
  then have l: "ws_last (rev s) = 0" using last_ascii[OF last assms(17)] by metis
  have hd0: "ws_head s = 0" unfolding s' by (cases s' rule: ws_head.cases) (auto simp: ascii_ws_def ws3_def split: list.split)
  have line: "received_line (s @ [char_of (13 :: nat)]) = s" using received_line_cr[of s] hd0 l s' by simp
  have cr: "char_of (13 :: nat) \<noteq> LF" by (simp add: LF_def)
  have pos: "position (\<lambda>c. c = LF) (s @ [char_of (13 :: nat), LF]) = Some (Suc (length s))"
    using position_first[of LF "s @ [char_of (13 :: nat)]" "[]"] assms(16) cr by simp
  obtain ok g where p: "parse_rmc C L cfg s (uart_snapshot u) = (ok, g)" by fastforce
  have g: "ok" "gps_fix g" "utc_unix_seconds g = Some (civil_seconds (2000 + int yy, mo, d, h, mi, sec))"
    using rmc_outcome[OF assms(1,4) assms(9-14) assms(7,8), where L = L and cfg = cfg and gps = "uart_snapshot u"] assms(2,5,6,15) p by simp_all
  have hl: "handle_line C L cfg s (uart_snapshot u) = ([On_Snapshot g, On_Fix g], g)"
    using assms(3) d p g(1,2) by (simp add: handle_line_def)
  have e: "drain_lines C L cfg [] g = ([], [], g)" by (simp add: drain_lines.simps)
  have dl: "drain_lines C L cfg (s @ [char_of (13 :: nat), LF]) (uart_snapshot u) = ([On_Snapshot g, On_Fix g], [], g)"
    by (subst drain_lines.simps) (simp add: pos line hl e)
  have "utf8_valid (s @ [char_of (13 :: nat), LF])" using asc by (intro utf8_ascii) (simp add: LF_def)
  then show thesis
    using that[of g "u\<lparr>bytes_seen := bytes_seen u + of_nat (length (s @ [char_of (13 :: nat), LF])), line_buf := [], uart_snapshot := g\<rparr>"]
      dl g assms(18) by (simp add: gps_poll_def Let_def)
qed

lemma first_pulse_locks:
  assumes "last_gps_utc_seconds s = Some utc" "last_gps_utc_update_us s = Some t" "0 \<le> t" "0 \<le> edge - t" "edge - t < 2000000"
    and "in_i64 (utc + 2 + fudge)" "in_i64 utc" "0 \<le> fudge" "fudge \<le> 1" "in_i64 edge"
  shows "pps_locked (observe_pps_pulse fudge None edge s) \<and> clock_anchor (observe_pps_pulse fudge None edge s) =
    Some \<lparr>unix_seconds = utc + (edge - t) div 1000000 + fudge, monotonic_us = edge\<rparr>"
proof -
  have s: "sat_sub edge t = edge - t" by (rule sat_sub_id) (use assms in \<open>auto simp: in_i64_def i64_min_def i64_max_def\<close>)
  have w: "0 \<le> (edge - t) div 1000000" "(edge - t) div 1000000 \<le> 1" using assms(4,5) by auto
  have a: "sat_add (sat_add utc ((edge - t) div 1000000)) fudge = utc + (edge - t) div 1000000 + fudge"
    using w assms(6-9) sat_add_id[of utc "(edge - t) div 1000000"] sat_add_id[of "utc + (edge - t) div 1000000" fudge]
    by (auto simp: in_i64_def)
  have "gps_second_at_edge fudge edge s = Some (utc + (edge - t) div 1000000 + fudge)"
    using assms(1,2,5) s a by (simp add: gps_second_at_edge_def gps_time_fresh_def GPS_STALE_THRESHOLD_US_def MICROS_PER_SEC_def)
  then show ?thesis by (simp add: observe_pps_pulse_def lock_anchor_def)
qed

lemma civil_i64:
  assumes "valid_civil (2000 + int yy, mo, d, h, mi, sec)" "yy < 100" "0 \<le> fudge" "fudge \<le> 1"
  shows "in_i64 (civil_seconds (2000 + int yy, mo, d, h, mi, sec))"
    "in_i64 (civil_seconds (2000 + int yy, mo, d, h, mi, sec) + 2 + fudge)"
proof -
  let ?t = "civil_seconds (2000 + int yy, mo, d, h, mi, sec)" let ?y = "2000 + int yy"
  have "greg_year (?t div 86400) = ?y" using year_of_seconds[of ?t] greg_fields_civil[OF assms(1)] by simp
  then have b: "year_start ?y \<le> ?t div 86400" "?t div 86400 < year_start (?y + 1)"
    using greg_year_bounds[of "?t div 86400"] by auto
  have "year_start 2000 \<le> year_start ?y" "year_start (?y + 1) \<le> year_start 2101"
    using assms(2) year_start_mono[of 1999 ?y] year_start_mono[of ?y 2101] by simp_all
  moreover have "year_start 2000 = 10957" "year_start 2101 = 47847" by (simp_all add: year_start_def)
  ultimately have "10957 \<le> ?t div 86400" "?t div 86400 < 47847" using b by linarith+
  then have "0 \<le> ?t" "?t \<le> 5000000000" by linarith+
  with assms(3,4) show "in_i64 ?t" "in_i64 (?t + 2 + fudge)" by (simp_all add: in_i64_def i64_min_def i64_max_def)
qed

text \<open>A pass that reads a fix and then sees the first pulse.\<close>

lemma fix_then_pulse:
  assumes "gps_poll C L (tz_cfg a) (ai_rx i) (gps_uart a) = ([On_Snapshot g, On_Fix g], u)" "gps_fix g" "utc_unix_seconds g = Some utc"
    and "uart_snapshot u = g" "pps a = pps_poll_default" "0 < fst (ai_pps i)" "app_pass C L log2 fudge i a = (out, a')"
  shows "server a' = observe_pps_pulse fudge None (sint (snd (ai_pps i)))
    (snd (snd (poll log2 True (ai_socket i) (update_gps_utc_seconds utc (fst (ai_fix_clock i 0)) (server a)))))"
proof -
  let ?a1 = "tz_stage C L (gps_stage C L i a)"
  have s1: "server ?a1 = update_gps_utc_seconds utc (fst (ai_fix_clock i 0)) (server a)"
    "gps_fix (uart_snapshot (gps_uart ?a1))" "pps ?a1 = pps a"
    using assms(1-4) by (auto simp: tz_stage_frame gps_stage_def on_snapshot_def on_fix_def Let_def split: option.split prod.split)
  obtain o1 a2 where n: "ntp_stage log2 i ?a1 = (o1, a2)" by fastforce
  have 2: "server a2 = snd (snd (poll log2 True (ai_socket i) (server ?a1)))" "pps a2 = pps a"
    using n s1(2,3) by (auto simp: ntp_stage_def Let_def split: if_splits prod.splits)
  have fb: "maybe_apply_rtc_fallback i a2 = a2"
    using stage_views(1)[OF n] s1(2) by (simp add: maybe_apply_rtc_fallback_def Let_def same_view_def)
  have "fst (pps_poll (ai_pps i) (pps a2)) = Some (First (sint (snd (ai_pps i))))"
    using assms(5,6) 2(2) by (cases "ai_pps i") (simp add: pps_poll_def pps_poll_default_def not_le word_gt_0)
  then have "server (pps_stage log2 fudge i a2) = observe_pps_pulse fudge None (sint (snd (ai_pps i))) (server a2)"
    by (simp add: pps_stage_server)
  moreover have "server a' = server (pps_stage log2 fudge i a2)" using assms(7) n fb by (auto simp: app_pass_def)
  ultimately show ?thesis using 2(1) s1(1) by simp
qed




definition oslo_line :: string where
  "oslo_line = ''$GPRMC,120000.000,A,5954.00,N,01044.00,E,0.00,0.00,070624,,,A'' @ ''*'' @
     hex_fixed 2 (unat (xor_bytes ''GPRMC,120000.000,A,5954.00,N,01044.00,E,0.00,0.00,070624,,,A''))"

lemma oslo_checksum: "nmea_checksum_valid oslo_line"
  using checksum_frame[of "''GPRMC,120000.000,A,5954.00,N,01044.00,E,0.00,0.00,070624,,,A''"]
  by (simp add: oslo_line_def)

lemma oslo_facts:
  "10 \<le> length (split_char (CHR '','') oslo_line)" "split_char (CHR '','') oslo_line ! 2 = ''A''"
  "split_char (CHR '','') oslo_line ! 1 = pad2 12 @ pad2 0 @ pad2 0 @ ''.000''"
  "split_char (CHR '','') oslo_line ! 9 = pad2 7 @ pad2 6 @ pad2 24 @ []"
  "valid_civil (2000 + int 24, 6, 7, 12, 0, 0)" "civil_seconds (2000 + int 24, 6, 7, 12, 0, 0) = 1717761600"
  "prefix ''$GNRMC'' oslo_line \<or> prefix ''$GPRMC'' oslo_line" "LF \<notin> set oslo_line" "\<not> ascii_ws (byte_of (last oslo_line))"
  by code_simp+


end
