(* ===== verification/Sd_Worker.thy ===== *)
theory Sd_Worker
  imports Storage
begin

text \<open>The SD worker (\<open>call\<close>, \<open>worker_main\<close> and the job channel in storage.rs): tasks queue operations on the card and
  wait, one thread runs them. Tasks and worker are interleaved step by step; an operation is a sequence of
  changes of the card, between which any task may run.\<close>

section \<open>A call and its operation\<close>

text \<open>
  The operation of a call, as the state changes of the card it makes in order; \<open>Inline_Call\<close> is a
  \<open>storage::call\<close> made from inside it, which runs on the spot. The value is read when it is done.
\<close>

datatype 's sd_op = Fs "'s \<Rightarrow> 's" | Inline_Call string "'s sd_op list"

record ('s, 'v) sd_job =
  job_client :: nat
  job_label :: string
  job_ops :: "'s sd_op list"
  job_value :: "'s \<Rightarrow> 'v"

text \<open>Where a call goes (\<open>call\<close>): \<open>worker\<close> is \<open>SD_WORKER_TASK\<close>, 0 before the worker runs; \<open>this\<close> the calling
  task; then whether \<open>SD_JOBS\<close> is set and whether its receiver still exists.\<close>

datatype sd_entry = Run_Inline | Queue_And_Wait | Restart_Chip string

definition on_sd_worker :: "nat \<Rightarrow> nat \<Rightarrow> bool" where
  "on_sd_worker worker this \<longleftrightarrow> worker \<noteq> 0 \<and> worker = this"

definition sd_call :: "nat \<Rightarrow> nat \<Rightarrow> bool \<Rightarrow> bool \<Rightarrow> sd_entry" where
  "sd_call worker this jobs_set receiver_alive =
     (if on_sd_worker worker this then Run_Inline
      else if \<not> jobs_set then Restart_Chip ''sd worker missing''
      else if \<not> receiver_alive then Restart_Chip ''sd worker stopped''
      else Queue_And_Wait)"

text \<open>The steps of the worker inside an operation: a change of the card, and the deadline armed and
  dropped around an inline call.\<close>

datatype 's micro = Do "'s \<Rightarrow> 's" | Enter string | Leave

fun op_code :: "'s sd_op \<Rightarrow> 's micro list" where
  "op_code (Fs f) = [Do f]"
| "op_code (Inline_Call l ops) = Enter l # concat (map op_code ops) @ [Leave]"

abbreviation ops_code :: "'s sd_op list \<Rightarrow> 's micro list" where
  "ops_code ops \<equiv> concat (map op_code ops)"

text \<open>What the operation does to the card when nothing else runs.\<close>

fun exec_op :: "'s sd_op \<Rightarrow> 's \<Rightarrow> 's" where
  "exec_op (Fs f) s = f s"
| "exec_op (Inline_Call l ops) s = fold exec_op ops s"

definition exec_job :: "('s, 'v) sd_job \<Rightarrow> 's \<Rightarrow> 's" where
  "exec_job j s = fold exec_op (job_ops j) s"

text \<open>Jobs run one at a time, each to its end, with the answers.\<close>

fun run_jobs :: "('s, 'v) sd_job list \<Rightarrow> 's \<Rightarrow> (('s, 'v) sd_job \<times> 'v) list \<times> 's" where
  "run_jobs [] s = ([], s)"
| "run_jobs (j # js) s =
     (case run_jobs js (exec_job j s) of (as, s') \<Rightarrow> ((j, job_value j (exec_job j s)) # as, s'))"

section \<open>Clients and worker\<close>

text \<open>The program counter of \<open>worker_main\<close>: the free-space request is looked at, a sample is being read, the
  channel is waited on, a job runs (with the steps left), its answer is sent and the deadline still armed.\<close>

datatype ('s, 'v) worker_pc =
  W_Top | W_Sample | W_Recv | W_Run "('s, 'v) sd_job" "'s micro list" | W_Answered

datatype client_pc = C_Idle | C_Waiting

text \<open>\<open>io_submitted\<close>, \<open>io_answered\<close> and \<open>io_received\<close> record the history and are read by no step.\<close>

record ('s, 'v) sd_sys =
  io_card :: 's
  io_task :: nat
  io_pc :: "('s, 'v) worker_pc"
  io_queue :: "('s, 'v) sd_job list"
  io_watch :: sd_watch
  io_usage :: usage_state
  io_client :: "nat \<Rightarrow> client_pc"
  io_reply :: "nat \<Rightarrow> 'v option"
  io_submitted :: "('s, 'v) sd_job list"
  io_answered :: "(('s, 'v) sd_job \<times> 'v) list"
  io_received :: "nat \<Rightarrow> 'v list"

definition sd_start :: "'s \<Rightarrow> nat \<Rightarrow> usage_state \<Rightarrow> ('s, 'v) sd_sys" where
  "sd_start s task u = \<lparr>io_card = s, io_task = task, io_pc = W_Top, io_queue = [], io_watch = sd_watch_idle, io_usage = u,
     io_client = (\<lambda>_. C_Idle), io_reply = (\<lambda>_. None), io_submitted = [], io_answered = [], io_received = (\<lambda>_. [])\<rparr>"

definition submit :: "('s, 'v) sd_job \<Rightarrow> ('s, 'v) sd_sys \<Rightarrow> ('s, 'v) sd_sys" where
  "submit j m = m\<lparr>io_queue := io_queue m @ [j], io_client := (io_client m)(job_client j := C_Waiting), io_submitted := io_submitted m @ [j]\<rparr>"

definition receive :: "nat \<Rightarrow> 'v \<Rightarrow> ('s, 'v) sd_sys \<Rightarrow> ('s, 'v) sd_sys" where
  "receive c v m = m\<lparr>io_client := (io_client m)(c := C_Idle), io_reply := (io_reply m)(c := None),
     io_received := (io_received m)(c := io_received m c @ [v])\<rparr>"

fun micro_step :: "int \<Rightarrow> 's micro \<Rightarrow> ('s, 'v) sd_sys \<Rightarrow> ('s, 'v) sd_sys" where
  "micro_step now_us (Do f) m = m\<lparr>io_card := f (io_card m)\<rparr>"
| "micro_step now_us (Enter l) m = m\<lparr>io_watch := deadline_arm l now_us (io_watch m)\<rparr>"
| "micro_step now_us Leave m = m\<lparr>io_watch := deadline_drop (io_watch m)\<rparr>"

text \<open>A step of the worker; the clock reading arms a deadline, \<open>fs\<close> is what the file system answers a sample.\<close>

definition worker_step :: "int \<Rightarrow> bool \<times> (u64 \<times> u64) option \<Rightarrow> ('s, 'v) sd_sys \<Rightarrow> ('s, 'v) sd_sys" where
  "worker_step now_us fs m =
     (case io_pc m of
        W_Top \<Rightarrow>
          (let requested = usage_refresh (io_usage m); m = m\<lparr>io_usage := (io_usage m)\<lparr>usage_refresh := False\<rparr>\<rparr>
           in if requested \<and> card_ready (io_usage m)
              then m\<lparr>io_watch := deadline_arm ''sd space'' now_us (io_watch m), io_pc := W_Sample\<rparr>
              else m\<lparr>io_pc := W_Recv\<rparr>)
      | W_Sample \<Rightarrow>
          (let status = refresh (fst fs) (snd fs) (last_usage (io_usage m))
           in m\<lparr>io_watch := deadline_drop (io_watch m), io_pc := W_Recv,
                io_usage := (io_usage m)\<lparr>last_usage := status, pending_usage := Some status\<rparr>\<rparr>)
      | W_Recv \<Rightarrow>
          (case io_queue m of
             [] \<Rightarrow> m\<lparr>io_pc := W_Top\<rparr>
           | j # js \<Rightarrow> m\<lparr>io_queue := js, io_watch := deadline_arm (job_label j) now_us (io_watch m), io_pc := W_Run j (ops_code (job_ops j))\<rparr>)
      | W_Run j (x # xs) \<Rightarrow> (micro_step now_us x m)\<lparr>io_pc := W_Run j xs\<rparr>
      | W_Run j [] \<Rightarrow>
          (let v = job_value j (io_card m)
           in m\<lparr>io_reply := (io_reply m)(job_client j := Some v), io_answered := io_answered m @ [(j, v)], io_pc := W_Answered\<rparr>)
      | W_Answered \<Rightarrow> m\<lparr>io_watch := deadline_drop (io_watch m), io_pc := W_Top\<rparr>)"

datatype sd_actor = Client nat | Worker

inductive sd_step :: "sd_actor \<Rightarrow> ('s, 'v) sd_sys \<Rightarrow> ('s, 'v) sd_sys \<Rightarrow> bool" where
  sd_submit: "io_client m (job_client j) = C_Idle \<Longrightarrow> sd_call (io_task m) (job_client j) True True = Queue_And_Wait \<Longrightarrow>
     sd_step (Client (job_client j)) m (submit j m)"
| sd_receive: "io_client m c = C_Waiting \<Longrightarrow> io_reply m c = Some v \<Longrightarrow> sd_step (Client c) m (receive c v m)"
| sd_request: "sd_step (Client c) m (m\<lparr>io_usage := request_usage_refresh (io_usage m)\<rparr>)"
| sd_take: "sd_step (Client c) m (m\<lparr>io_usage := snd (take_usage (io_usage m))\<rparr>)"
| sd_work: "sd_step Worker m (worker_step now_us fs m)"

inductive_cases sd_stepE: "sd_step a m m'"

inductive sd_reach :: "'s \<Rightarrow> ('s, 'v) sd_sys \<Rightarrow> bool" for s where
  sd_init: "sd_reach s (sd_start s task u)"
| sd_next: "sd_reach s m \<Longrightarrow> sd_step a m m' \<Longrightarrow> sd_reach s m'"

text \<open>Runs from a state, with the number of steps the worker makes in them.\<close>

inductive sd_runs :: "('s, 'v) sd_sys \<Rightarrow> nat \<Rightarrow> ('s, 'v) sd_sys \<Rightarrow> bool" where
  sd_here: "sd_runs m 0 m"
| sd_more: "sd_runs m k m1 \<Longrightarrow> sd_step a m1 m2 \<Longrightarrow> sd_runs m (k + (if a = Worker then 1 else 0)) m2"

section \<open>Operations run to their end\<close>

fun micro_effect :: "'s micro \<Rightarrow> 's \<Rightarrow> 's" where
  "micro_effect (Do f) s = f s"
| "micro_effect (Enter l) s = s"
| "micro_effect Leave s = s"

text \<open>The code leaves \<open>d\<close> inline calls.\<close>

fun leaves :: "nat \<Rightarrow> 's micro list \<Rightarrow> bool" where
  "leaves d [] = (d = 0)"
| "leaves d (Do f # xs) = leaves d xs"
| "leaves d (Enter l # xs) = leaves (Suc d) xs"
| "leaves d (Leave # xs) = (0 < d \<and> leaves (d - 1) xs)"

lemma op_code_effect: "fold micro_effect (op_code op) s = exec_op op s"
proof (induction op arbitrary: s)
  case (Inline_Call l ops)
  have "fold micro_effect (ops_code ops) s = fold exec_op ops s" for s
    using Inline_Call by (induction ops arbitrary: s) auto
  then show ?case by simp
qed simp

lemma ops_code_effect: "fold micro_effect (ops_code ops) s = fold exec_op ops s"
  by (induction ops arbitrary: s) (simp_all add: op_code_effect)

lemma op_code_leaves: "leaves d (op_code op @ xs) = leaves d xs"
proof (induction op arbitrary: d xs)
  case (Inline_Call l ops)
  have "leaves d (ops_code ops @ xs) = leaves d xs" for d xs
    using Inline_Call by (induction ops arbitrary: d xs) auto
  then show ?case by simp
qed simp

lemma ops_code_leaves: "leaves 0 (ops_code ops)"
proof -
  have "leaves d (ops_code ops @ xs) = leaves d xs" for d and xs :: "'a micro list"
    by (induction ops arbitrary: d xs) (simp_all add: op_code_leaves)
  from this[of 0 "[]"] show ?thesis by simp
qed

lemma run_jobs_append:
  "run_jobs (js @ [j]) s = (fst (run_jobs js s) @ [(j, job_value j (exec_job j (snd (run_jobs js s))))], exec_job j (snd (run_jobs js s)))"
  by (induction js arbitrary: s) (simp_all add: split_beta)

lemma run_jobs_take: "fst (run_jobs (js @ ks) s) = fst (run_jobs js s) @ fst (run_jobs ks (snd (run_jobs js s)))"
  by (induction js arbitrary: s) (simp_all add: split_beta)

lemma run_jobs_fst: "map fst (fst (run_jobs js s)) = js"
  by (induction js arbitrary: s) (simp_all add: split_beta)

section \<open>What holds in every reachable state\<close>

text \<open>The job on the worker and the steps it still has.\<close>

fun on_worker :: "('s, 'v) worker_pc \<Rightarrow> ('s, 'v) sd_job list" where
  "on_worker (W_Run j xs) = [j]"
| "on_worker pc = []"

fun steps_left :: "('s, 'v) worker_pc \<Rightarrow> 's micro list" where
  "steps_left (W_Run j xs) = xs"
| "steps_left pc = []"

definition own :: "nat \<Rightarrow> ('s, 'v) sd_job list \<Rightarrow> ('s, 'v) sd_job list" where
  "own c = filter (\<lambda>j. job_client j = c)"

definition own_values :: "nat \<Rightarrow> (('s, 'v) sd_job \<times> 'v) list \<Rightarrow> 'v list" where
  "own_values c as = map snd (filter (\<lambda>(j, _). job_client j = c) as)"

lemma own_simps [simp]:
  "own c [] = []" "own c (xs @ ys) = own c xs @ own c ys" "own c (j # js) = (if job_client j = c then j # own c js else own c js)"
  by (simp_all add: own_def)

lemma own_values_simps [simp]:
  "own_values c [] = []" "own_values c (as @ bs) = own_values c as @ own_values c bs"
  "own_values c ((j, v) # as) = (if job_client j = c then v # own_values c as else own_values c as)"
  by (simp_all add: own_values_def)

lemma own_values_length: "length (own_values c as) = length (own c (map fst as))"
  by (induction as) (auto simp: own_values_def own_def)

abbreviation pending_jobs :: "('s, 'v) sd_sys \<Rightarrow> ('s, 'v) sd_job list" where
  "pending_jobs m \<equiv> on_worker (io_pc m) @ io_queue m"

text \<open>The queue, the card and the answers: jobs are answered in the order they were queued, as if each ran
  alone.\<close>

definition serial :: "'s \<Rightarrow> ('s, 'v) sd_sys \<Rightarrow> bool" where
  "serial s m \<longleftrightarrow>
     io_submitted m = map fst (io_answered m) @ pending_jobs m \<and>
     fst (run_jobs (map fst (io_answered m)) s) = io_answered m \<and>
     (let s' = snd (run_jobs (map fst (io_answered m)) s) in
      fold micro_effect (steps_left (io_pc m)) (io_card m) = (case on_worker (io_pc m) of [] \<Rightarrow> s' | j # _ \<Rightarrow> exec_job j s'))"

text \<open>The clients: each value is handed over once, and a client waits exactly while a call of its is under way.\<close>

definition replied :: "('s, 'v) sd_sys \<Rightarrow> nat \<Rightarrow> 'v list" where
  "replied m c = (case io_reply m c of None \<Rightarrow> [] | Some v \<Rightarrow> [v])"

definition served_so_far :: "nat \<Rightarrow> ('s, 'v) sd_sys \<Rightarrow> bool" where
  "served_so_far c m \<longleftrightarrow>
     io_received m c @ replied m c = own_values c (io_answered m) \<and>
     length (own c (pending_jobs m)) + length (replied m c) = (if io_client m c = C_Waiting then 1 else 0)"

lemma micro_step_fields [simp]:
  "io_queue (micro_step t x m) = io_queue m" "io_client (micro_step t x m) = io_client m" "io_reply (micro_step t x m) = io_reply m"
  "io_submitted (micro_step t x m) = io_submitted m" "io_answered (micro_step t x m) = io_answered m"
  "io_received (micro_step t x m) = io_received m" "io_card (micro_step t x m) = micro_effect x (io_card m)"
  "io_task (micro_step t x m) = io_task m" "io_usage (micro_step t x m) = io_usage m"
  by (cases x; simp)+

lemma worker_serial:
  assumes "serial s m"
  shows "serial s (worker_step t fs m)"
proof (cases "io_pc m")
  case (W_Run j xs)
  show ?thesis
  proof (cases xs)
    case Nil
    have "io_submitted m = map fst (io_answered m) @ j # io_queue m"
      "fst (run_jobs (map fst (io_answered m)) s) = io_answered m"
      "io_card m = exec_job j (snd (run_jobs (map fst (io_answered m)) s))"
      using assms by (simp_all add: serial_def W_Run Nil Let_def)
    then show ?thesis by (simp add: serial_def worker_step_def Let_def W_Run Nil run_jobs_append)
  next
    case (Cons x ys)
    then show ?thesis using assms by (simp add: serial_def worker_step_def W_Run)
  qed
next
  case W_Recv
  then show ?thesis using assms
    by (cases "io_queue m") (simp_all add: serial_def worker_step_def Let_def exec_job_def ops_code_effect)
qed (use assms in \<open>simp_all add: serial_def worker_step_def Let_def\<close>)

lemma step_serial:
  assumes "sd_step a m m'" "serial s m"
  shows "serial s m'"
  using assms(1)
proof cases
  case sd_work
  then show ?thesis using worker_serial[OF assms(2)] by simp
qed (use assms(2) in \<open>simp_all add: submit_def receive_def serial_def Let_def\<close>)

lemma start_serial: "serial s (sd_start s task u)"
  by (simp add: serial_def sd_start_def)

lemma reach_serial: "sd_reach s m \<Longrightarrow> serial s m"
  by (induction rule: sd_reach.induct) (simp_all add: step_serial start_serial)

lemma worker_served:
  assumes "served_so_far c m"
  shows "served_so_far c (worker_step t fs m)"
proof (cases "io_pc m")
  case (W_Run j xs)
  show ?thesis
  proof (cases xs)
    case Nil
    have "job_client j = c \<Longrightarrow> replied m c = []"
      using assms W_Run by (auto simp: served_so_far_def split: if_splits)
    then show ?thesis using assms W_Run Nil
      by (auto simp: served_so_far_def worker_step_def Let_def replied_def split: if_splits)
  next
    case (Cons x ys)
    then show ?thesis using assms W_Run by (simp add: served_so_far_def worker_step_def replied_def)
  qed
next
  case W_Recv
  then show ?thesis using assms
    by (cases "io_queue m") (simp_all add: served_so_far_def worker_step_def Let_def replied_def)
qed (use assms in \<open>auto simp: served_so_far_def worker_step_def Let_def replied_def split: if_splits\<close>)

lemma step_served:
  assumes "sd_step a m m'" "served_so_far c m"
  shows "served_so_far c m'"
  using assms(1)
proof cases
  case sd_work
  then show ?thesis using worker_served[OF assms(2)] by simp
next
  case (sd_submit j)
  then show ?thesis using assms(2) by (auto simp: submit_def served_so_far_def replied_def)
next
  case (sd_receive c' v)
  then show ?thesis using assms(2) by (auto simp: receive_def served_so_far_def replied_def)
qed (use assms(2) in \<open>simp_all add: served_so_far_def replied_def\<close>)

lemma start_served: "served_so_far c (sd_start s task u)"
  by (simp add: served_so_far_def sd_start_def replied_def)

lemma reach_served: "sd_reach s m \<Longrightarrow> served_so_far c m"
  by (induction rule: sd_reach.induct) (simp_all add: step_served start_served)

text \<open>The deadline: armed exactly while the card is in use, with the label of the job on it.\<close>

fun io_busy :: "('s, 'v) worker_pc \<Rightarrow> bool" where
  "io_busy W_Top = False" | "io_busy W_Recv = False" | "io_busy pc = True"

fun busy_label :: "('s, 'v) worker_pc \<Rightarrow> string option" where
  "busy_label (W_Run j xs) = Some (job_label j)"
| "busy_label W_Sample = Some ''sd space''"
| "busy_label pc = None"

definition small_jobs :: "('s, 'v) sd_sys \<Rightarrow> bool" where
  "small_jobs m \<longleftrightarrow> (\<forall>j \<in> set (io_submitted m). length (ops_code (job_ops j)) < 2 ^ 32 - 1)"

definition armed :: "('s, 'v) sd_sys \<Rightarrow> bool" where
  "armed m \<longleftrightarrow> (\<exists>cs la. watch_inv cs la (io_watch m) \<and> (cs \<noteq> [] \<longleftrightarrow> io_busy (io_pc m)) \<and>
     leaves (length cs - 1) (steps_left (io_pc m)) \<and> length cs + length (steps_left (io_pc m)) < 2 ^ 32 \<and>
     (\<forall>l. busy_label (io_pc m) = Some l \<longrightarrow> fst (last cs) = l))"

lemma micro_armed:
  assumes "watch_inv cs la w" "cs \<noteq> []" "leaves (length cs - 1) (x # xs)" "length cs + length (x # xs) < 2 ^ 32"
    and "w = io_watch m"
  obtains cs' la' where "watch_inv cs' la' (io_watch (micro_step t x m))" "cs' \<noteq> []" "leaves (length cs' - 1) xs"
    "length cs' + length xs < 2 ^ 32" "last cs' = last cs"
proof (cases x)
  case (Do f)
  then show ?thesis using that[of cs la] assms by simp
next
  case (Enter l)
  have "watch_inv ((l, t) # cs) t (deadline_arm l t w)" using arm_inv[OF assms(1)] assms(4) by simp
  then show ?thesis using that[of "(l, t) # cs" t] assms Enter by simp
next
  case Leave
  obtain c cs1 where cs: "cs = c # cs1" using assms(2) by (cases cs) auto
  have "cs1 \<noteq> []" using assms(3) Leave cs by auto
  moreover have "watch_inv cs1 la (deadline_drop w)" using drop_inv assms(1) cs by blast
  ultimately show ?thesis using that[of cs1 la] assms Leave cs by simp
qed

lemma idle_armed: "watch_inv [] la w \<Longrightarrow> \<exists>la'. watch_inv [(l, t)] la' (deadline_arm l t w)"
  using arm_inv[of "[]" la w l t] by auto

lemma last_armed: "watch_inv cs la w \<Longrightarrow> cs \<noteq> [] \<Longrightarrow> leaves (length cs - 1) [] \<Longrightarrow> watch_inv [] la (deadline_drop w)"
  using drop_inv[of "hd cs" "tl cs" la w] by (cases cs) auto

lemma top_armed:
  assumes "io_pc m = W_Top" "watch_inv [] la (io_watch m)"
  shows "armed (worker_step t fs m)"
proof -
  obtain la' where l: "watch_inv [(''sd space'', t)] la' (deadline_arm ''sd space'' t (io_watch m))" using idle_armed[OF assms(2)] by blast
  show ?thesis
  proof (cases "usage_refresh (io_usage m) \<and> card_ready (io_usage m)")
    case True
    then show ?thesis using assms(1) l
      by (auto simp: armed_def worker_step_def Let_def intro!: exI[of _ "[(''sd space'', t)]"] exI[of _ la'])
  next
    case False
    then show ?thesis using assms by (auto simp: armed_def worker_step_def Let_def)
  qed
qed

lemma recv_armed:
  assumes "io_pc m = W_Recv" "watch_inv [] la (io_watch m)" "small_jobs m" "set (io_queue m) \<subseteq> set (io_submitted m)"
  shows "armed (worker_step t fs m)"
proof (cases "io_queue m")
  case Nil
  then show ?thesis using assms(1,2) by (auto simp: armed_def worker_step_def)
next
  case (Cons j js)
  obtain la' where "watch_inv [(job_label j, t)] la' (deadline_arm (job_label j) t (io_watch m))" using idle_armed[OF assms(2)] by blast
  moreover have "length (ops_code (job_ops j)) < 2 ^ 32 - 1" using assms(3,4) Cons by (auto simp: small_jobs_def)
  ultimately show ?thesis using assms(1) Cons ops_code_leaves[of "job_ops j"]
    by (auto simp: armed_def worker_step_def intro!: exI[of _ "[(job_label j, t)]"] exI[of _ la'])
qed

lemma worker_armed:
  assumes "armed m" "small_jobs m" "set (io_queue m) \<subseteq> set (io_submitted m)"
  shows "armed (worker_step t fs m)"
proof -
  obtain cs la where a: "watch_inv cs la (io_watch m)" "cs \<noteq> [] \<longleftrightarrow> io_busy (io_pc m)"
      "leaves (length cs - 1) (steps_left (io_pc m))" "length cs + length (steps_left (io_pc m)) < 2 ^ 32"
      "\<forall>l. busy_label (io_pc m) = Some l \<longrightarrow> fst (last cs) = l"
    using assms(1) by (auto simp: armed_def)
  show ?thesis
  proof (cases "io_pc m")
    case W_Top
    then show ?thesis using top_armed a(1,2) by simp
  next
    case W_Sample
    then have "watch_inv [] la (deadline_drop (io_watch m))" using a last_armed by auto
    then show ?thesis using W_Sample by (auto simp: armed_def worker_step_def Let_def)
  next
    case W_Recv
    then show ?thesis using recv_armed[OF _ _ assms(2,3)] a(1,2) by simp
  next
    case (W_Run j xs)
    show ?thesis
    proof (cases xs)
      case Nil
      then show ?thesis using W_Run a by (auto simp: armed_def worker_step_def Let_def)
    next
      case (Cons x ys)
      obtain cs' la' where "watch_inv cs' la' (io_watch (micro_step t x m))" "cs' \<noteq> []" "leaves (length cs' - 1) ys"
          "length cs' + length ys < 2 ^ 32" "last cs' = last cs"
        using micro_armed[OF a(1), of x ys m t] a W_Run Cons by auto
      then show ?thesis using W_Run Cons a(5) by (auto simp: armed_def worker_step_def)
    qed
  next
    case W_Answered
    then have "watch_inv [] la (deadline_drop (io_watch m))" using a last_armed by auto
    then show ?thesis using W_Answered by (auto simp: armed_def worker_step_def)
  qed
qed

lemma worker_submits: "io_submitted (worker_step t fs m) = io_submitted m"
  by (simp add: worker_step_def Let_def split: worker_pc.split list.split)

lemma submitted_grows:
  assumes "sd_step a m m'"
  shows "set (io_submitted m) \<subseteq> set (io_submitted m')"
  using assms by cases (auto simp: submit_def receive_def worker_submits)

lemma reach_armed: "sd_reach s m \<Longrightarrow> small_jobs m \<Longrightarrow> armed m"
proof (induction rule: sd_reach.induct)
  case (sd_init task u)
  have "watch_inv [] 0 sd_watch_idle" by (simp add: watch_inv_def sd_watch_idle_def)
  then show ?case by (auto simp: armed_def sd_start_def)
next
  case (sd_next m a m')
  have sm: "small_jobs m" using submitted_grows[OF sd_next(2)] sd_next(4) by (auto simp: small_jobs_def)
  have "set (io_queue m) \<subseteq> set (io_submitted m)" using reach_serial[OF sd_next(1)] by (auto simp: serial_def)
  note w = worker_armed[OF sd_next(3)[OF sm] sm this]
  from sd_next(2) show ?case
  proof cases
    case sd_work
    then show ?thesis using w by simp
  qed (use sd_next(3)[OF sm] in \<open>auto simp: submit_def receive_def armed_def\<close>)
qed

section \<open>Progress\<close>

text \<open>A bound on the steps of the worker until client \<open>c\<close> is answered: two for a free-space sample before
  each job, and the jobs queued before its own.\<close>

definition code_size :: "('s, 'v) sd_job \<Rightarrow> nat" where
  "code_size j = length (ops_code (job_ops j))"

fun queue_cost :: "nat \<Rightarrow> ('s, 'v) sd_job list \<Rightarrow> nat" where
  "queue_cost c [] = 0"
| "queue_cost c (j # js) = (if job_client j = c then code_size j + 2 else code_size j + 5 + queue_cost c js)"

definition ahead :: "nat \<Rightarrow> ('s, 'v) sd_sys \<Rightarrow> nat" where
  "ahead c m =
     (case io_pc m of
        W_Top \<Rightarrow> 2 + queue_cost c (io_queue m)
      | W_Sample \<Rightarrow> 1 + queue_cost c (io_queue m)
      | W_Recv \<Rightarrow> queue_cost c (io_queue m)
      | W_Run j xs \<Rightarrow> if job_client j = c then length xs + 1 else length xs + 4 + queue_cost c (io_queue m)
      | W_Answered \<Rightarrow> 3 + queue_cost c (io_queue m))"

definition answers :: "nat \<Rightarrow> ('s, 'v) sd_sys \<Rightarrow> nat" where
  "answers c m = length (own_values c (io_answered m))"

lemma queue_cost_append: "own c q \<noteq> [] \<Longrightarrow> queue_cost c (q @ js) = queue_cost c q"
  by (induction q) auto

lemma queue_cost_pos: "own c q \<noteq> [] \<Longrightarrow> 0 < queue_cost c q"
  by (induction q) auto

lemma ahead_pos: "own c (pending_jobs m) \<noteq> [] \<Longrightarrow> 0 < ahead c m"
  by (cases "io_pc m") (auto simp: ahead_def queue_cost_pos)

lemma worker_progress:
  assumes "own c (pending_jobs m) \<noteq> []"
  shows "answers c m < answers c (worker_step t fs m) \<or>
    answers c (worker_step t fs m) = answers c m \<and> own c (pending_jobs (worker_step t fs m)) \<noteq> [] \<and> ahead c (worker_step t fs m) < ahead c m"
proof (cases "io_pc m")
  case (W_Run j xs)
  then show ?thesis using assms
    by (cases xs) (auto simp: worker_step_def Let_def ahead_def answers_def)
next
  case W_Recv
  then show ?thesis using assms
    by (cases "io_queue m") (auto simp: worker_step_def ahead_def answers_def code_size_def)
qed (use assms in \<open>auto simp: worker_step_def Let_def ahead_def answers_def\<close>)

lemma client_progress:
  assumes "sd_step (Client d) m m'" "served_so_far c m" "own c (pending_jobs m) \<noteq> []"
  shows "answers c m' = answers c m \<and> own c (pending_jobs m') \<noteq> [] \<and> ahead c m' = ahead c m"
  using assms(1)
proof cases
  case (sd_submit j)
  have "io_client m c = C_Waiting" using assms(2,3) by (auto simp: served_so_far_def split: if_splits)
  then have "job_client j \<noteq> c" using sd_submit by auto
  then show ?thesis using sd_submit assms(3)
    by (cases "io_pc m") (auto simp: submit_def answers_def ahead_def queue_cost_append)
qed (use assms(3) in \<open>auto simp: receive_def answers_def ahead_def split: worker_pc.split\<close>)

lemma runs_reach: "sd_runs m k m' \<Longrightarrow> sd_reach s m \<Longrightarrow> sd_reach s m'"
  by (induction rule: sd_runs.induct) (auto intro: sd_next)

lemma worker_answers: "answers c m \<le> answers c (worker_step t fs m)"
  by (simp add: worker_step_def Let_def answers_def split: worker_pc.split list.split)

lemma answers_grow:
  assumes "sd_step a m m'"
  shows "answers c m \<le> answers c m'"
  using assms by cases (auto simp: submit_def receive_def answers_def worker_answers[unfolded answers_def])

lemma run_progress:
  assumes "sd_runs m k m'" "sd_reach s m" "own c (pending_jobs m) \<noteq> []"
  shows "answers c m < answers c m' \<or>
    answers c m' = answers c m \<and> own c (pending_jobs m') \<noteq> [] \<and> ahead c m' + k \<le> ahead c m"
  using assms
proof (induction rule: sd_runs.induct)
  case (sd_more m k m1 a m2)
  have r: "sd_reach s m1" using runs_reach[OF sd_more(1,4)] .
  note g = answers_grow[OF sd_more(2), of c]
  show ?case
  proof (cases "answers c m < answers c m1")
    case False
    then have IH: "answers c m1 = answers c m" "own c (pending_jobs m1) \<noteq> []" "ahead c m1 + k \<le> ahead c m"
      using sd_more(3)[OF sd_more(4,5)] by auto
    show ?thesis
    proof (cases a)
      case (Client d)
      then have "answers c m2 = answers c m1 \<and> own c (pending_jobs m2) \<noteq> [] \<and> ahead c m2 = ahead c m1"
        using client_progress[OF _ reach_served[OF r] IH(2)] sd_more(2) by blast
      then show ?thesis using IH Client by simp
    next
      case Worker
      with sd_more(2) obtain t fs where "m2 = worker_step t fs m1" by (auto elim: sd_stepE)
      then show ?thesis using worker_progress[OF IH(2), of t fs] IH Worker by fastforce
    qed
  qed (use g in auto)
qed simp

section \<open>Correctness\<close>

text \<open>C31: Calls to the card are served one at a time and in order: in every reachable interleaving of the
  tasks and the SD worker, the answers are those of running the queued operations alone, each to its
  end, in the order they were queued, and the card is never seen between two steps of another
  operation; every task gets exactly its own answers, and waits while, and only while, a call of its is
  unanswered or its answer not yet received.\<close>

theorem sd_calls_serialized:
  assumes "sd_reach s m"
  shows "io_answered m = fst (run_jobs (take (length (io_answered m)) (io_submitted m)) s) \<and>
    io_received m c = take (length (io_received m c)) (own_values c (fst (run_jobs (io_submitted m) s))) \<and>
    (io_client m c = C_Idle \<longleftrightarrow> length (io_received m c) = length (own c (io_submitted m))) \<and>
    (\<not> io_busy (io_pc m) \<longrightarrow> io_card m = snd (run_jobs (map fst (io_answered m)) s))"
proof (intro conjI)
  have sb: "io_submitted m = map fst (io_answered m) @ pending_jobs m"
    and an: "fst (run_jobs (map fst (io_answered m)) s) = io_answered m"
    using reach_serial[OF assms] by (simp_all add: serial_def)
  have rc: "io_received m c @ replied m c = own_values c (io_answered m)"
    and wt: "length (own c (pending_jobs m)) + length (replied m c) = (if io_client m c = C_Waiting then 1 else 0)"
    using reach_served[OF assms, of c] by (simp_all add: served_so_far_def)
  have t: "take (length (io_answered m)) (io_submitted m) = map fst (io_answered m)" by (simp add: sb)
  show "io_answered m = fst (run_jobs (take (length (io_answered m)) (io_submitted m)) s)" by (simp only: t an)
  have "own_values c (fst (run_jobs (io_submitted m) s)) =
      io_received m c @ replied m c @ own_values c (fst (run_jobs (pending_jobs m) (snd (run_jobs (map fst (io_answered m)) s))))"
    unfolding sb run_jobs_take an own_values_simps rc[symmetric] by simp
  then show "io_received m c = take (length (io_received m c)) (own_values c (fst (run_jobs (io_submitted m) s)))" by simp
  have "length (own c (map fst (io_answered m))) = length (io_received m c) + length (replied m c)"
    using own_values_length[of c "io_answered m"] arg_cong[OF rc, of length] by simp
  then have "length (own c (io_submitted m)) = length (io_received m c) + (if io_client m c = C_Waiting then 1 else 0)"
    using wt unfolding sb by simp
  then show "io_client m c = C_Idle \<longleftrightarrow> length (io_received m c) = length (own c (io_submitted m))"
    by (cases "io_client m c") auto
  show "\<not> io_busy (io_pc m) \<longrightarrow> io_card m = snd (run_jobs (map fst (io_answered m)) s)"
    using reach_serial[OF assms] by (cases "io_pc m") (auto simp: serial_def)
qed

text \<open>C32: No call to the card hangs: once a task has queued a call, whatever the other tasks do, the worker
  answers it within a number of its own steps that is fixed when the call is queued: the steps of the
  calls before it and a constant for each. Calls made from inside an operation need no worker.\<close>

theorem sd_call_returns:
  assumes "sd_reach s m" "io_client m c = C_Waiting" "io_reply m c = None" "sd_runs m k m'" "ahead c m \<le> k"
  shows "length (own_values c (io_answered m)) < length (own_values c (io_answered m'))"
proof -
  have p: "own c (pending_jobs m) \<noteq> []"
    using reach_served[OF assms(1), of c] assms(2,3) by (auto simp: served_so_far_def replied_def)
  have "answers c m < answers c m' \<or> ahead c m' + k \<le> ahead c m \<and> own c (pending_jobs m') \<noteq> []"
    using run_progress[OF assms(4,1) p] by blast
  then show ?thesis using assms(5) ahead_pos[of c m'] by (auto simp: answers_def)
qed

text \<open>C33: The watchdog watches the right thing: as long as no operation has \<open>2 ^ 32\<close> steps, the deadline is
  armed exactly while the card is in use; it then carries the label of the job on the card, and the
  watchdog never restarts the chip while the worker waits for work.\<close>

theorem sd_deadline_follows_worker:
  assumes "sd_reach s m" "small_jobs m"
  shows "(call_started_us (io_watch m) \<noteq> 0 \<longleftrightarrow> io_busy (io_pc m)) \<and>
    (\<forall>j xs. io_pc m = W_Run j xs \<longrightarrow> call_label (io_watch m) = job_label j) \<and>
    (\<forall>now_us l. monitor_tick now_us (io_watch m) = Some l \<longrightarrow> io_busy (io_pc m))"
proof (intro conjI allI impI)
  obtain cs la where a: "watch_inv cs la (io_watch m)" "cs \<noteq> [] \<longleftrightarrow> io_busy (io_pc m)"
      "\<forall>l. busy_label (io_pc m) = Some l \<longrightarrow> fst (last cs) = l"
    using reach_armed[OF assms] by (auto simp: armed_def)
  then show b: "call_started_us (io_watch m) \<noteq> 0 \<longleftrightarrow> io_busy (io_pc m)" by (auto simp: watch_inv_def)
  show "call_label (io_watch m) = job_label j" if "io_pc m = W_Run j xs" for j xs
    using a that by (auto simp: watch_inv_def)
  show "io_busy (io_pc m)" if "monitor_tick now_us (io_watch m) = Some l" for now_us l
    using that b by (auto simp: monitor_tick_def)
qed

text \<open>Two tasks on a card that is a list of entries: task 7 appends in two steps, task 8 counts.\<close>

definition writer_job :: "(nat list, nat) sd_job" where
  "writer_job = \<lparr>job_client = 7, job_label = ''sd log'', job_ops = [Fs (\<lambda>s. s @ [1]), Inline_Call ''sd tz'' [Fs (\<lambda>s. s @ [2])]],
     job_value = length\<rparr>"

definition reader_job :: "(nat list, nat) sd_job" where
  "reader_job = \<lparr>job_client = 8, job_label = ''sd stat'', job_ops = [Fs id], job_value = length\<rparr>"

fun work :: "nat \<Rightarrow> ('s, 'v) sd_sys \<Rightarrow> ('s, 'v) sd_sys" where
  "work 0 m = m"
| "work (Suc n) m = worker_step 5 (True, None) (work n m)"

definition two_calls :: "(nat list, nat) sd_sys" where
  "two_calls = submit reader_job (work 4 (submit writer_job (sd_start [] 3 \<lparr>usage_refresh = False, card_ready = True,
     last_usage = storage_status_default, pending_usage = None\<rparr>)))"

lemma work_reach: "sd_reach s m \<Longrightarrow> sd_reach s (work n m)"
  by (induction n) (auto intro: sd_next sd_work)

lemma work_runs: "sd_runs m n (work n m)"
proof (induction n)
  case (Suc n)
  from sd_more[OF Suc sd_work, of 5 "(True, None)"] show ?case by simp
qed (simp add: sd_here)

lemma two_calls_reach: "sd_reach [] two_calls"
proof -
  let ?s = "sd_start [] 3 \<lparr>usage_refresh = False, card_ready = True, last_usage = storage_status_default, pending_usage = None\<rparr>
    :: (nat list, nat) sd_sys"
  have st: "sd_step (Client (job_client writer_job)) ?s (submit writer_job ?s)"
    by (rule sd_submit) (simp_all add: sd_start_def writer_job_def sd_call_def on_sd_worker_def)
  have re: "sd_reach [] (work 4 (submit writer_job ?s))" by (rule work_reach[OF sd_next[OF sd_init st]])
  have "io_client (work 4 (submit writer_job ?s)) 8 = C_Idle" "io_task (work 4 (submit writer_job ?s)) = 3"
    by (simp_all add: eval_nat_numeral worker_step_def submit_def sd_start_def writer_job_def Let_def)
  then have "sd_step (Client (job_client reader_job)) (work 4 (submit writer_job ?s)) two_calls"
    unfolding two_calls_def by (intro sd_submit) (simp_all add: reader_job_def sd_call_def on_sd_worker_def)
  from sd_next[OF re this] show ?thesis .
qed

text \<open>The reader's call is queued while the writer is between its two steps; it counts both entries.\<close>

theorem sd_calls_serialized_witness:
  "io_answered (work 20 two_calls) = [(writer_job, 2), (reader_job, 2)]"
proof -
  have "length (io_answered (work 20 two_calls)) = 2" "io_submitted (work 20 two_calls) = [writer_job, reader_job]"
    by (simp_all add: eval_nat_numeral two_calls_def worker_step_def submit_def sd_start_def writer_job_def reader_job_def Let_def)
  with sd_calls_serialized[OF work_reach[OF two_calls_reach], of 20] show ?thesis
    by (simp add: exec_job_def writer_job_def reader_job_def)
qed

theorem sd_call_returns_witness:
  "length (own_values 8 (io_answered two_calls)) < length (own_values 8 (io_answered (work 15 two_calls)))"
proof -
  have "io_client two_calls 8 = C_Waiting" "io_reply two_calls 8 = None" "ahead 8 two_calls \<le> 15"
    by (simp_all add: eval_nat_numeral two_calls_def worker_step_def submit_def sd_start_def writer_job_def reader_job_def Let_def
        ahead_def code_size_def)
  from sd_call_returns[OF two_calls_reach this(1,2) work_runs this(3)] show ?thesis .
qed

theorem sd_deadline_follows_worker_witness:
  "call_label (io_watch two_calls) = ''sd log''"
proof -
  have s: "io_submitted two_calls = [writer_job, reader_job]" "on_worker (io_pc two_calls) = [writer_job]"
    by (simp_all add: eval_nat_numeral two_calls_def worker_step_def submit_def sd_start_def writer_job_def reader_job_def Let_def)
  have "small_jobs two_calls" unfolding small_jobs_def s(1) by (simp add: writer_job_def reader_job_def)
  moreover obtain xs where "io_pc two_calls = W_Run writer_job xs" using s(2) by (cases "io_pc two_calls") auto
  ultimately have "call_label (io_watch two_calls) = job_label writer_job"
    using sd_deadline_follows_worker[OF two_calls_reach] by blast
  then show ?thesis by (simp add: writer_job_def)
qed

section \<open>Mounting below the watchdog\<close>

text \<open>\<open>run_on_sd_thread\<close>: the mount runs on a thread of its own under a deadline; \<open>None\<close> is a panic of it.\<close>

datatype 'v thread_end = Returned 'v | Restarted string

definition run_on_sd_thread :: "bool \<Rightarrow> string \<Rightarrow> 'v option \<Rightarrow> int \<Rightarrow> sd_watch \<Rightarrow> 'v thread_end \<times> sd_watch" where
  "run_on_sd_thread config_ok label op now_us w =
     (if \<not> config_ok then (Restarted label, w)
      else let w = deadline_drop (deadline_arm label now_us w)
           in (case op of None \<Rightarrow> (Restarted label, w) | Some v \<Rightarrow> (Returned v, w)))"

lemma mount_leaves_idle:
  assumes "watch_inv [] la w" "run_on_sd_thread c label op now_us w = (Returned v, w')"
  shows "call_started_us w' = 0 \<and> call_depth w' = 0 \<and> op = Some v"
proof -
  have i: "watch_inv [] now_us (deadline_drop (deadline_arm label now_us w))"
    using drop_inv[OF arm_inv[OF assms(1), of label now_us]] by simp
  have "call_depth w' = 0 \<longleftrightarrow> unat (call_depth w') = 0" by (simp add: unat_eq_zero)
  then show ?thesis using assms(2) i by (auto simp: run_on_sd_thread_def watch_inv_def Let_def split: if_splits option.splits)
qed

end
