(* ===== verification/Http_Server.thy ===== *)
theory Http_Server
  imports Card_Web Drivers
begin

text \<open>The HTTP server of the log mirror (\<open>start_http_server\<close> in sdlog.rs): its routes, and the card as its handlers reach it.\<close>

section \<open>Starting the server\<close>

text \<open>The driver calls of \<open>start_http_server\<close>: the server, then one handler for each route.\<close>

definition http_steps :: "driver_step list" where
  "http_steps = steps [''failed to start log HTTP server'', ''route /'', ''route /files'', ''route /files/delete'',
     ''route /log'', ''route /log/1'']"

definition start_http_server :: "(string \<Rightarrow> bool) \<Rightarrow> string + unit" where
  "start_http_server ok = run_steps ok http_steps"

section \<open>Answering a request\<close>

datatype http_method = Get | Post | Other_Method string

datatype route = Index | Files | Delete_File | Log_File string

definition LOG_PATH :: string where "LOG_PATH = ''/sdcard/gps-ntp.log''"
definition ROTATED_PATH :: string where "ROTATED_PATH = ''/sdcard/gps-ntp.1.log''"

definition routes :: "((string \<times> http_method) \<times> route) list" where
  "routes = [((''/'', Get), Index), ((''/files'', Get), Files), ((''/files/delete'', Post), Delete_File),
     ((''/log'', Get), Log_File LOG_PATH), ((''/log/1'', Get), Log_File ROTATED_PATH)]"

definition index_page :: string where
  "index_page = ''rust_gps_ntp log mirror'' @ [CHR 0x0A] @ ''  /log    current'' @ [CHR 0x0A] @ ''  /log/1  rotated'' @ [CHR 0x0A] @
     ''  /files  card root listing (delete via form)'' @ [CHR 0x0A]"

text \<open>What the card answers: the entries of its root, length and contents of a file (an offset and a maximum),
  the kind of a path, and what removing it does.\<close>

record card_files =
  fs_entries :: "(string \<times> nat option) list"
  fs_length :: "string \<Rightarrow> nat option"
  fs_read :: "string \<Rightarrow> nat \<Rightarrow> nat \<Rightarrow> string option"
  fs_stat :: "string \<Rightarrow> file_stat"
  fs_remove :: "string \<Rightarrow> bool option"

datatype http_answer = Content http_reply | Deletion delete_reply | No_Route

text \<open>The answer, and the path a removal was tried on.\<close>

definition http_request :: "card_files \<Rightarrow> http_method \<Rightarrow> string \<Rightarrow> string option list \<Rightarrow> http_answer \<times> string option" where
  "http_request fs meth uri reads =
     (case map_of routes (uri, meth) of
        None \<Rightarrow> (No_Route, None)
      | Some Index \<Rightarrow> (Content (Reply 200 [index_page]), None)
      | Some Files \<Rightarrow> (Content (Reply 200 [serve_listing (fs_entries fs)]), None)
      | Some Delete_File \<Rightarrow> (case handle_delete (fs_stat fs) (fs_remove fs) reads of (r, touched) \<Rightarrow> (Deletion r, touched))
      | Some (Log_File path) \<Rightarrow> (Content (serve_file (fs_length fs path) (fs_read fs path)), None))"

lemma routes_post: "map_of routes (uri, meth) = Some Delete_File \<longleftrightarrow> uri = ''/files/delete'' \<and> meth = Post"
  by (auto simp: routes_def)

lemma request_touches:
  assumes "http_request fs meth uri reads = (answer, Some path)"
  shows "uri = ''/files/delete'' \<and> meth = Post \<and> (\<exists>r. handle_delete (fs_stat fs) (fs_remove fs) reads = (r, Some path))"
  using assms routes_post[of uri meth]
  by (auto simp: http_request_def split: option.splits route.splits prod.splits)



text \<open>Every route of the index page answers a \<open>GET\<close>.\<close>

lemma index_routes: "uri \<in> {''/'', ''/files'', ''/log'', ''/log/1''} \<Longrightarrow> fst (http_request fs Get uri reads) \<noteq> No_Route"
  by (auto simp: http_request_def routes_def)

end
