(* ===== verification/Interrupts.thy ===== *)
theory Interrupts
  imports Pps Ui_Task Drivers
begin

text \<open>The interrupt lines of the PPS input and the page button (\<open>PpsDevice\<close> in pps.rs, the GPIO0 functions of ui_task.rs): what is
  enabled when, and that no edge is lost.\<close>

section \<open>One-shot interrupts\<close>

text \<open>
  An interrupt line is disabled by its own firing; the task that serves it enables it again. \<open>unseen\<close>: the task will
  notice the edge at its next pass; \<open>captured\<close> counts edges as long as the counters hold them.
\<close>

fun irq_history :: "('e \<Rightarrow> 's \<Rightarrow> 's) \<Rightarrow> ('i \<Rightarrow> 's \<Rightarrow> 's) \<Rightarrow> ('e + 'i) list \<Rightarrow> 's \<Rightarrow> 's" where
  "irq_history edge serve [] s = s"
| "irq_history edge serve (Inl e # es) s = irq_history edge serve es (edge e s)"
| "irq_history edge serve (Inr i # es) s = irq_history edge serve es (serve i s)"

locale one_shot =
  fixes armed :: "'s \<Rightarrow> bool" and unseen :: "'s \<Rightarrow> bool" and sane :: "'s \<Rightarrow> bool" and captured :: "'s \<Rightarrow> nat" and per_edge capacity :: nat
    and edge :: "'e \<Rightarrow> 's \<Rightarrow> 's" and serve :: "'i \<Rightarrow> 's \<Rightarrow> 's" and allowed :: "'i \<Rightarrow> 's \<Rightarrow> bool"
  assumes edge_sane: "sane s \<Longrightarrow> captured s + per_edge < capacity \<Longrightarrow> sane (edge e s) \<and> captured (edge e s) \<le> captured s + per_edge"
    and serve_sane: "sane s \<Longrightarrow> sane (serve i s) \<and> captured (serve i s) = captured s"
    and edge_seen: "sane s \<Longrightarrow> captured s + per_edge < capacity \<Longrightarrow> armed s \<Longrightarrow> unseen (edge e s)"
    and edge_deaf: "\<not> armed s \<Longrightarrow> edge e s = s"
    and serve_alive: "sane s \<Longrightarrow> allowed i s \<Longrightarrow> armed s \<or> unseen s \<Longrightarrow> armed (serve i s) \<or> unseen (serve i s)"
begin

text \<open>The line is never deaf: it is armed, or an edge waits to be seen.\<close>

lemma never_deaf:
  assumes "sane s" "armed s \<or> unseen s" "captured s + per_edge * length (filter isl es) < capacity"
    and "\<forall>i s. Inr i \<in> set es \<longrightarrow> allowed i s"
  shows "sane (irq_history edge serve es s) \<and> captured (irq_history edge serve es s) \<le> captured s + per_edge * length (filter isl es) \<and>
    (armed (irq_history edge serve es s) \<or> unseen (irq_history edge serve es s))"
  using assms
proof (induction es arbitrary: s)
  case (Cons x es)
  show ?case
  proof (cases x)
    case (Inl e)
    have r: "captured s + per_edge < capacity" using Cons.prems(3) Inl by simp
    note e = edge_sane[OF Cons.prems(1) r, of e]
    have "armed (edge e s) \<or> unseen (edge e s)"
      using edge_seen[OF Cons.prems(1) r, of e] edge_deaf[of s e] Cons.prems(2) by (cases "armed s") auto
    moreover have "captured (edge e s) + per_edge * length (filter isl es) < capacity" using e Cons.prems(3) Inl by simp
    ultimately show ?thesis using Cons.IH[of "edge e s"] e Cons.prems(4) Inl by simp
  next
    case (Inr i)
    then show ?thesis
      using Cons.IH[of "serve i s"] serve_sane[OF Cons.prems(1), of i] serve_alive[OF Cons.prems(1), of i] Cons.prems(2-4) by simp
  qed
qed simp

end

section \<open>The PPS device\<close>

text \<open>\<open>PpsDevice\<close>: the monitor, the poll cursor, and whether its interrupt is enabled.\<close>

record pps_device =
  pd_monitor :: pps_sys
  pd_poll :: pps_poll_state
  pd_irq :: bool

definition pps_device_new :: pps_device where
  "pps_device_new = \<lparr>pd_monitor = pps_new, pd_poll = pps_poll_default, pd_irq = True\<rparr>"

text \<open>A rising edge: the handler of \<open>configure_interrupt\<close> runs if the interrupt is enabled, which ESP-IDF then disables.\<close>

definition pps_edge :: "u64 \<Rightarrow> pps_device \<Rightarrow> pps_device" where
  "pps_edge now_us d = (if pd_irq d then d\<lparr>pd_monitor := record_edge now_us (pd_monitor d), pd_irq := False\<rparr> else d)"

text \<open>What a snapshot reads when no handler interrupts it.\<close>

definition pps_snapshot :: "pps_sys \<Rightarrow> u32 \<times> u64" where
  "pps_snapshot m = (drop_bit 1 (mem_seq m), mem_edge m)"

definition device_poll :: "pps_device \<Rightarrow> pps_event option \<times> pps_device" where
  "device_poll d = (case pps_poll (pps_snapshot (pd_monitor d)) (pd_poll d) of (ev, st) \<Rightarrow> (ev, d\<lparr>pd_poll := st\<rparr>))"

definition reenable_interrupt :: "bool \<Rightarrow> pps_device \<Rightarrow> (string + unit) \<times> pps_device" where
  "reenable_interrupt ok d =
     (if ok then (Inr (), d\<lparr>pd_irq := True\<rparr>) else (Inl ''failed to re-enable PPS interrupt'', d))"

text \<open>The main loop's use of it: an event is followed by enabling the interrupt; a failure is logged.\<close>

definition pps_loop :: "bool \<Rightarrow> pps_device \<Rightarrow> pps_event option \<times> pps_device" where
  "pps_loop ok d = (case device_poll d of (None, d) \<Rightarrow> (None, d) | (Some ev, d) \<Rightarrow> (Some ev, snd (reenable_interrupt ok d)))"

text \<open>\<open>n\<close> edges captured; the cursor is at the last one or just before it.\<close>

definition pps_sane :: "pps_device \<Rightarrow> bool" where
  "pps_sane d \<longleftrightarrow> (\<exists>n < 2 ^ 31. mem_seq (pd_monitor d) = of_nat (2 * n) \<and> unat (last_count (pd_poll d)) \<le> n)"

definition pps_unseen :: "pps_device \<Rightarrow> bool" where
  "pps_unseen d \<longleftrightarrow> last_count (pd_poll d) < drop_bit 1 (mem_seq (pd_monitor d))"

definition pps_captured :: "pps_device \<Rightarrow> nat" where
  "pps_captured d = unat (drop_bit 1 (mem_seq (pd_monitor d)))"

lemma seq_half: "n < 2 ^ 31 \<Longrightarrow> unat (drop_bit 1 (of_nat (2 * n) :: u32)) = n"
proof -
  assume "n < 2 ^ 31"
  then have "unat (of_nat (2 * n) :: u32) = 2 * n" by (subst unat_of_nat) simp
  then show ?thesis using unat_half[of "of_nat (2 * n)"] by simp
qed

lemma edge_seq: "mem_seq (record_edge t m) = mem_seq m + 2" "mem_edge (record_edge t m) = t"
  by (simp_all add: record_edge_def isr_enter_def isr_store_def isr_leave_def)

lemma pps_edge_sane:
  assumes "pps_sane d" "Suc (pps_captured d) < 2 ^ 31"
  shows "pps_sane (pps_edge t d)" "pps_captured (pps_edge t d) \<le> Suc (pps_captured d)" "pd_irq d \<Longrightarrow> pps_unseen (pps_edge t d)"
proof -
  obtain n where n: "n < 2 ^ 31" "mem_seq (pd_monitor d) = of_nat (2 * n)" "unat (last_count (pd_poll d)) \<le> n"
    using assms(1) by (auto simp: pps_sane_def)
  have c: "pps_captured d = n" using seq_half[OF n(1)] by (simp add: pps_captured_def n(2))
  then have s: "Suc n < 2 ^ 31" using assms(2) by simp
  define d1 where "d1 = d\<lparr>pd_monitor := record_edge t (pd_monitor d), pd_irq := False\<rparr>"
  have e: "mem_seq (pd_monitor d1) = of_nat (2 * Suc n)" "pd_poll d1 = pd_poll d" by (simp_all add: d1_def n(2) edge_seq)
  have h: "unat (drop_bit 1 (mem_seq (pd_monitor d1))) = Suc n" using seq_half[OF s] by (simp only: e(1))
  have "pps_sane d1" unfolding pps_sane_def using n(3) s e by (intro exI[of _ "Suc n"]) simp
  moreover have "pps_captured d1 = Suc n" using h by (simp add: pps_captured_def)
  moreover have "pps_unseen d1" using h n(3) by (simp add: pps_unseen_def e(2) word_less_nat_alt)
  moreover have "pps_edge t d = (if pd_irq d then d1 else d)" by (simp add: pps_edge_def d1_def)
  ultimately show "pps_sane (pps_edge t d)" "pps_captured (pps_edge t d) \<le> Suc (pps_captured d)" "pd_irq d \<Longrightarrow> pps_unseen (pps_edge t d)"
    using assms(1) c by simp_all
qed

lemma pps_loop_cases:
  "pps_unseen d \<Longrightarrow> pps_loop True d = (Some (if 0 < last_edge_us (pd_poll d)
       then Delta (pps_delta_us (mem_edge (pd_monitor d)) (last_edge_us (pd_poll d))) (sint (mem_edge (pd_monitor d)))
       else First (sint (mem_edge (pd_monitor d)))),
     d\<lparr>pd_poll := (pd_poll d)\<lparr>last_count := drop_bit 1 (mem_seq (pd_monitor d)), last_edge_us := mem_edge (pd_monitor d)\<rparr>, pd_irq := True\<rparr>)"
  "\<not> pps_unseen d \<Longrightarrow> pps_loop True d = (None, d)"
  by (simp_all add: pps_loop_def device_poll_def pps_poll_def pps_snapshot_def reenable_interrupt_def pps_unseen_def Let_def not_less)

lemma pps_loop_sane:
  "pps_sane d \<Longrightarrow> pps_sane (snd (pps_loop True d)) \<and> pps_captured (snd (pps_loop True d)) = pps_captured d"
  using seq_half by (cases "pps_unseen d") (auto simp: pps_loop_cases pps_sane_def pps_captured_def)

lemma pps_loop_alive: "pd_irq d \<or> pps_unseen d \<Longrightarrow> pd_irq (snd (pps_loop True d))"
  by (cases "pps_unseen d") (simp_all add: pps_loop_cases)

interpretation pps_irq: one_shot pd_irq pps_unseen pps_sane pps_captured 1 "2 ^ 31" pps_edge "\<lambda>(i :: unit). \<lambda>d. snd (pps_loop True d)"
  "\<lambda>i d. True"
proof unfold_locales
  fix t and d :: pps_device assume "\<not> pd_irq d" then show "pps_edge t d = d" by (simp add: pps_edge_def)
qed (simp_all add: pps_edge_sane pps_loop_sane pps_loop_alive)

text \<open>C12: No pulse is lost to the interrupt: ESP-IDF disables it whenever it fires, and the main loop enables it again after the event,
  so after any history of edges (fewer than \<open>2 ^ 31\<close>) and loop passes, as long as enabling succeeds, one pass leaves it
  enabled with nothing unseen, and the next edge is reported by the next pass with its own time stamp.\<close>

theorem next_pulse_reported:
  assumes "Suc (length (filter isl es)) < 2 ^ 31"
    and "d = snd (pps_loop True (irq_history pps_edge (\<lambda>(i :: unit) d. snd (pps_loop True d)) es pps_device_new))"
  shows "pd_irq d \<and> fst (pps_loop True d) = None \<and>
    (\<exists>ev. fst (pps_loop True (pps_edge t d)) = Some ev \<and> (case ev of First edge_us \<Rightarrow> edge_us = sint t | Delta iv edge_us \<Rightarrow> edge_us = sint t))"
proof -
  define d0 where "d0 = irq_history pps_edge (\<lambda>(i :: unit) d. snd (pps_loop True d)) es pps_device_new"
  have new: "pps_sane pps_device_new" "pps_captured pps_device_new = 0" "pd_irq pps_device_new"
    by (auto simp: pps_sane_def pps_captured_def pps_device_new_def pps_new_def pps_poll_default_def intro!: exI[of _ 0])
  have 0: "pps_sane d0" "pps_captured d0 \<le> length (filter isl es)" "pd_irq d0 \<or> pps_unseen d0"
    using pps_irq.never_deaf[OF new(1), of es] new(2,3) assms(1) by (auto simp: d0_def)
  have d: "d = snd (pps_loop True d0)" using assms(2) by (simp add: d0_def)
  have i: "pd_irq d" using pps_loop_alive[OF 0(3)] by (simp add: d)
  have q: "\<not> pps_unseen d" unfolding d by (cases "pps_unseen d0") (auto simp: pps_loop_cases pps_unseen_def)
  have c: "pps_sane d" "Suc (pps_captured d) < 2 ^ 31" using pps_loop_sane[OF 0(1)] 0(2) assms(1) by (simp_all add: d)
  have "pps_unseen (pps_edge t d)" by (rule pps_edge_sane(3)[OF c i])
  moreover have "mem_edge (pd_monitor (pps_edge t d)) = t" using i by (simp add: pps_edge_def edge_seq)
  ultimately show ?thesis using i q by (simp add: pps_loop_cases)
qed

theorem next_pulse_reported_witness:
  "fst (pps_loop True (pps_edge 3000000 (snd (pps_loop True (pps_edge 2000000 pps_device_new))))) \<noteq> None"
  using next_pulse_reported[of "[Inl 2000000]" "snd (pps_loop True (pps_edge 2000000 pps_device_new))" 3000000] by auto

text \<open>If enabling fails once, no later pulse is ever reported.\<close>

lemma failed_reenable_is_final:
  assumes "fst (pps_loop False d) \<noteq> None" "\<not> pd_irq d"
  shows "\<not> pd_irq (irq_history pps_edge (\<lambda>ok d. snd (pps_loop ok d)) es (snd (pps_loop False d))) \<and>
    fst (pps_loop ok (irq_history pps_edge (\<lambda>ok d. snd (pps_loop ok d)) es (snd (pps_loop False d)))) = None"
proof -
  have dead: "\<not> pd_irq x \<and> \<not> pps_unseen x \<Longrightarrow> irq_history pps_edge (\<lambda>ok d. snd (pps_loop ok d)) es x = x" for x
  proof (induction es)
    case (Cons y es)
    have "snd (pps_loop k x) = x" for k using Cons.prems
      by (simp add: pps_loop_def device_poll_def pps_poll_def pps_snapshot_def pps_unseen_def Let_def not_less)
    then show ?case using Cons by (cases y) (simp_all add: pps_edge_def)
  qed simp
  have "\<not> pd_irq (snd (pps_loop False d)) \<and> \<not> pps_unseen (snd (pps_loop False d))"
    using assms by (auto simp: pps_loop_def device_poll_def pps_poll_def pps_snapshot_def pps_unseen_def reenable_interrupt_def Let_def
        split: if_splits)
  then show ?thesis using dead[of "snd (pps_loop False d)"]
    by (simp add: pps_loop_def device_poll_def pps_poll_def pps_snapshot_def pps_unseen_def Let_def not_less)
qed

section \<open>The button line\<close>

text \<open>GPIO0: its pull-up, input mode, edge type and interrupt, and the counter \<open>BUTTON_EDGES\<close> of its handler.\<close>

record button_line =
  pull_up :: bool
  input_mode :: bool
  neg_edge :: bool
  irq_on :: bool
  button_edges :: u32

definition arm_button_interrupt :: "(string \<Rightarrow> bool) \<Rightarrow> button_line \<Rightarrow> (string + unit) \<times> button_line" where
  "arm_button_interrupt ok l =
     (if \<not> ok ''failed to subscribe button ISR'' then (Inl ''failed to subscribe button ISR'', l)
      else if \<not> ok ''failed to set button interrupt type'' then (Inl ''failed to set button interrupt type'', l)
      else let l = l\<lparr>neg_edge := True\<rparr> in
        if \<not> ok ''failed to enable button interrupt'' then (Inl ''failed to enable button interrupt'', l)
        else (Inr (), l\<lparr>irq_on := True\<rparr>))"

definition button_irq_steps :: "driver_step list" where
  "button_irq_steps = steps [''failed to subscribe button ISR'', ''failed to set button interrupt type'', ''failed to enable button interrupt'']"

lemma arm_result: "fst (arm_button_interrupt ok l) = run_steps ok button_irq_steps"
  by (simp add: arm_button_interrupt_def button_irq_steps_def steps_def Let_def)

text \<open>A falling edge on the line.\<close>

definition button_edge :: "button_line \<Rightarrow> button_line" where
  "button_edge l = (if irq_on l \<and> neg_edge l then l\<lparr>button_edges := button_edges l + 1, irq_on := False\<rparr> else l)"

text \<open>\<open>restore_button_input\<close>: every call is tried, failures are logged.\<close>

definition restore_button_input :: "(string \<Rightarrow> bool) \<Rightarrow> button_line \<Rightarrow> button_line" where
  "restore_button_input ok l =
     (let l = (if ok ''pull'' then l\<lparr>pull_up := True\<rparr> else l);
          l = (if ok ''direction'' then l\<lparr>input_mode := True\<rparr> else l);
          l = (if ok ''type'' then l\<lparr>neg_edge := True\<rparr> else l)
      in if ok ''enable'' then l\<lparr>irq_on := True\<rparr> else l)"

text \<open>\<open>disarm_usb_iomux_reset\<close> on the value of \<open>RTC_CNTL_USB_CONF_REG\<close>.\<close>

definition disarm_usb_iomux_reset :: "u32 \<Rightarrow> u32" where
  "disarm_usb_iomux_reset current = current OR push_bit 18 1"

lemma disarm_bits: "bit (disarm_usb_iomux_reset r) n \<longleftrightarrow> n = 18 \<or> bit r n"
  unfolding disarm_usb_iomux_reset_def bit_or_iff bit_push_bit_iff bit_1_iff by auto

text \<open>
  The accesses of one pass of \<open>button_task_main\<close> to the line, with the falling edges that may come between them: after the
  counter is loaded, after the interrupt is enabled again, during the repair of the pin, and after that.
\<close>

record pass_edges =
  after_load :: bool
  after_enable :: bool
  in_repair :: bool
  after_reload :: bool

definition only_if :: "bool \<Rightarrow> ('a \<Rightarrow> 'a) \<Rightarrow> 'a \<Rightarrow> 'a" where
  "only_if c f x = (if c then f x else x)"

definition repairs :: "int \<Rightarrow> bool \<Rightarrow> button_state \<Rightarrow> bool" where
  "repairs now_us high s \<longleftrightarrow> \<not> high \<and> low_since s \<noteq> 0 \<and> BUTTON_HELD_RECOVER_US \<le> sat_sub now_us (low_since s) \<and>
     PULLUP_REFRESH_US \<le> sat_sub now_us (last_recover_us s)"

definition line_pass ::
    "(string \<Rightarrow> bool) \<Rightarrow> int \<times> bool \<times> pass_edges \<Rightarrow> button_state \<times> button_line \<Rightarrow> (bool \<times> button_state) \<times> button_line" where
  "line_pass ok i st =
     (case i of (now_us, high, g) \<Rightarrow> case st of (s, l) \<Rightarrow>
        let loaded = button_edges l;
            l = only_if (after_load g) button_edge l;
            l = only_if (loaded \<noteq> last_edges s \<and> ok ''enable'') (\<lambda>l. l\<lparr>irq_on := True\<rparr>) l;
            l = only_if (after_enable g) button_edge l;
            l = only_if (repairs now_us high s) (\<lambda>l. only_if (in_repair g) button_edge (restore_button_input ok l)) l;
            reloaded = button_edges l;
            l = only_if (after_reload g) button_edge l;
            l = only_if (PULLUP_REFRESH_US \<le> sat_sub now_us (last_pullup_us s) \<and> ok ''pull'') (\<lambda>l. l\<lparr>pull_up := True\<rparr>) l
        in (read_button \<lparr>bi_now_us = now_us, bi_edges = loaded, bi_high = high, bi_edges_after_repair = reloaded, bi_panel_at = 0,
              bi_high_later = high\<rparr> s, l))"

lemma read_button_edges:
  "last_edges (snd (read_button i s)) =
     (if repairs (bi_now_us i) (bi_high i) s then bi_edges_after_repair i else bi_edges i)"
  by (auto simp: read_button_def repairs_def Let_def)

definition line_live :: "button_state \<times> button_line \<Rightarrow> bool" where
  "line_live st \<longleftrightarrow> neg_edge (snd st) \<and> (irq_on (snd st) \<or> button_edges (snd st) \<noteq> last_edges (fst st))"

lemma word_steps: "(w :: u32) + 1 \<noteq> w" "(w :: u32) + 2 \<noteq> w" "(w :: u32) + 3 \<noteq> w" "w + 1 + 1 = w + 2" "w + 2 + 1 = w + 3"
  by simp_all

lemma line_pass_live:
  assumes "ok ''enable''" "ok ''type''" "line_live (s, l)" "repairs now_us high s \<longrightarrow> \<not> in_repair g"
  shows "line_live (snd (fst (line_pass ok (now_us, high, g) (s, l))), snd (line_pass ok (now_us, high, g) (s, l)))"
proof (cases "repairs now_us high s")
  case True
  then show ?thesis using assms
    by (simp add: line_pass_def line_live_def only_if_def read_button_edges button_edge_def restore_button_input_def Let_def)
next
  case False
  then show ?thesis using assms word_steps
    by (auto simp: line_pass_def line_live_def only_if_def read_button_edges button_edge_def Let_def)
qed

definition button_serve :: "int \<times> bool \<times> pass_edges \<Rightarrow> button_state \<times> button_line \<Rightarrow> button_state \<times> button_line" where
  "button_serve i st = (snd (fst (line_pass (\<lambda>_. True) i st)), snd (line_pass (\<lambda>_. True) i st))"

definition button_press :: "unit \<Rightarrow> button_state \<times> button_line \<Rightarrow> button_state \<times> button_line" where
  "button_press u st = (fst st, button_edge (snd st))"

lemma serve_edge_type: "neg_edge (snd st) \<Longrightarrow> neg_edge (snd (button_serve i st))"
  by (cases i; cases st) (auto simp: button_serve_def line_pass_def only_if_def button_edge_def restore_button_input_def Let_def)

definition button_sane :: "button_state \<times> button_line \<Rightarrow> bool" where
  "button_sane st \<longleftrightarrow> neg_edge (snd st) \<and> button_edges (snd st) - last_edges (fst st) \<in> {0, 1, 2} \<and>
     (irq_on (snd st) \<longrightarrow> button_edges (snd st) - last_edges (fst st) \<in> {0, 1})"

lemma serve_sane: "button_sane st \<Longrightarrow> button_sane (button_serve i st)"
proof -
  assume a: "button_sane st"
  obtain s l now high g where [simp]: "st = (s, l)" "i = (now, high, g)" by (metis prod.exhaust)
  have n: "neg_edge l" using a by (simp add: button_sane_def)
  show ?thesis
  proof (cases "repairs now high s")
    case True
    then show ?thesis using n
      by (auto simp: button_serve_def line_pass_def only_if_def read_button_edges button_edge_def restore_button_input_def button_sane_def Let_def)
  next
    case False
    then show ?thesis using n
      by (auto simp: button_serve_def line_pass_def only_if_def read_button_edges button_edge_def button_sane_def Let_def)
  qed
qed

lemma press_effect:
  assumes "button_sane st"
  shows "button_sane (button_press u st)" "irq_on (snd st) \<Longrightarrow> button_edges (snd (button_press u st)) \<noteq> last_edges (fst (button_press u st))"
  using assms by (auto simp: button_press_def button_edge_def button_sane_def diff_eq_eq prod_eq_iff)

lemma press_deaf: "\<not> irq_on (snd st) \<Longrightarrow> button_press u st = st"
  by (simp add: button_press_def button_edge_def)

interpretation button_irq: one_shot "\<lambda>st. irq_on (snd st)" "\<lambda>st. button_edges (snd st) \<noteq> last_edges (fst st)" button_sane
  "\<lambda>st. 0" 0 1 button_press button_serve "\<lambda>i st. \<not> in_repair (snd (snd i))"
proof unfold_locales
  fix st :: "button_state \<times> button_line" and i :: "int \<times> bool \<times> pass_edges"
  obtain s l now high g where [simp]: "st = (s, l)" "i = (now, high, g)" by (metis prod.exhaust)
  assume "button_sane st" "\<not> in_repair (snd (snd i))" "irq_on (snd st) \<or> button_edges (snd st) \<noteq> last_edges (fst st)"
  then show "irq_on (snd (button_serve i st)) \<or> button_edges (snd (button_serve i st)) \<noteq> last_edges (fst (button_serve i st))"
    using line_pass_live[of "\<lambda>_. True" s l now high g] by (auto simp: line_live_def button_serve_def button_sane_def)
qed (simp_all add: press_effect serve_sane press_deaf)


definition raw_line :: button_line where
  "raw_line = \<lparr>pull_up = True, input_mode = True, neg_edge = False, irq_on = False, button_edges = 0\<rparr>"

definition quiet_pass :: pass_edges where
  "quiet_pass = \<lparr>after_load = False, after_enable = False, in_repair = False, after_reload = False\<rparr>"

definition pressed_twice :: "(unit + int \<times> bool \<times> pass_edges) list" where
  "pressed_twice = [Inl (), Inr (1000, False, quiet_pass\<lparr>after_enable := True\<rparr>), Inr (11000, True, quiet_pass)]"


text \<open>
  An edge inside the repair is consumed without enabling the interrupt again. From then on no edge is counted until the
  pin is held low for the next repair; a press is seen only if a pass finds the level low.
\<close>

lemma repair_leaves_deaf:
  assumes "repairs now_us high s" "in_repair g"
  shows "case button_serve (now_us, high, g) (s, l) of (s', l') \<Rightarrow> neg_edge l' \<and> \<not> irq_on l' \<and> button_edges l' = last_edges s'"
  using assms by (auto simp: button_serve_def line_pass_def only_if_def read_button_edges button_edge_def restore_button_input_def Let_def)

lemma deaf_until_repair:
  assumes "\<not> irq_on l" "button_edges l = last_edges s" "\<not> repairs now_us high s"
  shows "case button_serve (now_us, high, g) (s, l) of (s', l') \<Rightarrow> \<not> irq_on l' \<and> button_edges l' = last_edges s' \<and> button_edges l' = button_edges l"
    "button_press () (s, l) = (s, l)"
  using assms by (auto simp: button_serve_def button_press_def line_pass_def only_if_def read_button_edges button_edge_def Let_def)

end
