(* ===== verification/Boot.thy ===== *)
theory Boot
  imports App_Props Interrupts Display Wifi Battery Http_Server Sd_Worker
begin

text \<open>Board bring-up and the way into the main loop (\<open>board.rs\<close>, the \<open>init\<close> functions of the drivers, \<open>run\<close> in app.rs): which
  driver calls are made in which order, which lines are claimed, and the state the loop starts with.\<close>

section \<open>The drivers\<close>

text \<open>\<open>GpsUart::init\<close>: after the UART is up the receiver is asked for RMC and GGA only; whether that write succeeds
  changes nothing.\<close>

definition PMTK_SET_NMEA_OUTPUT_RMC_GGA :: string where
  "PMTK_SET_NMEA_OUTPUT_RMC_GGA = ''PMTK314,0,1,0,1,0,0,0,0,0,0,0,0,0,0,0,0,0,0,0''"

definition uart_new :: gps_uart where
  "uart_new = \<lparr>uart_snapshot = gps_snapshot_default, line_buf = [], bytes_seen = 0\<rparr>"

definition uart_steps :: "driver_step list" where
  "uart_steps = steps [''failed to initialize GPS UART'']"

text \<open>The result carries the bytes written to the receiver.\<close>

definition gps_init :: "(string \<Rightarrow> bool) \<Rightarrow> pin_pool \<Rightarrow> (string + gps_uart \<times> string) \<times> pin_pool" where
  "gps_init ok pool =
     and_then (claim_lines [1, 2] ''gps'' pool) (\<lambda>_ pool.
     and_then (run_steps ok uart_steps, pool) (\<lambda>_ pool.
       (Inr (uart_new, nmea_frame PMTK_SET_NMEA_OUTPUT_RMC_GGA), pool)))"

definition gps_close :: "pin_pool \<Rightarrow> pin_pool" where
  "gps_close = release_lines [1, 2]"

text \<open>\<open>PpsDevice::init\<close> with \<open>configure_interrupt\<close>.\<close>

definition interrupt_steps :: "driver_step list" where
  "interrupt_steps = steps [''failed to subscribe PPS ISR callback'', ''failed to set PPS interrupt type'', ''failed to enable PPS interrupt'']"

definition pps_pin_steps :: "driver_step list" where
  "pps_pin_steps = steps [''failed to initialize PPS input pin'']"

definition pps_init :: "(string \<Rightarrow> bool) \<Rightarrow> pin_pool \<Rightarrow> (string + pps_sys \<times> pps_poll_state) \<times> pin_pool" where
  "pps_init ok pool =
     and_then (claim_lines [12] ''pps'' pool) (\<lambda>_ pool.
     and_then (run_steps ok pps_pin_steps, pool) (\<lambda>_ pool.
     and_then (run_steps ok interrupt_steps, pool) (\<lambda>_ pool.
       (Inr (pps_new, pps_poll_default), pool))))"

definition pps_close :: "pin_pool \<Rightarrow> pin_pool" where
  "pps_close = release_lines [12]"

definition i2c_steps :: "driver_step list" where
  "i2c_steps = steps [''failed to initialize Feather I2C bus'']"

definition i2c_init :: "(string \<Rightarrow> bool) \<Rightarrow> pin_pool \<Rightarrow> (string + unit) \<times> pin_pool" where
  "i2c_init ok pool =
     and_then (claim_lines [42, 41] ''i2c'' pool) (\<lambda>_ pool. (run_steps ok i2c_steps, pool))"

definition i2c_close :: "pin_pool \<Rightarrow> pin_pool" where
  "i2c_close = release_lines [42, 41]"

text \<open>\<open>start_guard\<close>: the channel is set up first, so a failure to spawn leaves it without a receiver, or the worker
  without a watchdog. The result comes with whether \<open>SD_JOBS\<close> is set and whether the worker runs.\<close>

definition start_guard :: "(string \<Rightarrow> bool) \<Rightarrow> bool \<Rightarrow> (string + unit) \<times> bool \<times> bool" where
  "start_guard ok already =
     (if already then (Inl ''SD worker already started'', True, True)
      else (run_steps ok (spawn_steps ''sd_io'' [] @ spawn_steps ''sd_wd'' []), True, spawned ok ''sd_io''))"

definition writer_steps :: "driver_step list" where
  "writer_steps = [(''sd_log config'', ''failed to configure SD log writer priority''), (''sd_log'', ''failed to spawn SD log writer''),
     (''sd_log restore'', ''failed to restore thread spawn configuration'')]"

definition start_writer :: "(string \<Rightarrow> bool) \<Rightarrow> string + unit" where
  "start_writer ok = run_steps ok writer_steps"

text \<open>\<open>UiTaskHandle::spawn\<close>: the two tasks over one \<open>UiControl\<close>; the result is the control, the time stored for the
  stall check, and the state the button task starts in.\<close>

definition ui_thread_steps :: "driver_step list" where
  "ui_thread_steps = spawn_steps ''ui_panel'' '' priority'' @ spawn_steps ''ui_button'' '' priority''"

definition ui_spawn :: "(string \<Rightarrow> bool) \<Rightarrow> int \<Rightarrow> string + ui_control \<times> int" where
  "ui_spawn ok now_us =
     (case run_steps ok (button_irq_steps @ ui_thread_steps) of
        Inl e \<Rightarrow> Inl e
      | Inr _ \<Rightarrow> Inr (ui_control_new, now_us))"

text \<open>\<open>register_mdns\<close>, with the mDNS component built in: \<open>None\<close> when the responder is taken, else whether all three registrations succeeded.\<close>

definition register_mdns :: "(string \<Rightarrow> bool) \<Rightarrow> bool option" where
  "register_mdns ok =
     (if \<not> ok ''mdns take'' then None
      else Some (ok ''mdns hostname'' \<and> ok ''mdns instance'' \<and> ok ''mdns _ntp._udp 123''))"

section \<open>The boot sequence\<close>

text \<open>What the boot hands to the main loop and keeps alive. \<open>'b\<close> is the I2C bus.\<close>

record ('tz, 'b) board =
  bd_uart :: gps_uart
  bd_pps :: pps_poll_state
  bd_feed :: ui_feed
  bd_rtc :: rtc_device
  bd_timezone :: "'tz timezone_boot"
  bd_cache :: tz_cache
  bd_battery :: "battery_monitor option"
  bd_bus :: 'b
  bd_wifi :: "string \<times> string \<times> auth_method"
  bd_display :: display_device
  bd_storage :: storage_device
  bd_sd_log :: bool
  bd_log_http :: bool
  bd_sd_worker :: "bool \<times> bool"
  bd_ui :: "ui_control \<times> int"
  bd_mdns :: "bool option"

record boot_env =
  be_ok :: "string \<Rightarrow> bool"
  be_primary :: card_env
  be_alternate :: card_env
  be_cache :: tz_cache
  be_ui_now_us :: int

definition board_steps :: "driver_step list" where
  "board_steps = steps [''failed to take ESP32 peripherals'', ''failed to take default NVS partition'', ''failed to take system event loop'']"

text \<open>The SD log and its server run only with a card.\<close>

definition card_services :: "(string \<Rightarrow> bool) \<Rightarrow> storage_device \<Rightarrow> string + bool" where
  "card_services ok dev =
     (if mounted (sd_status dev)
      then (case start_writer ok of
              Inl e \<Rightarrow> Inl e
            | Inr _ \<Rightarrow> (case start_http_server ok of Inl e \<Rightarrow> Inl e | Inr _ \<Rightarrow> Inr True))
      else Inr False)"

text \<open>The feed before the tasks start.\<close>

definition boot_feed :: "storage_status \<Rightarrow> rtc_device \<Rightarrow> gps_snapshot \<Rightarrow> ui_feed" where
  "boot_feed status rtc gps =
     (let feed = feed_new status;
          feed = (if present rtc then publish_rtc \<lparr>detected = True, rtc_utc = boot_utc rtc\<rparr> feed else feed)
      in publish_gps gps feed)"

text \<open>\<open>init_panel\<close> as a stage: the device it leaves.\<close>

definition panel_stage :: "(string \<Rightarrow> bool) \<Rightarrow> display_device \<Rightarrow> pin_pool \<Rightarrow> (string + display_device) \<times> pin_pool" where
  "panel_stage ok dev pool =
     (case init_panel ok dev pool of (Inl e, dev, pool) \<Rightarrow> (Inl e, pool) | (Inr _, dev, pool) \<Rightarrow> (Inr dev, pool))"

text \<open>\<open>BoardBoot::boot\<close>: the modules behind the buses, then the whole.\<close>

definition board_modules ::
    "chrono \<Rightarrow> 'tz tz_lib \<Rightarrow> 'b i2c_driver \<Rightarrow> 'tz tz_config \<Rightarrow> boot_env \<Rightarrow> string \<times> string \<times> auth_method \<Rightarrow> gps_uart \<Rightarrow>
     pps_poll_state \<Rightarrow> display_device \<Rightarrow> 'b \<Rightarrow> pin_pool \<Rightarrow> (string + ('tz, 'b) board) \<times> pin_pool" where
  "board_modules C L drv cfg E wifi uart pulse dev bus pool =
     (let ok = be_ok E in
        case detect_monitor drv bus of (battery, bus) \<Rightarrow>
        case rtc_init C drv bus of (rtc, bus) \<Rightarrow>
        case start_guard ok False of (guard, sd_worker) \<Rightarrow>
        case storage_init (\<not> isl guard) (be_primary E) (be_alternate E) pool of (storage, pool) \<Rightarrow>
      and_then (card_services ok storage, pool) (\<lambda>services pool.
      and_then (panel_stage ok dev pool) (\<lambda>dev pool.
        let cache = (be_cache E)\<lparr>tz_card_ready := sd_ready storage\<rparr>;
            tz = load_timezone_boot C L cache (boot_utc rtc) cfg;
            feed = boot_feed (sd_status storage) rtc (boot_gps tz)
        in and_then (ui_spawn ok (be_ui_now_us E), pool) (\<lambda>ui pool.
             (Inr \<lparr>bd_uart = set_snapshot (boot_gps tz) uart, bd_pps = pulse, bd_feed = feed, bd_rtc = rtc, bd_timezone = tz,
                bd_cache = cache, bd_battery = battery, bd_bus = bus, bd_wifi = wifi, bd_display = dev, bd_storage = storage,
                bd_sd_log = services, bd_log_http = services, bd_sd_worker = sd_worker, bd_ui = ui,
                bd_mdns = register_mdns ok\<rparr>, pool)))))"

definition board_boot ::
    "chrono \<Rightarrow> 'tz tz_lib \<Rightarrow> 'b i2c_driver \<Rightarrow> 'tz tz_config \<Rightarrow> boot_env \<Rightarrow> wifi_credentials \<Rightarrow> 'b \<Rightarrow>
     (string + ('tz, 'b) board) \<times> pin_pool" where
  "board_boot C L drv cfg E creds bus =
     (let ok = be_ok E in
      and_then (run_steps ok board_steps, from_board_pins) (\<lambda>_ pool.
      and_then (connect_wifi_sta ok creds, pool) (\<lambda>wifi pool.
      and_then (gps_init ok pool) (\<lambda>(uart, _) pool.
      and_then (pps_init ok pool) (\<lambda>(_, pulse) pool.
      and_then (display_init ok pool) (\<lambda>dev pool.
      and_then (i2c_init ok pool) (\<lambda>_ pool.
        board_modules C L drv cfg E wifi uart pulse dev bus pool)))))))"

section \<open>The stages leave the pool as wired\<close>

lemma gps_stage_pins:
  assumes "holding [] board_lines pool"
  shows "stage (gps_init ok pool) (and_so (run_steps ok uart_steps) (\<lambda>_. Inr (uart_new, nmea_frame PMTK_SET_NMEA_OUTPUT_RMC_GGA)))
    [(2, ''gps''), (1, ''gps'')] [0, 7, 10, 12, 21, 33, 35, 36, 37, 39, 40, 41, 42, 45]"
proof -
  have c: "stage (claim_lines [1, 2] ''gps'' pool) (Inr ()) [(2, ''gps''), (1, ''gps'')]
      [0, 7, 10, 12, 21, 33, 35, 36, 37, 39, 40, 41, 42, 45]"
    using stage_claim[OF assms, of "[1, 2]" "''gps''"] by (simp add: board_lines_def)
  have "stage (gps_init ok pool) (and_so (Inr ()) (\<lambda>_. and_so (run_steps ok uart_steps)
      (\<lambda>_. Inr (uart_new, nmea_frame PMTK_SET_NMEA_OUTPUT_RMC_GGA))))
    [(2, ''gps''), (1, ''gps'')] [0, 7, 10, 12, 21, 33, 35, 36, 37, 39, 40, 41, 42, 45]"
    unfolding gps_init_def by (intro stage_bind[OF c] stage_bind[OF stage_pure] stage_pure)
  then show ?thesis by simp
qed

lemma pps_stage_pins:
  assumes "holding [(2, ''gps''), (1, ''gps'')] [0, 7, 10, 12, 21, 33, 35, 36, 37, 39, 40, 41, 42, 45] pool"
  shows "stage (pps_init ok pool) (and_so (run_steps ok pps_pin_steps) (\<lambda>_. and_so (run_steps ok interrupt_steps)
      (\<lambda>_. Inr (pps_new, pps_poll_default))))
    [(12, ''pps''), (2, ''gps''), (1, ''gps'')] [0, 7, 10, 21, 33, 35, 36, 37, 39, 40, 41, 42, 45]"
proof -
  have c: "stage (claim_lines [12] ''pps'' pool) (Inr ()) [(12, ''pps''), (2, ''gps''), (1, ''gps'')]
      [0, 7, 10, 21, 33, 35, 36, 37, 39, 40, 41, 42, 45]"
    using stage_claim[OF assms, of "[12]" "''pps''"] by simp
  have "stage (pps_init ok pool) (and_so (Inr ()) (\<lambda>_. and_so (run_steps ok pps_pin_steps) (\<lambda>_. and_so (run_steps ok interrupt_steps)
      (\<lambda>_. Inr (pps_new, pps_poll_default)))))
    [(12, ''pps''), (2, ''gps''), (1, ''gps'')] [0, 7, 10, 21, 33, 35, 36, 37, 39, 40, 41, 42, 45]"
    unfolding pps_init_def by (intro stage_bind[OF c] stage_bind[OF stage_pure] stage_pure)
  then show ?thesis by simp
qed

definition bus_lines :: "(pin \<times> string) list" where
  "bus_lines = [(7, ''display''), (37, ''display''), (35, ''display''), (36, ''display''), (21, ''display''),
     (12, ''pps''), (2, ''gps''), (1, ''gps'')]"

lemma display_stage_pins:
  assumes "holding [(12, ''pps''), (2, ''gps''), (1, ''gps'')] [0, 7, 10, 21, 33, 35, 36, 37, 39, 40, 41, 42, 45] pool"
  shows "stage (display_init ok pool) (and_so (run_steps ok bus_steps) (\<lambda>_. and_so (run_steps ok tft_steps)
      (\<lambda>_. Inr \<lparr>tft_spi = True, panel_claimed = False\<rparr>))) bus_lines [0, 10, 33, 39, 40, 41, 42, 45]"
proof -
  have c: "stage (claim_lines [21, 36, 35, 37] ''display'' pool) (Inr ())
      [(37, ''display''), (35, ''display''), (36, ''display''), (21, ''display''), (12, ''pps''), (2, ''gps''), (1, ''gps'')]
      [0, 7, 10, 33, 39, 40, 41, 42, 45]"
    using stage_claim[OF assms, of "[21, 36, 35, 37]" "''display''"] by simp
  have cs: "stage (claim_lines [7] ''display'' p) (Inr ()) bus_lines [0, 10, 33, 39, 40, 41, 42, 45]"
    if "holding [(37, ''display''), (35, ''display''), (36, ''display''), (21, ''display''), (12, ''pps''), (2, ''gps''), (1, ''gps'')]
      [0, 7, 10, 33, 39, 40, 41, 42, 45] p" for p
    using stage_claim[OF that, of "[7]" "''display''"] by (simp add: bus_lines_def)
  have "stage (display_init ok pool) (and_so (Inr ()) (\<lambda>_. and_so (run_steps ok bus_steps) (\<lambda>_. and_so (Inr ()) (\<lambda>_.
      and_so (run_steps ok tft_steps) (\<lambda>_. Inr \<lparr>tft_spi = True, panel_claimed = False\<rparr>)))))
    bus_lines [0, 10, 33, 39, 40, 41, 42, 45]"
    unfolding display_init_def
    by (intro stage_bind[OF c] stage_bind[OF stage_pure] stage_bind[OF cs] stage_pure)
  then show ?thesis by simp
qed

definition card_lines :: "storage_device \<Rightarrow> (pin \<times> string) list" where
  "card_lines dev = (case cs_pin dev of None \<Rightarrow> [] | Some n \<Rightarrow> [(n, ''storage'')])"

lemma i2c_stage_pins:
  assumes "holding bus_lines [0, 10, 33, 39, 40, 41, 42, 45] pool"
  shows "stage (i2c_init ok pool) (run_steps ok i2c_steps) ([(41, ''i2c''), (42, ''i2c'')] @ bus_lines) [0, 10, 33, 39, 40, 45]"
proof -
  have c: "stage (claim_lines [42, 41] ''i2c'' pool) (Inr ()) ([(41, ''i2c''), (42, ''i2c'')] @ bus_lines) [0, 10, 33, 39, 40, 45]"
    using stage_claim[OF assms, of "[42, 41]" "''i2c''"] by (simp add: bus_lines_def)
  have "stage (i2c_init ok pool) (and_so (Inr ()) (\<lambda>_. run_steps ok i2c_steps)) ([(41, ''i2c''), (42, ''i2c'')] @ bus_lines)
    [0, 10, 33, 39, 40, 45]"
    unfolding i2c_init_def by (intro stage_bind[OF c] stage_pure)
  then show ?thesis by simp
qed

text \<open>The tokens left after the probe: a line that was tried is gone.\<close>

definition card_left :: "bool \<Rightarrow> card_env \<Rightarrow> pin list" where
  "card_left guard_ok primary =
     filter (\<lambda>x. x \<notin> (if \<not> guard_ok then {} else if mounted (fst (try_mount primary)) then {10} else {10, 33})) [0, 10, 33, 39, 40, 45]"

lemma storage_stage_pins:
  fixes guard_ok primary alternate
  defines "dev \<equiv> card_device guard_ok primary alternate"
  assumes "holding ([(41, ''i2c''), (42, ''i2c'')] @ bus_lines) [0, 10, 33, 39, 40, 45] pool"
  obtains p where "storage_init guard_ok primary alternate pool = (dev, p)"
    "holding (card_lines dev @ [(41, ''i2c''), (42, ''i2c'')] @ bus_lines) (card_left guard_ok primary) p"
proof -
  have h: "pool_inv pool" "{10, 33} \<subseteq> set (pool_lines pool)" "owner_of 10 (reg pool) = None" "owner_of 33 (reg pool) = None"
    using assms(2) by (simp_all add: holding_def bus_lines_def)
  obtain p where p: "storage_init guard_ok primary alternate pool = (dev, p)" "pool_inv p"
    "\<forall>q. owner_of q (reg p) = (if cs_pin dev = Some q then Some ''storage'' else owner_of q (reg pool))"
    "pool_lines p = filter (\<lambda>x. x \<notin> (if \<not> guard_ok then {} else if mounted (fst (try_mount primary)) then {10} else {10, 33})) (pool_lines pool)"
    unfolding dev_def by (rule storage_init_effect[OF h, of guard_ok primary alternate])
  have "holding (card_lines dev @ [(41, ''i2c''), (42, ''i2c'')] @ bus_lines) (card_left guard_ok primary) p"
    using assms(2) p(2-4) by (auto simp: holding_def card_lines_def card_left_def split: option.split)
  then show thesis using that p(1) by blast
qed

lemma panel_stage_pins:
  assumes "holding hs left pool" "{39, 40, 45, 0} \<subseteq> set left" "\<forall>n \<in> {39, 40, 45, 0}. map_of hs n = None" "tft_spi dev"
  shows "stage (panel_stage ok dev pool) (and_so (run_steps ok control_steps) (\<lambda>_. and_so (init_display ok)
      (\<lambda>_. Inr (dev\<lparr>tft_spi := False, panel_claimed := True\<rparr>))))
    ([(0, ''display''), (45, ''display''), (40, ''display''), (39, ''display'')] @ hs) (filter (\<lambda>x. x \<notin> {39, 40, 45, 0}) left)"
proof -
  obtain p where p: "claim_lines [39, 40, 45, 0] ''display'' pool = (Inr (), p)"
    "holding (rev (map (\<lambda>n. (n, ''display'')) [39, 40, 45, 0]) @ hs) (filter (\<lambda>x. x \<notin> set [39, 40, 45, 0]) left) p"
    by (rule claim_lines_holding[OF assms(1), of "[39, 40, 45, 0]" "''display''"]) (use assms(2,3) in auto)
  show ?thesis using p assms(4)
    by (cases "run_steps ok control_steps"; cases "init_display ok") (simp_all add: panel_stage_def init_panel_def Let_def stage_def)
qed

section \<open>The outcome of a boot\<close>

text \<open>The boot without its pins: the board it assembles, and the calls that can stop it.\<close>

definition boot_card :: "boot_env \<Rightarrow> storage_device" where
  "boot_card E = card_device (\<not> isl (fst (start_guard (be_ok E) False))) (be_primary E) (be_alternate E)"

definition boot_cache :: "boot_env \<Rightarrow> tz_cache" where
  "boot_cache E = (be_cache E)\<lparr>tz_card_ready := sd_ready (boot_card E)\<rparr>"

definition assembled ::
    "chrono \<Rightarrow> 'tz tz_lib \<Rightarrow> 'b i2c_driver \<Rightarrow> 'tz tz_config \<Rightarrow> boot_env \<Rightarrow> 'b \<Rightarrow> string \<times> string \<times> auth_method \<Rightarrow> ('tz, 'b) board" where
  "assembled C L drv cfg E bus wifi =
     (let (battery, bus) = detect_monitor drv bus;
          (rtc, bus) = rtc_init C drv bus;
          tz = load_timezone_boot C L (boot_cache E) (boot_utc rtc) cfg
      in \<lparr>bd_uart = set_snapshot (boot_gps tz) uart_new, bd_pps = pps_poll_default,
          bd_feed = boot_feed (sd_status (boot_card E)) rtc (boot_gps tz), bd_rtc = rtc, bd_timezone = tz,
          bd_cache = boot_cache E, bd_battery = battery, bd_bus = bus, bd_wifi = wifi,
          bd_display = \<lparr>tft_spi = False, panel_claimed = True\<rparr>, bd_storage = boot_card E,
          bd_sd_log = mounted (sd_status (boot_card E)), bd_log_http = mounted (sd_status (boot_card E)),
          bd_sd_worker = snd (start_guard (be_ok E) False), bd_ui = (ui_control_new, be_ui_now_us E),
          bd_mdns = register_mdns (be_ok E)\<rparr>)"

definition boot_outcome ::
    "chrono \<Rightarrow> 'tz tz_lib \<Rightarrow> 'b i2c_driver \<Rightarrow> 'tz tz_config \<Rightarrow> boot_env \<Rightarrow> wifi_credentials \<Rightarrow> 'b \<Rightarrow> string + ('tz, 'b) board" where
  "boot_outcome C L drv cfg E creds bus =
     (let ok = be_ok E in
      and_so (run_steps ok board_steps) (\<lambda>_.
      and_so (connect_wifi_sta ok creds) (\<lambda>wifi.
      and_so (run_steps ok uart_steps) (\<lambda>_.
      and_so (run_steps ok pps_pin_steps) (\<lambda>_. and_so (run_steps ok interrupt_steps) (\<lambda>_.
      and_so (run_steps ok bus_steps) (\<lambda>_. and_so (run_steps ok tft_steps) (\<lambda>_.
      and_so (run_steps ok i2c_steps) (\<lambda>_.
      and_so (card_services ok (boot_card E)) (\<lambda>_.
      and_so (run_steps ok control_steps) (\<lambda>_. and_so (init_display ok) (\<lambda>_.
      and_so (ui_spawn ok (be_ui_now_us E)) (\<lambda>_.
        Inr (assembled C L drv cfg E bus wifi))))))))))))))"

lemma and_so_assoc: "and_so (and_so x f) g = and_so x (\<lambda>a. and_so (f a) g)"
  by (cases x) simp_all

lemma and_so_cong: "(\<And>a. x = Inr a \<Longrightarrow> f a = g a) \<Longrightarrow> and_so x f = and_so x g"
  by (cases x) simp_all

lemma card_services_ok: "card_services ok dev = Inr a \<Longrightarrow> a = mounted (sd_status dev)"
  by (auto simp: card_services_def split: if_splits sum.splits)

lemma ui_spawn_ok: "ui_spawn ok t = Inr a \<Longrightarrow> a = (ui_control_new, t)"
  by (auto simp: ui_spawn_def split: sum.splits)

definition boot_lines :: "storage_device \<Rightarrow> (pin \<times> string) list" where
  "boot_lines dev = [(0, ''display''), (45, ''display''), (40, ''display''), (39, ''display'')] @
     card_lines dev @ [(41, ''i2c''), (42, ''i2c'')] @ bus_lines"

definition boot_left :: "boot_env \<Rightarrow> pin list" where
  "boot_left E = filter (\<lambda>x. x \<notin> {39, 40, 45, 0}) (card_left (\<not> isl (fst (start_guard (be_ok E) False))) (be_primary E))"

lemma board_modules_pins:
  assumes "holding ([(41, ''i2c''), (42, ''i2c'')] @ bus_lines) [0, 10, 33, 39, 40, 45] pool"
  shows "stage (board_modules C L drv cfg E wifi uart_new pps_poll_default \<lparr>tft_spi = True, panel_claimed = False\<rparr> bus pool)
    (and_so (card_services (be_ok E) (boot_card E)) (\<lambda>_. and_so (run_steps (be_ok E) control_steps) (\<lambda>_. and_so (init_display (be_ok E)) (\<lambda>_.
      and_so (ui_spawn (be_ok E) (be_ui_now_us E)) (\<lambda>_. Inr (assembled C L drv cfg E bus wifi))))))
    (boot_lines (boot_card E)) (boot_left E)"
proof -
  let ?ok = "be_ok E"
  define left where "left = card_left (\<not> isl (fst (start_guard ?ok False))) (be_primary E)"
  obtain p where p: "storage_init (\<not> isl (fst (start_guard ?ok False))) (be_primary E) (be_alternate E) pool = (boot_card E, p)"
    "holding (card_lines (boot_card E) @ [(41, ''i2c''), (42, ''i2c'')] @ bus_lines) left p"
    unfolding boot_card_def left_def by (rule storage_stage_pins[OF assms])
  have sub: "{39, 40, 45, 0} \<subseteq> set left" by (simp add: left_def card_left_def)
  have free: "\<forall>n \<in> {39, 40, 45, 0}. map_of (card_lines (boot_card E) @ [(41, ''i2c''), (42, ''i2c'')] @ bus_lines) n = None"
    by (auto simp: card_lines_def bus_lines_def boot_card_def card_device_fields split: option.splits if_splits)
  obtain battery b1 where d: "detect_monitor drv bus = (battery, b1)" by fastforce
  obtain rtc b2 where r: "rtc_init C drv b1 = (rtc, b2)" by fastforce
  obtain guard w where g: "start_guard ?ok False = (guard, w)" by (meson surj_pair)
  define dev where "dev = \<lparr>tft_spi = True, panel_claimed = False\<rparr>"
  define tz where "tz = load_timezone_boot C L (boot_cache E) (boot_utc rtc) cfg"
  define final where "final = (\<lambda>services dev ui. \<lparr>bd_uart = set_snapshot (boot_gps tz) uart_new, bd_pps = pps_poll_default,
     bd_feed = boot_feed (sd_status (boot_card E)) rtc (boot_gps tz), bd_rtc = rtc, bd_timezone = tz,
     bd_cache = boot_cache E, bd_battery = battery, bd_bus = b2, bd_wifi = wifi, bd_display = dev, bd_storage = boot_card E,
     bd_sd_log = services, bd_log_http = services, bd_sd_worker = w, bd_ui = ui, bd_mdns = register_mdns ?ok\<rparr>)"
  have tail: "board_modules C L drv cfg E wifi uart_new pps_poll_default dev bus pool =
      and_then (card_services ?ok (boot_card E), p) (\<lambda>services pool. and_then (panel_stage ?ok dev pool) (\<lambda>dev pool.
        and_then (ui_spawn ?ok (be_ui_now_us E), pool) (\<lambda>ui pool. (Inr (final services dev ui), pool))))"
    using p(1) g by (simp add: board_modules_def d r final_def tz_def boot_cache_def Let_def)
  have "stage (board_modules C L drv cfg E wifi uart_new pps_poll_default dev bus pool)
     (and_so (card_services ?ok (boot_card E)) (\<lambda>services. and_so (and_so (run_steps ?ok control_steps) (\<lambda>_. and_so (init_display ?ok)
       (\<lambda>_. Inr (dev\<lparr>tft_spi := False, panel_claimed := True\<rparr>)))) (\<lambda>dev. and_so (ui_spawn ?ok (be_ui_now_us E)) (\<lambda>ui.
          Inr (final services dev ui))))) (boot_lines (boot_card E)) (boot_left E)"
    unfolding tail boot_lines_def boot_left_def left_def[symmetric]
    by (intro stage_bind[OF stage_pure[OF p(2)]] stage_bind[OF panel_stage_pins[OF _ sub free]] stage_bind[OF stage_pure] stage_pure)
      (simp_all add: dev_def)
  moreover have "assembled C L drv cfg E bus wifi =
      final (mounted (sd_status (boot_card E))) \<lparr>tft_spi = False, panel_claimed = True\<rparr> (ui_control_new, be_ui_now_us E)"
    by (simp add: assembled_def d r g final_def tz_def Let_def)
  moreover have "and_so (card_services ?ok (boot_card E)) (\<lambda>services. and_so x (\<lambda>_. and_so y (\<lambda>_. and_so (ui_spawn ?ok (be_ui_now_us E)) (\<lambda>ui.
        Inr (final services dev1 ui))))) =
      and_so (card_services ?ok (boot_card E)) (\<lambda>_. and_so x (\<lambda>_. and_so y (\<lambda>_. and_so (ui_spawn ?ok (be_ui_now_us E)) (\<lambda>_.
        Inr (final (mounted (sd_status (boot_card E))) dev1 (ui_control_new, be_ui_now_us E))))))" for x :: "string + unit" and y :: "string + backlight_state" and dev1
    by (cases "card_services ?ok (boot_card E)"; cases "ui_spawn ?ok (be_ui_now_us E)")
      (auto dest!: card_services_ok ui_spawn_ok)
  ultimately show ?thesis unfolding dev_def by (auto simp: and_so_assoc)
qed

lemma stage_bind_val:
  assumes "stage r x hs left" "\<And>a. x = Inr a \<Longrightarrow> a = v" "\<And>pool. holding hs left pool \<Longrightarrow> stage (k v pool) y hs' left'"
  shows "stage (and_then r k) (and_so x (\<lambda>_. y)) hs' left'"
  using assms by (intro stage_bind) auto

lemma and_so_val: "and_so x (\<lambda>_. Inr v) = Inr a \<Longrightarrow> a = v"
  by (cases x) auto

lemma buses_pins:
  assumes modules: "\<And>p. holding ([(41, ''i2c''), (42, ''i2c'')] @ bus_lines) [0, 10, 33, 39, 40, 45] p \<Longrightarrow>
      stage (k uart_new pps_poll_default \<lparr>tft_spi = True, panel_claimed = False\<rparr> p) y hs left"
    and "holding [] board_lines p"
  shows "stage (and_then (gps_init ok p) (\<lambda>(uart, _) p. and_then (pps_init ok p) (\<lambda>(_, pulse) p.
      and_then (display_init ok p) (\<lambda>dev p. and_then (i2c_init ok p) (\<lambda>_. k uart pulse dev)))))
    (and_so (run_steps ok uart_steps) (\<lambda>_. and_so (run_steps ok pps_pin_steps) (\<lambda>_. and_so (run_steps ok interrupt_steps) (\<lambda>_.
      and_so (run_steps ok bus_steps) (\<lambda>_. and_so (run_steps ok tft_steps) (\<lambda>_. and_so (run_steps ok i2c_steps) (\<lambda>_. y))))))) hs left"
proof -
  define dev where "dev = \<lparr>tft_spi = True, panel_claimed = False\<rparr>"
  define i2c_y where "i2c_y = and_so (run_steps ok i2c_steps) (\<lambda>_. y)"
  define display_y where "display_y = and_so (and_so (run_steps ok bus_steps) (\<lambda>_. and_so (run_steps ok tft_steps) (\<lambda>_. Inr dev))) (\<lambda>_. i2c_y)"
  define pps_y where "pps_y = and_so (and_so (run_steps ok pps_pin_steps) (\<lambda>_. and_so (run_steps ok interrupt_steps)
    (\<lambda>_. Inr (pps_new, pps_poll_default)))) (\<lambda>_. display_y)"
  note vals = and_so_assoc[symmetric] and_so_val
  have i2c: "stage (and_then (i2c_init ok p) (\<lambda>_. k uart_new pps_poll_default dev)) i2c_y hs left"
    if "holding bus_lines [0, 10, 33, 39, 40, 41, 42, 45] p" for p
    unfolding i2c_y_def dev_def by (rule stage_bind_val[where v = "()", OF i2c_stage_pins[OF that]]) (simp_all add: modules)
  have display: "stage (and_then (display_init ok p) (\<lambda>dev p. and_then (i2c_init ok p) (\<lambda>_. k uart_new pps_poll_default dev))) display_y hs left"
    if "holding [(12, ''pps''), (2, ''gps''), (1, ''gps'')] [0, 7, 10, 21, 33, 35, 36, 37, 39, 40, 41, 42, 45] p" for p
    unfolding display_y_def
    by (rule stage_bind_val[where v = dev, OF display_stage_pins[OF that, folded dev_def]]) (simp_all add: i2c vals)
  have pulse: "stage (and_then (pps_init ok p) (\<lambda>(_, pulse) p. and_then (display_init ok p) (\<lambda>dev p. and_then (i2c_init ok p)
       (\<lambda>_. k uart_new pulse dev)))) pps_y hs left"
    if "holding [(2, ''gps''), (1, ''gps'')] [0, 7, 10, 12, 21, 33, 35, 36, 37, 39, 40, 41, 42, 45] p" for p
    unfolding pps_y_def
    by (rule stage_bind_val[where v = "(pps_new, pps_poll_default)", OF pps_stage_pins[OF that]]) (simp_all add: display vals)
  have "stage (and_then (gps_init ok p) (\<lambda>(uart, _) p. and_then (pps_init ok p) (\<lambda>(_, pulse) p. and_then (display_init ok p)
       (\<lambda>dev p. and_then (i2c_init ok p) (\<lambda>_. k uart pulse dev)))))
      (and_so (and_so (run_steps ok uart_steps) (\<lambda>_. Inr (uart_new, nmea_frame PMTK_SET_NMEA_OUTPUT_RMC_GGA))) (\<lambda>_. pps_y)) hs left"
    by (rule stage_bind_val[where v = "(uart_new, nmea_frame PMTK_SET_NMEA_OUTPUT_RMC_GGA)", OF gps_stage_pins[OF assms(2)]])
      (simp_all add: pulse vals)
  then show ?thesis by (simp add: and_so_assoc i2c_y_def display_y_def pps_y_def)
qed

lemma board_boot_pins:
  "stage (board_boot C L drv cfg E creds bus) (boot_outcome C L drv cfg E creds bus) (boot_lines (boot_card E)) (boot_left E)"
  unfolding board_boot_def boot_outcome_def Let_def
  by (intro stage_bind[OF stage_pure[OF holding_init]] stage_bind[OF stage_pure] buses_pins board_modules_pins)

lemma outcome_iff:
  "(\<exists>b. boot_outcome C L drv cfg E creds bus = Inr b) \<longleftrightarrow>
    (\<forall>s \<in> set (board_steps @ wifi_create_steps @ wifi_join_steps @ uart_steps @ pps_pin_steps @ interrupt_steps @ bus_steps @
        tft_steps @ i2c_steps @ control_steps @ panel_steps @ button_irq_steps @ ui_thread_steps). be_ok E (fst s)) \<and>
    length (cred_ssid creds) \<le> 32 \<and> length (cred_pass creds) \<le> 64 \<and>
    (cs_pin (boot_card E) \<noteq> None \<longrightarrow> (\<forall>s \<in> set (writer_steps @ http_steps). be_ok E (fst s)))"
proof -
  let ?ok = "be_ok E"
  have steps: "(\<exists>a. run_steps ?ok ss = Inr a) \<longleftrightarrow> (\<forall>s \<in> set ss. ?ok (fst s))" for ss
    using run_steps_ok[of ?ok ss] by auto
  have wifi: "(\<exists>a. connect_wifi_sta ?ok creds = Inr a) \<longleftrightarrow> (\<forall>s \<in> set (wifi_create_steps @ wifi_join_steps). ?ok (fst s)) \<and>
      length (cred_ssid creds) \<le> 32 \<and> length (cred_pass creds) \<le> 64"
    using steps[of wifi_create_steps] steps[of wifi_join_steps]
    by (auto simp: connect_wifi_sta_def station_config_def split: sum.splits)
  have panel: "(\<exists>a. init_display ?ok = Inr a) \<longleftrightarrow> (\<forall>s \<in> set panel_steps. ?ok (fst s))"
    using steps[of panel_steps] by (auto simp: init_display_def split: sum.splits)
  have ui: "(\<exists>a. ui_spawn ?ok t = Inr a) \<longleftrightarrow> (\<forall>s \<in> set (button_irq_steps @ ui_thread_steps). ?ok (fst s))" for t
    using steps[of "button_irq_steps @ ui_thread_steps"] by (auto simp: ui_spawn_def split: sum.splits)
  have card: "(\<exists>a. card_services ?ok (boot_card E) = Inr a) \<longleftrightarrow>
      (cs_pin (boot_card E) \<noteq> None \<longrightarrow> (\<forall>s \<in> set (writer_steps @ http_steps). ?ok (fst s)))"
    using steps[of writer_steps] steps[of http_steps] card_device_fields(2)[folded boot_card_def]
    by (auto simp: card_services_def start_writer_def start_http_server_def boot_card_def split: sum.splits)
  show ?thesis
    unfolding boot_outcome_def Let_def and_so_ok
    using steps wifi panel ui card by (simp add: ball_Un) blast
qed

section \<open>From power-up to the main loop\<close>

definition bind_steps :: "driver_step list" where
  "bind_steps = steps [''failed to bind UDP socket on port 123'', ''failed to set NTP socket nonblocking'']"

definition tz_spawn_steps :: "driver_step list" where
  "tz_spawn_steps = [(''tz_lookup config'', ''failed to configure timezone worker priority''), (''tz_lookup'', ''failed to spawn timezone lookup worker''),
     (''tz_lookup restore'', ''failed to restore thread spawn configuration'')]"

text \<open>\<open>run\<close> up to its loop: credentials, board, server, lookup thread, and the backlog of the UART dropped. The logger
  (\<open>logging_init\<close>) has no part in the state. \<open>cidr\<close> is the build-time access list, \<open>now_us\<close> the clock when the RTC seeds
  the server.\<close>

definition app_of_board :: "('tz, 'b) board \<Rightarrow> ntp_server \<Rightarrow> bool \<Rightarrow> 'tz app" where
  "app_of_board b s worker =
     \<lparr>gps_uart = discard_backlog (bd_uart b), pps = bd_pps b, server = s, ui_feed = bd_feed b,
      tz_worker = (if worker then Some tz_spawn else None), tz_cache = bd_cache b, tz_cfg = boot_cfg (bd_timezone b),
      tz_initialized = boot_tz_initialized (bd_timezone b), current_tz_name = boot_tz_name (bd_timezone b),
      rtc_present = present (bd_rtc b), last_tz_lookup_us = 0, last_ntp_publish_us = 0, last_ntp_served = 0,
      last_rtc_fallback_us = 0, last_rtc_utc = boot_utc (bd_rtc b), last_rtc_write_us = 0, first_fix_logged = False,
      rtc_seeded_from_gps = (boot_utc (bd_rtc b) \<noteq> None)\<rparr>"

definition firmware_start ::
    "chrono \<Rightarrow> 'tz tz_lib \<Rightarrow> 'b i2c_driver \<Rightarrow> 'tz tz_config \<Rightarrow> boot_env \<Rightarrow> string option \<Rightarrow> string option \<Rightarrow> string \<Rightarrow> int \<Rightarrow> 'b \<Rightarrow>
     string + ('tz, 'b) board \<times> 'tz app" where
  "firmware_start C L drv cfg E env_ssid env_pass cidr now_us bus =
     (case load_wifi_credentials_from_env env_ssid env_pass of
        Inl e \<Rightarrow> Inl e
      | Inr creds \<Rightarrow>
          (case fst (board_boot C L drv cfg E creds bus) of
             Inl e \<Rightarrow> Inl e
           | Inr b \<Rightarrow>
               (case run_steps (be_ok E) bind_steps of
                  Inl e \<Rightarrow> Inl e
                | Inr _ \<Rightarrow>
                    Inr (b, app_of_board b (init_ntp_server cidr (boot_utc (bd_rtc b)) now_us)
                          (run_steps (be_ok E) tz_spawn_steps = Inr ())))))"

lemma assembled_app:
  "app_of_board (assembled C L drv cfg E bus wifi) (init_ntp_server cidr (boot_utc (bd_rtc (assembled C L drv cfg E bus wifi))) now_us) worker =
   boot_app C L cfg (boot_cache E) (fst (rtc_init C drv (snd (detect_monitor drv bus)))) (sd_status (boot_card E)) cidr now_us worker
     pps_poll_default uart_new"
  by (simp add: app_of_board_def boot_app_def assembled_def boot_feed_def Let_def discard_backlog_def split: prod.split)

lemma boot_outcome_board:
  assumes "boot_outcome C L drv cfg E creds bus = Inr b"
  obtains wifi where "connect_wifi_sta (be_ok E) creds = Inr wifi" "b = assembled C L drv cfg E bus wifi"
  using assms by (auto simp: boot_outcome_def and_so_def Let_def split: sum.splits)

lemma board_boot_result: "fst (board_boot C L drv cfg E creds bus) = boot_outcome C L drv cfg E creds bus"
  using board_boot_pins[of C L drv cfg E creds bus] by (simp add: stage_def)

lemma start_is_boot:
  assumes "firmware_start C L drv cfg E env_ssid env_pass cidr now_us bus = Inr (b, a)"
  shows "\<exists>worker. a = boot_app C L cfg (bd_cache b) (bd_rtc b) (sd_status (bd_storage b)) cidr now_us worker pps_poll_default uart_new"
proof -
  obtain creds worker where f: "fst (board_boot C L drv cfg E creds bus) = Inr b"
    "a = app_of_board b (init_ntp_server cidr (boot_utc (bd_rtc b)) now_us) worker"
    using assms by (auto simp: firmware_start_def split: sum.splits)
  obtain wifi where b: "b = assembled C L drv cfg E bus wifi"
    using boot_outcome_board[OF f(1)[unfolded board_boot_result]] by metis
  have "bd_cache b = boot_cache E" "bd_rtc b = fst (rtc_init C drv (snd (detect_monitor drv bus)))" "bd_storage b = boot_card E"
    by (simp_all add: b assembled_def Let_def split: prod.split)
  then show ?thesis using f(2) assembled_app[of C L drv cfg E bus wifi cidr now_us worker] b by auto
qed

section \<open>Correctness\<close>

text \<open>C16: What the boot needs: it succeeds exactly when every driver call of the clock, the network, the display and the tasks succeeds
  and the credentials fit, and, if a card is mounted, the services of the card start too. Nothing else stops it: no claim of a GPIO
  line fails, and a missing card, RTC, fuel gauge, SD worker, time-zone cache or mDNS responder is survived.\<close>

theorem boot_needs:
  "(\<exists>b. fst (board_boot C L drv cfg E creds bus) = Inr b) \<longleftrightarrow>
    (\<forall>s \<in> set (board_steps @ wifi_create_steps @ wifi_join_steps @ uart_steps @ pps_pin_steps @ interrupt_steps @ bus_steps @
        tft_steps @ i2c_steps @ control_steps @ panel_steps @ button_irq_steps @ ui_thread_steps). be_ok E (fst s)) \<and>
    length (cred_ssid creds) \<le> 32 \<and> length (cred_pass creds) \<le> 64 \<and>
    (cs_pin (boot_card E) \<noteq> None \<longrightarrow> (\<forall>s \<in> set (writer_steps @ http_steps). be_ok E (fst s)))"
  unfolding board_boot_result by (rule outcome_iff)

text \<open>A device without card, RTC, fuel gauge and mDNS.\<close>

definition bare_env :: boot_env where
  "bare_env = \<lparr>be_ok = (\<lambda>s. s \<notin> {''mdns take'', ''sd_wd''}), be_primary = good_card, be_alternate = good_card\<lparr>card_ok := False\<rparr>,
     be_cache = \<lparr>nvs_store = False, nvs_ok = False, nvs_tz = None, tz_card_ready = False, sd_write_ok = False, sd_tz = None\<rparr>,
     be_ui_now_us = 0\<rparr>"

definition lan :: wifi_credentials where
  "lan = \<lparr>cred_ssid = ''lan'', cred_pass = ''secret''\<rparr>"

lemma bare_env_calls:
  "\<forall>s \<in> set (board_steps @ wifi_create_steps @ wifi_join_steps @ uart_steps @ pps_pin_steps @ interrupt_steps @ bus_steps @
     tft_steps @ i2c_steps @ control_steps @ panel_steps @ button_irq_steps @ ui_thread_steps). be_ok bare_env (fst s)"
  "cs_pin (boot_card bare_env) = None" "run_steps (be_ok bare_env) bind_steps = Inr ()"
  by (simp_all add: bare_env_def board_steps_def wifi_create_steps_def wifi_join_steps_def uart_steps_def pps_pin_steps_def
      interrupt_steps_def bus_steps_def tft_steps_def i2c_steps_def control_steps_def panel_steps_def button_irq_steps_def
      ui_thread_steps_def spawn_steps_def steps_def boot_card_def card_device_def no_storage_def start_guard_def bind_steps_def)

theorem boot_needs_witness:
  "\<exists>b. fst (board_boot gregorian no_tz (chip_driver 0 0) utc_config bare_env lan (\<lambda>_. 0)) = Inr b"
  using boot_needs[of gregorian no_tz "chip_driver 0 0" utc_config bare_env lan "\<lambda>_. 0"] bare_env_calls
  by (simp add: lan_def)

text \<open>C17: The wiring after a boot: every module that came up owns its lines and no other, the card its chip select on the primary or
  the alternate line exactly if it is mounted, all other lines are free; and a mounted card implies that the SD worker and its
  watchdog run, so a filesystem call always finds a worker, and that the log and its server run.\<close>

theorem boot_wiring:
  assumes "board_boot C L drv cfg E creds bus = (Inr b, pool)"
  shows "(\<forall>q. owner_of q (reg pool) =
      (if q \<in> {1, 2} then Some ''gps'' else if q = 12 then Some ''pps'' else if q \<in> {41, 42} then Some ''i2c''
       else if q \<in> {0, 7, 21, 35, 36, 37, 39, 40, 45} then Some ''display''
       else if cs_pin (bd_storage b) = Some q then Some ''storage'' else None)) \<and>
    cs_pin (bd_storage b) \<in> {None, Some 10, Some 33} \<and> mounted (sd_status (bd_storage b)) = (cs_pin (bd_storage b) \<noteq> None) \<and>
    (mounted (sd_status (bd_storage b)) \<longrightarrow> bd_sd_log b \<and> bd_log_http b \<and>
      (\<forall>worker this. sd_call worker this (fst (bd_sd_worker b)) (snd (bd_sd_worker b)) \<in> {Run_Inline, Queue_And_Wait}))"
proof -
  have o: "boot_outcome C L drv cfg E creds bus = Inr b" using board_boot_result[of C L drv cfg E creds bus] assms by simp
  then have h: "holding (boot_lines (boot_card E)) (boot_left E) pool"
    using board_boot_pins[of C L drv cfg E creds bus] assms by (simp add: stage_def)
  obtain wifi where "b = assembled C L drv cfg E bus wifi" by (rule boot_outcome_board[OF o])
  then have b: "bd_storage b = boot_card E" "bd_sd_worker b = snd (start_guard (be_ok E) False)"
    "bd_sd_log b = mounted (sd_status (boot_card E))" "bd_log_http b = mounted (sd_status (boot_card E))"
    by (simp_all add: assembled_def Let_def split: prod.split)
  have c: "cs_pin (boot_card E) \<in> {None, Some 10, Some 33}" "mounted (sd_status (boot_card E)) = (cs_pin (boot_card E) \<noteq> None)"
    "mounted (sd_status (boot_card E)) \<Longrightarrow> \<not> isl (fst (start_guard (be_ok E) False))"
    unfolding boot_card_def card_device_fields by (auto split: if_splits)
  have w: "snd (start_guard (be_ok E) False) = (True, True)" if "\<not> isl (fst (start_guard (be_ok E) False))"
    using that by (auto simp: start_guard_def run_steps_append spawn_runs split: sum.splits)
  have "owner_of q (reg pool) = map_of (boot_lines (boot_card E)) q" for q using h by (simp add: holding_def)
  then show ?thesis using b c w
    by (auto simp: boot_lines_def bus_lines_def card_lines_def sd_call_def split: option.split)
qed

theorem boot_wiring_witness:
  "\<exists>b pool. board_boot gregorian no_tz (chip_driver 0 0) utc_config bare_env lan (\<lambda>_. 0) = (Inr b, pool) \<and>
    owner_of 12 (reg pool) = Some ''pps''"
proof -
  obtain b where "fst (board_boot gregorian no_tz (chip_driver 0 0) utc_config bare_env lan (\<lambda>_. 0)) = Inr b"
    using outcome_iff[of gregorian no_tz "chip_driver 0 0" utc_config bare_env lan "\<lambda>_. 0"] bare_env_calls
    by (auto simp: lan_def board_boot_result)
  then obtain pool where r: "board_boot gregorian no_tz (chip_driver 0 0) utc_config bare_env lan (\<lambda>_. 0) = (Inr b, pool)"
    by (metis prod.collapse)
  then show ?thesis using boot_wiring[OF r] by simp
qed

text \<open>C5: The boot refines the start of the main loop: whatever the board and the build environment are, a firmware that gets to
  its loop starts it in a reachable state, the one \<open>boot_app\<close> computes from the zone cache, the RTC and the card the board
  found, so everything proved of the reachable states holds of it.\<close>

theorem boot_reaches_loop:
  assumes "firmware_start C L drv cfg E env_ssid env_pass cidr now_us bus = Inr (b, a)"
  shows "app_reach C L log2 fudge a \<and>
    (\<exists>worker. a = boot_app C L cfg (bd_cache b) (bd_rtc b) (sd_status (bd_storage b)) cidr now_us worker pps_poll_default uart_new)"
using start_is_boot[OF assms] app_boot by blast

lemma bare_start:
  obtains b a where "firmware_start gregorian no_tz (chip_driver 0 0) utc_config bare_env (Some ''lan'') (Some ''secret'') '''' 1 (\<lambda>_. 0) = Inr (b, a)"
proof -
  have t: "trim ''lan'' = ''lan''" "trim ''secret'' = ''secret''" by (code_simp, code_simp)
  have l: "load_wifi_credentials_from_env (Some ''lan'') (Some ''secret'') = Inr lan"
    by (simp add: load_wifi_credentials_from_env_def non_empty_trimmed_def t lan_def)
  obtain b where "fst (board_boot gregorian no_tz (chip_driver 0 0) utc_config bare_env lan (\<lambda>_. 0)) = Inr b"
    using outcome_iff[of gregorian no_tz "chip_driver 0 0" utc_config bare_env lan "\<lambda>_. 0"] bare_env_calls
    by (auto simp: lan_def board_boot_result)
  then show thesis using that l bare_env_calls(3) by (simp add: firmware_start_def)
qed

theorem boot_reaches_loop_witness:
  "\<exists>b a. firmware_start gregorian no_tz (chip_driver 0 0) utc_config bare_env (Some ''lan'') (Some ''secret'') '''' 1 (\<lambda>_. 0) = Inr (b, a) \<and>
    app_reach gregorian no_tz id 1 a"
proof -
  obtain b a where r: "firmware_start gregorian no_tz (chip_driver 0 0) utc_config bare_env (Some ''lan'') (Some ''secret'') '''' 1 (\<lambda>_. 0)
      = Inr (b, a)" by (rule bare_start)
  then show ?thesis using boot_reaches_loop[OF r] by blast
qed

end
