(* ===== verification/Panel_Task.thy ===== *)
theory Panel_Task
  imports App_Props Ui_Task
begin

text \<open>The panel task (\<open>panel_task_main\<close> in ui_task.rs): a whole pass, what it leaves on the glass and when it samples, and its place in
  the redraw protocol of \<open>Ui_Task\<close>.\<close>

section \<open>One pass of the panel task\<close>

text \<open>
  What a pass reads while the other tasks run: the clock, the request count, the screen flag and the page at its top; the
  feed as its locks show it (\<open>pi_seen\<close>), the network handle and the board's memory while it draws; page and count
  again after the draw, flag and count again before the sensors; and whether the RTC lock is free.
\<close>

record panel_input =
  pi_now_us :: int
  pi_req :: u32
  pi_lit :: bool
  pi_page :: u8
  pi_seen :: ui_feed
  pi_network_lock :: bool
  pi_ip_info :: "(string \<times> string) option"
  pi_board :: board_readings
  pi_page_now :: u8
  pi_req_now :: u32
  pi_lit_later :: bool
  pi_req_later :: u32
  pi_rtc_lock :: bool

text \<open>What the task keeps: its sampling times, the last request drawn, whether a frame was drawn, what stands on the glass;
  \<open>pt_loop_us\<close> is the static \<open>PANEL_LOOP_US\<close>, \<open>pt_boot_test\<close> the flag of \<open>make_panel\<close>.\<close>

record panel_task =
  pt_clock :: panel_clock
  pt_last_drawn :: u32
  pt_rendered_once :: bool
  pt_glass :: "(string \<times> int) list"
  pt_loop_us :: int
  pt_boot_test :: bool

definition panel_task_new :: "int \<Rightarrow> panel_task" where
  "panel_task_new loop_us = \<lparr>pt_clock = panel_clock_new, pt_last_drawn = 0, pt_rendered_once = False, pt_glass = [],
     pt_loop_us = loop_us, pt_boot_test = False\<rparr>"

text \<open>What is fixed at build or boot time: host name, SSID, the boot-test flag, the fuel gauge and the RTC found.\<close>

record panel_build =
  pb_hostname :: string
  pb_ssid :: "string option"
  pb_boot_test :: bool
  pb_monitor :: "battery_monitor option"
  pb_rtc :: rtc_device

definition frame_data :: "panel_build \<Rightarrow> panel_input \<Rightarrow> page_data" where
  "frame_data B i =
     (case feed_snapshot (pi_seen i) of (gps, delta_us, ntp, storage, rtc_snap) \<Rightarrow>
        \<lparr>pd_gps = gps, pd_battery = feed_battery (pi_seen i), pd_pps_delta_us = delta_us, pd_ntp = ntp, pd_storage = storage,
         pd_rtc = rtc_snap, pd_network = read_network_snapshot (pb_hostname B) (pb_ssid B) (pi_network_lock i) (pi_ip_info i),
         pd_board = pi_board i\<rparr>)"

text \<open>The drawing half; \<open>None\<close> is the overflow panic of the date library.\<close>

definition panel_draw ::
    "chrono \<Rightarrow> 'tz tz_lib \<Rightarrow> 'tz tz_config \<Rightarrow> panel_build \<Rightarrow> panel_input \<Rightarrow> panel_task \<Rightarrow> panel_task option" where
  "panel_draw C L cfg B i t =
     (if pi_lit i \<and> pi_req i \<noteq> pt_last_drawn t then
        let page = page_from_index (pi_page i);
            t = t\<lparr>pt_boot_test := snd (make_panel (pb_boot_test B) (pt_boot_test t))\<rparr>
        in (case draw_page C L cfg (frame_data B i) page of
              None \<Rightarrow> None
            | Some texts \<Rightarrow>
                (let t = t\<lparr>pt_glass := texts, pt_rendered_once := True\<rparr>
                 in Some (if page_from_index (pi_page_now i) = page \<and> pi_req_now i = pi_req i
                          then t\<lparr>pt_last_drawn := pi_req i\<rparr> else t)))
      else Some t)"

text \<open>The whole pass of \<open>panel_task_main\<close>, on the feed, the bus and the free-space samples as they stand when the
  sensors' turn comes.\<close>

definition panel_task_pass ::
    "chrono \<Rightarrow> 'tz tz_lib \<Rightarrow> 'b i2c_driver \<Rightarrow> 'tz tz_config \<Rightarrow> panel_build \<Rightarrow> panel_input \<Rightarrow>
     panel_task \<times> ui_feed \<times> 'b \<times> usage_state \<Rightarrow> (panel_task \<times> ui_feed \<times> 'b \<times> usage_state) option" where
  "panel_task_pass C L drv cfg B i st =
     (case st of (t, f, b, u) \<Rightarrow>
        let t = t\<lparr>pt_loop_us := pi_now_us i\<rparr> in
        case panel_draw C L cfg B i t of
          None \<Rightarrow> None
        | Some t \<Rightarrow>
            (let frame_pending = pi_lit_later i \<and> pi_req_later i \<noteq> pt_last_drawn t in
             case panel_sensors C drv (pb_monitor B) (pb_rtc B) (pi_rtc_lock i) frame_pending (pi_now_us i) (f, pt_clock t, b, u) of
               (f, k, b, u) \<Rightarrow> Some (t\<lparr>pt_clock := k\<rparr>, f, b, u)))"

section \<open>Correctness\<close>

text \<open>No button action falls into the pass.\<close>

definition undisturbed :: "ui_control \<Rightarrow> panel_input \<Rightarrow> bool" where
  "undisturbed c i \<longleftrightarrow> pi_req i = render_req c \<and> pi_req_now i = render_req c \<and> pi_req_later i = render_req c \<and>
     pi_lit i = screen_on c \<and> pi_lit_later i = screen_on c \<and> pi_page i = ctl_page c \<and> pi_page_now i = ctl_page c"

lemma panel_draw_clock: "panel_draw C L cfg B i t = Some t1 \<Longrightarrow> pt_clock t1 = pt_clock t \<and> pt_loop_us t1 = pt_loop_us t"
  by (auto simp: panel_draw_def Let_def split: if_splits option.splits)

lemma panel_task_passE:
  assumes "panel_task_pass C L drv cfg B i (t, f, b, u) = Some (t', f', b', u')"
  obtains t1 k where "panel_draw C L cfg B i (t\<lparr>pt_loop_us := pi_now_us i\<rparr>) = Some t1" "t' = t1\<lparr>pt_clock := k\<rparr>"
    "panel_sensors C drv (pb_monitor B) (pb_rtc B) (pi_rtc_lock i) (pi_lit_later i \<and> pi_req_later i \<noteq> pt_last_drawn t1) (pi_now_us i)
      (f, pt_clock t, b, u) = (f', k, b', u')"
  using assms by (auto simp: panel_task_pass_def Let_def dest: panel_draw_clock split: option.splits prod.splits)

lemma undisturbed_draw:
  assumes "undisturbed c i" "panel_draw C L cfg B i t = Some t1"
  shows "if screen_on c \<and> render_req c \<noteq> pt_last_drawn t
    then draw_page C L cfg (frame_data B i) (page_from_index (ctl_page c)) = Some (pt_glass t1) \<and> pt_last_drawn t1 = render_req c
    else pt_glass t1 = pt_glass t \<and> pt_last_drawn t1 = pt_last_drawn t"
  using assms by (auto simp: undisturbed_def panel_draw_def Let_def split: if_splits option.splits)

lemma sample_limits:
  "sat_sub a b < BATTERY_SAMPLE_US \<longleftrightarrow> a - b < 5000000" "sat_sub a b < RTC_SAMPLE_US \<longleftrightarrow> a - b < 1000000"
  "sat_sub a b < STATUS_REFRESH_US \<longleftrightarrow> a - b < 60000000"
  by (simp_all add: BATTERY_SAMPLE_US_def RTC_SAMPLE_US_def STATUS_REFRESH_US_def sat_sub_less_iff i64_min_def i64_max_def)

lemma battery_fresh:
  assumes "sample_battery drv monitor now_us (f, k, b) = (f', k', b')"
  shows "now_us - last_battery_us k' < 5000000" "last_storage_us k' = last_storage_us k" "feed_storage f' = feed_storage f"
  using assms sample_limits(1)[of now_us "last_battery_us k"]
  by (auto simp: sample_battery_def publish_battery_def not_le split: if_splits option.splits prod.splits sum.splits)

lemma rtc_fresh:
  assumes "sample_rtc C drv True now_us (f, k, b) = (f', k', b')"
  shows "now_us - last_rtc_us k' < 1000000" "last_battery_us k' = last_battery_us k" "last_storage_us k' = last_storage_us k"
    "feed_storage f' = feed_storage f" "rtc_write_pending f' = rtc_write_pending f"
  using assms sample_limits(2)[of now_us "last_rtc_us k"]
  by (auto simp: sample_rtc_def Let_def split: if_splits prod.splits)

lemma sensors_fresh:
  assumes "sample_sensors C drv monitor rtc True now_us (f, k, b) = (f', k', b')"
  shows "now_us - last_battery_us k' < 5000000" "present rtc \<Longrightarrow> now_us - last_rtc_us k' < 1000000 \<and> rtc_write_pending f' = 0"
    "last_storage_us k' = last_storage_us k" "feed_storage f' = feed_storage f"
proof -
  obtain f1 k1 b1 where 1: "sample_battery drv monitor now_us (f, k, b) = (f1, k1, b1)" by (metis prod_cases3)
  obtain f2 b2 where 2: "rtc_write_step C drv (f1, b1) = (f2, b2)" by fastforce
  have w: "rtc_write_pending f2 = 0" "feed_storage f2 = feed_storage f1"
    using 2 by (auto simp: rtc_write_step_def Let_def split: if_splits)
  note b = battery_fresh[OF 1]
  show "now_us - last_battery_us k' < 5000000" "present rtc \<Longrightarrow> now_us - last_rtc_us k' < 1000000 \<and> rtc_write_pending f' = 0"
    "last_storage_us k' = last_storage_us k" "feed_storage f' = feed_storage f"
    using assms 1 2 b w rtc_fresh[of C drv now_us f2 k1 b2 f' k' b']
    by (auto simp: sample_sensors_def split: if_splits)
qed

lemma panel_sensors_fresh:
  assumes "panel_sensors C drv monitor rtc True False now_us (f, k, b, u) = (f', k', b', u')"
  shows "now_us - last_battery_us k' < 5000000" "present rtc \<Longrightarrow> now_us - last_rtc_us k' < 1000000 \<and> rtc_write_pending f' = 0"
    "mounted (feed_storage f) \<Longrightarrow> now_us - last_storage_us k' < 60000000"
proof -
  obtain f1 k1 b1 where s: "sample_sensors C drv monitor rtc True now_us (f, k, b) = (f1, k1, b1)" by (metis prod_cases3)
  note fr = sensors_fresh[OF s] sample_limits(3)[of now_us "last_storage_us k1"]
  show "now_us - last_battery_us k' < 5000000" "present rtc \<Longrightarrow> now_us - last_rtc_us k' < 1000000 \<and> rtc_write_pending f' = 0"
    "mounted (feed_storage f) \<Longrightarrow> now_us - last_storage_us k' < 60000000"
    using assms s fr by (auto simp: panel_sensors_def publish_storage_def not_le Let_def split: if_splits prod.splits option.splits)
qed

lemma undisturbed_pass:
  assumes "undisturbed c i" "pi_rtc_lock i" "screen_on c \<or> render_req c = pt_last_drawn t"
    and "panel_task_pass C L drv cfg B i (t, f, b, u) = Some (t', f', b', u')"
  shows "(if render_req c \<noteq> pt_last_drawn t
      then draw_page C L cfg (frame_data B i) (page_from_index (ctl_page c)) = Some (pt_glass t') else pt_glass t' = pt_glass t) \<and>
    pt_last_drawn t' = render_req c \<and> pt_loop_us t' = pi_now_us i \<and>
    pi_now_us i - last_battery_us (pt_clock t') < 5000000 \<and>
    (present (pb_rtc B) \<longrightarrow> pi_now_us i - last_rtc_us (pt_clock t') < 1000000 \<and> rtc_write_pending f' = 0) \<and>
    (mounted (feed_storage f) \<longrightarrow> pi_now_us i - last_storage_us (pt_clock t') < 60000000)"
proof -
  obtain t1 k where p: "panel_draw C L cfg B i (t\<lparr>pt_loop_us := pi_now_us i\<rparr>) = Some t1" "t' = t1\<lparr>pt_clock := k\<rparr>"
    "panel_sensors C drv (pb_monitor B) (pb_rtc B) (pi_rtc_lock i) (pi_lit_later i \<and> pi_req_later i \<noteq> pt_last_drawn t1) (pi_now_us i)
      (f, pt_clock t, b, u) = (f', k, b', u')"
    by (rule panel_task_passE[OF assms(4)])
  note d = undisturbed_draw[OF assms(1) p(1)]
  have l: "pt_last_drawn t1 = render_req c" using d assms(3) by (auto split: if_splits)
  have idle: "(pi_lit_later i \<and> pi_req_later i \<noteq> pt_last_drawn t1) = False" using assms(1) l by (simp add: undisturbed_def)
  have lock: "pi_rtc_lock i = True" using assms(2) by simp
  note s = panel_sensors_fresh[OF p(3)[unfolded idle lock]]
  show ?thesis using d assms(3) l s panel_draw_clock[OF p(1)] p(2) by (auto split: if_splits)
qed


definition idle_build :: panel_build where
  "idle_build = \<lparr>pb_hostname = ''gps-ntp'', pb_ssid = None, pb_boot_test = False, pb_monitor = None,
     pb_rtc = \<lparr>present = False, boot_utc = None\<rparr>\<rparr>"

definition first_input :: "ui_control \<Rightarrow> ui_feed \<Rightarrow> panel_input" where
  "first_input c f = \<lparr>pi_now_us = 7000000, pi_req = render_req c, pi_lit = screen_on c, pi_page = ctl_page c, pi_seen = f,
     pi_network_lock = True, pi_ip_info = None, pi_board = \<lparr>free_heap = 0, min_heap = 0, app_partition = None\<rparr>,
     pi_page_now = ctl_page c, pi_req_now = render_req c, pi_lit_later = screen_on c, pi_req_later = render_req c, pi_rtc_lock = True\<rparr>"

lemma first_undisturbed: "undisturbed c (first_input c f)" "pi_rtc_lock (first_input c f)"
  by (simp_all add: undisturbed_def first_input_def)

lemma pass_runs:
  assumes "page_lines C L cfg (frame_data B i) (page_from_index (pi_page i)) = Some ls"
  obtains t' f' b' u' where "panel_task_pass C L drv cfg B i (t, f, b, u) = Some (t', f', b', u')"
proof -
  have "\<exists>t1. panel_draw C L cfg B i (t\<lparr>pt_loop_us := pi_now_us i\<rparr>) = Some t1"
    using assms by (simp add: panel_draw_def draw_page_def Let_def)
  then have "panel_task_pass C L drv cfg B i (t, f, b, u) \<noteq> None"
    by (auto simp: panel_task_pass_def Let_def split: prod.split)
  then show thesis using that by (metis option.exhaust prod_cases4)
qed

lemma first_page:
  assumes "\<not> gps_fix (feed_gps f)" "rtc_utc (feed_rtc f) = None"
  shows "\<exists>ls. page_lines C L cfg (frame_data B (first_input ui_control_new f)) (page_from_index (pi_page (first_input ui_control_new f))) = Some ls"
proof -
  have "page_from_index (pi_page (first_input ui_control_new f)) = Time_Page" by (simp add: first_input_def ui_control_new_def page_from_index_def)
  moreover have "gps_use_rtc_fallback (pd_gps (frame_data B (first_input ui_control_new f)))"
    "rtc_utc (pd_rtc (frame_data B (first_input ui_control_new f))) = None"
    using assms by (simp_all add: frame_data_def feed_snapshot_def first_input_def gps_use_rtc_fallback_def)
  ultimately show ?thesis by (simp add: page_lines_def display_time_source_def Let_def)
qed


lemma time_page_lines:
  assumes "page_lines C L cfg d Time_Page = Some ls"
  shows "''TZ:    '' @ fmt_plus (tz_offset_hours (pd_gps d)) @ ''h'' \<in> set ls"
    "if gps_fix (pd_gps d) \<and> sats (pd_gps d) \<noteq> 0
     then tl ls = [''Time:  '' @ local_time (pd_gps d), ''Date:  '' @ local_date (pd_gps d)] @ drop 3 ls else ''RTC fallback'' \<in> set ls"
proof -
  obtain time date fb where d: "display_time_source C L cfg (pd_gps d) (pd_rtc d) = Some (time, date, fb)"
    using assms by (auto simp: page_lines_def Let_def)
  then have ls: "ls = [''Page 1/6  TIME''] @ (if fb then [''RTC fallback''] else []) @ [''Time:  '' @ time, ''Date:  '' @ date,
      ''TZ:    '' @ fmt_plus (tz_offset_hours (pd_gps d)) @ ''h'', pps_offset_label (pd_pps_delta_us d)]"
    using assms by (simp add: page_lines_def Let_def)
  show "''TZ:    '' @ fmt_plus (tz_offset_hours (pd_gps d)) @ ''h'' \<in> set ls" unfolding ls set_append by simp
  have "if gps_fix (pd_gps d) \<and> sats (pd_gps d) \<noteq> 0 then time = local_time (pd_gps d) \<and> date = local_date (pd_gps d) \<and> \<not> fb else fb"
    using d by (auto simp: display_time_source_def gps_use_rtc_fallback_def split: if_splits option.splits prod.splits)
  then show "if gps_fix (pd_gps d) \<and> sats (pd_gps d) \<noteq> 0
     then tl ls = [''Time:  '' @ local_time (pd_gps d), ''Date:  '' @ local_date (pd_gps d)] @ drop 3 ls else ''RTC fallback'' \<in> set ls"
    unfolding ls by (simp split: if_splits)
qed

lemma location_page_lines:
  assumes "page_lines C L cfg d Location_Page = Some ls"
  shows "if gps_fix (pd_gps d) \<and> sats (pd_gps d) \<noteq> 0
     then take 2 (tl ls) = [''Lat: '' @ fmt_fixed 6 (lat (pd_gps d)), ''Lon: '' @ fmt_fixed 6 (lon (pd_gps d))] else ''RTC fallback'' \<in> set ls"
  using assms by (auto simp: page_lines_def gps_use_rtc_fallback_def Let_def split: if_splits)

text \<open>What the glass says is what the receiver said: in every state the firmware can reach, a frame of the time page drawn from the
  feed shows the zone offset of the last sentences the parser accepted, and, while they report a fix, their local time
  and date and no RTC; without a fix it says that it falls back to the RTC; a frame of the location page shows their
  position, or the same warning.\<close>

theorem glass_shows_receiver:
  assumes "app_reach C L log2 fudge a" "pi_seen i = ui_feed a" "pi_lit i" "pi_req i \<noteq> pt_last_drawn t"
    and "panel_task_pass C L drv (tz_cfg a) B i (t, f, b, u) = Some (t', f', b', u')"
  shows "let gps = uart_snapshot (gps_uart a); glass = map fst (pt_glass t'); fix_now = gps_fix gps \<and> sats gps \<noteq> 0 in
    (page_from_index (pi_page i) = Time_Page \<longrightarrow> ''TZ:    '' @ fmt_plus (tz_offset_hours gps) @ ''h'' \<in> set glass \<and>
      (if fix_now then tl glass = [''Time:  '' @ local_time gps, ''Date:  '' @ local_date gps] @ drop 3 glass
       else ''RTC fallback'' \<in> set glass)) \<and>
    (page_from_index (pi_page i) = Location_Page \<longrightarrow>
      (if fix_now then take 2 (tl glass) = [''Lat: '' @ fmt_fixed 6 (lat gps), ''Lon: '' @ fmt_fixed 6 (lon gps)]
       else ''RTC fallback'' \<in> set glass))"
proof -
  obtain t1 k where p: "panel_draw C L (tz_cfg a) B i (t\<lparr>pt_loop_us := pi_now_us i\<rparr>) = Some t1" "t' = t1\<lparr>pt_clock := k\<rparr>"
    by (rule panel_task_passE[OF assms(5)])
  have g: "pd_gps (frame_data B i) = uart_snapshot (gps_uart a)"
    using app_reach_inv[OF assms(1)] assms(2) by (simp add: frame_data_def feed_snapshot_def app_inv_def)
  have "draw_page C L (tz_cfg a) (frame_data B i) (page_from_index (pi_page i)) = Some (pt_glass t')"
    using p assms(3,4) by (auto simp: panel_draw_def Let_def split: option.splits if_splits)
  then obtain ls where "page_lines C L (tz_cfg a) (frame_data B i) (page_from_index (pi_page i)) = Some ls" "pt_glass t' = place_lines 20 ls"
    by (auto simp: draw_page_def)
  then have gl: "map fst (pt_glass t') = ls" and l: "page_lines C L (tz_cfg a) (frame_data B i) (page_from_index (pi_page i)) = Some ls"
    by simp_all
  show ?thesis
  proof (cases "page_from_index (pi_page i)")
    case Time_Page
    then show ?thesis using time_page_lines[OF l[unfolded Time_Page]] gl g by (simp add: Let_def)
  next
    case Location_Page
    then show ?thesis using location_page_lines[OF l[unfolded Location_Page]] gl g by (simp add: Let_def)
  qed simp_all
qed

theorem glass_shows_receiver_witness:
  "\<exists>t' f' b' u'. panel_task_pass gregorian no_tz (chip_driver 0 0) (tz_cfg bare_boot) idle_build (first_input ui_control_new (ui_feed bare_boot))
      (panel_task_new 1, ui_feed bare_boot, \<lambda>_. 0, usage_start (no_storage True False)) = Some (t', f', b', u') \<and>
    ''RTC fallback'' \<in> set (map fst (pt_glass t'))"
proof -
  let ?i = "first_input ui_control_new (ui_feed bare_boot)"
  have reach: "app_reach gregorian no_tz id 1 bare_boot" unfolding bare_boot_def by (rule app_boot)
  have f: "uart_snapshot (gps_uart bare_boot) = gps_snapshot_default" "feed_gps (ui_feed bare_boot) = gps_snapshot_default"
    "rtc_utc (feed_rtc (ui_feed bare_boot)) = None"
    by (simp_all add: bare_boot_def boot_app_def load_timezone_boot_def load_cached_sd_def feed_new_def publish_gps_def
        rtc_snapshot_default_def discard_backlog_def set_snapshot_def Let_def)
  have nf: "\<not> gps_fix gps_snapshot_default" by (simp add: gps_snapshot_default_def)
  obtain ls where "page_lines gregorian no_tz (tz_cfg bare_boot) (frame_data idle_build ?i) (page_from_index (pi_page ?i)) = Some ls"
    using first_page[of "ui_feed bare_boot" gregorian no_tz "tz_cfg bare_boot" idle_build] f nf by auto
  then obtain t' f' b' u' where
    r: "panel_task_pass gregorian no_tz (chip_driver 0 0) (tz_cfg bare_boot) idle_build ?i
      (panel_task_new 1, ui_feed bare_boot, \<lambda>_. 0, usage_start (no_storage True False)) = Some (t', f', b', u')" by (rule pass_runs)
  have i: "pi_seen ?i = ui_feed bare_boot" "pi_lit ?i" "pi_req ?i \<noteq> pt_last_drawn (panel_task_new 1)" "page_from_index (pi_page ?i) = Time_Page"
    by (simp_all add: first_input_def ui_control_new_def panel_task_new_def page_from_index_def)
  from glass_shows_receiver[OF reach i(1-3) r] r i(4) nf show ?thesis by (simp add: f(1) Let_def)
qed

section \<open>The panel task implements the redraw protocol\<close>

text \<open>The task and the protocol's state at the top of the loop: the same request was drawn last, and the glass shows a drawing of
  the protocol's frame.\<close>

definition implements :: "chrono \<Rightarrow> 'tz tz_lib \<Rightarrow> panel_task \<Rightarrow> ui_sys \<Rightarrow> bool" where
  "implements C L t m \<longleftrightarrow> pt_last_drawn t = last_drawn m \<and>
     (\<forall>p. frame m = Some p \<longrightarrow> (\<exists>cfg d. draw_page C L cfg d p = Some (pt_glass t)))"

lemma implements_start: "implements C L (panel_task_new loop_us) ui_start"
  by (simp add: implements_def panel_task_new_def ui_start_def)

lemma pass_implements:
  assumes "implements C L t m" "undisturbed (ctl m) i" "panel m = Top"
    and "panel_task_pass C L drv cfg B i (t, f, b, u) = Some (t', f', b', u')"
  shows "implements C L t' (panel_pass m)"
proof -
  obtain t1 k where p: "panel_draw C L cfg B i (t\<lparr>pt_loop_us := pi_now_us i\<rparr>) = Some t1" "t' = t1\<lparr>pt_clock := k\<rparr>"
    by (rule panel_task_passE[OF assms(4)])
  show ?thesis using undisturbed_draw[OF assms(2) p(1)] assms(1,3) p(2)
    by (auto simp: implements_def panel_pass_def panel_step_def eval_nat_numeral split: if_splits)
qed



end
