(* ===== verification/Milestones.thy ===== *)
theory Milestones
  imports Prelude
begin

text \<open>The self-checks of the main loop (\<open>run\<close> in app.rs): which milestone and which warning is logged when.\<close>

section \<open>Milestones of a start\<close>

datatype milestone = First_Pps | First_Nmea | First_Fix | First_Client | No_Nmea | No_Pps

record self_check =
  first_nmea_logged :: bool
  sc_fix_logged :: bool
  first_pps_logged :: bool
  first_ntp_client_logged :: bool
  warn_no_nmea_done :: bool
  warn_no_pps_done :: bool

definition self_check_new :: self_check where
  "self_check_new = \<lparr>first_nmea_logged = False, sc_fix_logged = False, first_pps_logged = False, first_ntp_client_logged = False,
     warn_no_nmea_done = False, warn_no_pps_done = False\<rparr>"

text \<open>What a pass of the loop shows: whether the first pulse was reported, the seconds since boot, the bytes the UART has delivered, the
  fix, and the requests served.\<close>

record pass_facts =
  pf_first_pulse :: bool
  pf_elapsed_s :: int
  pf_bytes_seen :: u64
  pf_fix :: bool
  pf_served :: u64

text \<open>One condition with its flag: the message if it is due.\<close>

definition log_once :: "(self_check \<Rightarrow> bool) \<Rightarrow> milestone \<Rightarrow> (self_check \<Rightarrow> self_check) \<Rightarrow> milestone list \<times> self_check \<Rightarrow> milestone list \<times> self_check" where
  "log_once due msg mark st = (if due (snd st) then (fst st @ [msg], mark (snd st)) else st)"

definition self_check_pass :: "pass_facts \<Rightarrow> self_check \<Rightarrow> milestone list \<times> self_check" where
  "self_check_pass p s =
     (let st = log_once (\<lambda>s. pf_first_pulse p) First_Pps (\<lambda>s. s\<lparr>first_pps_logged := True\<rparr>) ([], s);
          st = log_once (\<lambda>s. \<not> first_nmea_logged s \<and> 0 < pf_bytes_seen p) First_Nmea (\<lambda>s. s\<lparr>first_nmea_logged := True\<rparr>) st;
          st = log_once (\<lambda>s. \<not> sc_fix_logged s \<and> pf_fix p) First_Fix (\<lambda>s. s\<lparr>sc_fix_logged := True\<rparr>) st;
          st = log_once (\<lambda>s. \<not> first_ntp_client_logged s \<and> 0 < pf_served p) First_Client (\<lambda>s. s\<lparr>first_ntp_client_logged := True\<rparr>) st;
          st = log_once (\<lambda>s. \<not> warn_no_nmea_done s \<and> \<not> first_nmea_logged s \<and> 10 \<le> pf_elapsed_s p) No_Nmea
                 (\<lambda>s. s\<lparr>warn_no_nmea_done := True\<rparr>) st
      in log_once (\<lambda>s. \<not> warn_no_pps_done s \<and> first_nmea_logged s \<and> \<not> first_pps_logged s \<and> 30 \<le> pf_elapsed_s p) No_Pps
           (\<lambda>s. s\<lparr>warn_no_pps_done := True\<rparr>) st)"

fun self_check_run :: "pass_facts list \<Rightarrow> self_check \<Rightarrow> milestone list \<times> self_check" where
  "self_check_run [] s = ([], s)"
| "self_check_run (p # ps) s =
     (case self_check_pass p s of (ms, s) \<Rightarrow> case self_check_run ps s of (ns, s) \<Rightarrow> (ms @ ns, s))"

text \<open>The flag of each message.\<close>

fun reported :: "milestone \<Rightarrow> self_check \<Rightarrow> bool" where
  "reported First_Pps s = first_pps_logged s"
| "reported First_Nmea s = first_nmea_logged s"
| "reported First_Fix s = sc_fix_logged s"
| "reported First_Client s = first_ntp_client_logged s"
| "reported No_Nmea s = warn_no_nmea_done s"
| "reported No_Pps s = warn_no_pps_done s"

text \<open>What a sequence of conditions has logged since the flags were \<open>s\<close>.\<close>

definition accounted :: "self_check \<Rightarrow> milestone list \<times> self_check \<Rightarrow> bool" where
  "accounted s st \<longleftrightarrow> (\<forall>m. (reported m s \<longrightarrow> reported m (snd st)) \<and>
     (m \<noteq> First_Pps \<longrightarrow> count_list (fst st) m = (if \<not> reported m s \<and> reported m (snd st) then 1 else 0)))"

lemma log_once_accounted:
  assumes "accounted s st" "\<And>m x. reported m (mark x) \<longleftrightarrow> m = msg \<or> reported m x" "\<And>x. due x \<Longrightarrow> msg \<noteq> First_Pps \<Longrightarrow> \<not> reported msg x"
  shows "accounted s (log_once due msg mark st)"
proof (cases "due (snd st)")
  case True
  then show ?thesis using assms by (auto simp: accounted_def log_once_def)
qed (use assms(1) in \<open>simp add: log_once_def\<close>)

lemma marks:
  "reported m (x\<lparr>first_pps_logged := True\<rparr>) \<longleftrightarrow> m = First_Pps \<or> reported m x"
  "reported m (x\<lparr>first_nmea_logged := True\<rparr>) \<longleftrightarrow> m = First_Nmea \<or> reported m x"
  "reported m (x\<lparr>sc_fix_logged := True\<rparr>) \<longleftrightarrow> m = First_Fix \<or> reported m x"
  "reported m (x\<lparr>first_ntp_client_logged := True\<rparr>) \<longleftrightarrow> m = First_Client \<or> reported m x"
  "reported m (x\<lparr>warn_no_nmea_done := True\<rparr>) \<longleftrightarrow> m = No_Nmea \<or> reported m x"
  "reported m (x\<lparr>warn_no_pps_done := True\<rparr>) \<longleftrightarrow> m = No_Pps \<or> reported m x"
  by (cases m; simp)+

lemma pass_accounted: "accounted s (self_check_pass p s)"
proof -
  have 0: "accounted s ([], s)" by (simp add: accounted_def)
  show ?thesis unfolding self_check_pass_def Let_def by (intro log_once_accounted 0) (simp_all add: marks)
qed

lemma run_accounted: "accounted s (self_check_run ps s)"
proof (induction ps arbitrary: s)
  case (Cons p ps)
  obtain ms s1 where 1: "self_check_pass p s = (ms, s1)" by fastforce
  obtain ns s2 where 2: "self_check_run ps s1 = (ns, s2)" by fastforce
  show ?case using pass_accounted[of s p] Cons.IH[of s1] 1 2 by (auto simp: accounted_def)
qed (simp add: accounted_def)

text \<open>Each message but the one for the first pulse is logged at most once in any run.\<close>

lemma milestones_once: "m \<noteq> First_Pps \<Longrightarrow> count_list (fst (self_check_run ps s)) m \<le> 1"
  using run_accounted[of s ps] by (auto simp: accounted_def)

text \<open>The missing-NMEA warning comes only after ten seconds and if no byte has come, the missing-PPS one only after thirty
  and if no pulse has.\<close>

lemma log_once_set: "m \<in> set (fst (log_once due msg mark st)) \<longleftrightarrow> m \<in> set (fst st) \<or> due (snd st) \<and> m = msg"
  by (auto simp: log_once_def)

lemma log_once_flags: "snd (log_once due msg mark st) = (if due (snd st) then mark (snd st) else snd st)"
  by (simp add: log_once_def)

lemma warnings_justified:
  "No_Nmea \<in> set (fst (self_check_pass p s)) \<Longrightarrow> 10 \<le> pf_elapsed_s p \<and> pf_bytes_seen p = 0 \<and> \<not> first_nmea_logged s"
  "No_Pps \<in> set (fst (self_check_pass p s)) \<Longrightarrow> 30 \<le> pf_elapsed_s p \<and> \<not> pf_first_pulse p \<and> \<not> first_pps_logged s"
  by (simp_all add: self_check_pass_def log_once_set log_once_flags word_gt_0 Let_def split: if_splits)

end
