(* ===== verification/Firmware.thy ===== *)
theory Firmware
  imports Boot App_Props
begin

text \<open>
  The whole device: histories of a firmware that booted (\<open>firmware_start\<close>), its main loop interleaved with the lookup
  thread and the panel task, with the UTC seconds the GPS handed to the server and the PPS edges reported so far;
  and what the packets it sends may claim.
\<close>

section \<open>Runs of a booted firmware\<close>

text \<open>The UTC seconds a pass hands to the server, and the PPS pulses it reports.\<close>

definition pass_fixes :: "chrono \<Rightarrow> 'tz tz_lib \<Rightarrow> app_input \<Rightarrow> 'tz app \<Rightarrow> int list" where
  "pass_fixes C L i a = List.map_filter (\<lambda>e. case e of On_Fix g \<Rightarrow> utc_unix_seconds g | On_Snapshot _ \<Rightarrow> None)
     (fst (gps_poll C L (tz_cfg a) (ai_rx i) (gps_uart a)))"

definition pass_edges :: "app_input \<Rightarrow> 'tz app \<Rightarrow> int list" where
  "pass_edges i a = (case fst (pps_poll (ai_pps i) (pps a)) of None \<Rightarrow> [] | Some (First e) \<Rightarrow> [e] | Some (Delta _ e) \<Rightarrow> [e])"

inductive firmware_run ::
    "'b i2c_driver \<Rightarrow> chrono \<Rightarrow> 'tz tz_lib \<Rightarrow> (fp \<Rightarrow> fp) \<Rightarrow> int \<Rightarrow> int list \<Rightarrow> int list \<Rightarrow> 'tz app \<Rightarrow> bool" for drv C L log2 fudge where
  booted: "firmware_start C L drv cfg E ssid pass cidr now_us bus = Inr (b, a) \<Longrightarrow> firmware_run drv C L log2 fudge [] [] a"
| passed: "firmware_run drv C L log2 fudge utcs pulses a \<Longrightarrow> app_pass C L log2 fudge i a = (out, a') \<Longrightarrow>
    firmware_run drv C L log2 fudge (utcs @ pass_fixes C L i a) (pulses @ pass_edges i a) a'"
| looked_up: "firmware_run drv C L log2 fudge utcs pulses a \<Longrightarrow> tz_worker a = Some w \<Longrightarrow>
    firmware_run drv C L log2 fudge utcs pulses (a\<lparr>tz_worker := Some (worker_lookup http w)\<rparr>)"
| sampled: "firmware_run drv C L log2 fudge utcs pulses a \<Longrightarrow> App_Runs.panel_update (ui_feed a) f \<Longrightarrow>
    firmware_run drv C L log2 fudge utcs pulses (a\<lparr>ui_feed := f\<rparr>)"

lemma firmware_reach: "firmware_run drv C L log2 fudge utcs pulses a \<Longrightarrow> app_reach C L log2 fudge a"
  by (induction rule: firmware_run.induct) (auto dest!: start_is_boot intro: app_boot app_next app_step.intros)

text \<open>The server's GPS time and last pulse come from the history.\<close>

definition grounded :: "int list \<Rightarrow> int list \<Rightarrow> ntp_server \<Rightarrow> bool" where
  "grounded utcs pulses s \<longleftrightarrow> (\<forall>u. last_gps_utc_seconds s = Some u \<longrightarrow> u \<in> set utcs) \<and>
     (\<forall>t. last_pps_monotonic_us s = Some t \<longrightarrow> t \<in> set pulses)"

lemma grounded_mono: "grounded utcs pulses s \<Longrightarrow> grounded (utcs @ us) (pulses @ es) s"
  by (auto simp: grounded_def)

lemma grounded_part: "discipline_part s' = discipline_part s \<Longrightarrow> grounded utcs pulses s' = grounded utcs pulses s"
  using discipline_part_fields(2,6) by (metis grounded_def)

lemma grounded_seed [simp]: "grounded utcs pulses (seed_utc_seconds u t s) = grounded utcs pulses s"
  by (simp add: grounded_def seed_utc_seconds_def)

lemma grounded_gps: "grounded utcs pulses s \<Longrightarrow> grounded (utcs @ [u]) pulses (update_gps_utc_seconds u t s)"
  by (auto simp: grounded_def update_gps_utc_seconds_def Let_def)

lemma observe_frame:
  "last_gps_utc_seconds (observe_pps_pulse fudge iv e s) = last_gps_utc_seconds s"
  "last_pps_monotonic_us (observe_pps_pulse fudge iv e s) \<in> {Some e, last_pps_monotonic_us s}"
proof -
  have a: "last_gps_utc_seconds (accept_pulse fudge d e anc s) = last_gps_utc_seconds s"
    "last_pps_monotonic_us (accept_pulse fudge d e anc s) = Some e" for d anc
  proof -
    let ?s = "s\<lparr>freq_ppm := blend_freq d (freq_ppm s)\<rparr>"
    obtain secs p n where "pulse_second fudge e anc ?s = (secs, ?s\<lparr>pending_gps_step := p, anchor_step_count := n\<rparr>)"
      using pulse_second_frame[of fudge e anc ?s] by (metis prod.collapse)
    then show "last_gps_utc_seconds (accept_pulse fudge d e anc s) = last_gps_utc_seconds s"
      "last_pps_monotonic_us (accept_pulse fudge d e anc s) = Some e" by (simp_all add: accept_pulse_def Let_def)
  qed
  show "last_gps_utc_seconds (observe_pps_pulse fudge iv e s) = last_gps_utc_seconds s"
    "last_pps_monotonic_us (observe_pps_pulse fudge iv e s) \<in> {Some e, last_pps_monotonic_us s}"
    by (auto simp: observe_pps_pulse_def lock_anchor_def a Let_def split: option.split)
qed

lemma grounded_pulse: "grounded utcs pulses s \<Longrightarrow> grounded utcs (pulses @ [e]) (observe_pps_pulse fudge iv e s)"
  using observe_frame[of fudge iv e s] by (auto simp: grounded_def)


lemma grounded_boot: "grounded [] [] (server (boot_app C L cfg cache rtc storage cidr now_us worker p u))"
  by (auto simp: grounded_def boot_app_def init_ntp_server_def apply_boot_acl_def set_acl_def from_socket_def seed_utc_seconds_def
      Let_def split: option.split)

lemma dispatch_grounded:
  "grounded utcs pulses (server a) \<Longrightarrow>
   grounded (utcs @ List.map_filter (\<lambda>e. case e of On_Fix g \<Rightarrow> utc_unix_seconds g | On_Snapshot _ \<Rightarrow> None) evs) pulses
     (server (dispatch clk n evs a))"
proof (induction clk n evs a arbitrary: utcs rule: dispatch.induct)
  case (3 clk n g evs a)
  have s: "server (on_fix g (clk n) a) = (case utc_unix_seconds g of None \<Rightarrow> server a
      | Some utc \<Rightarrow> update_gps_utc_seconds utc (fst (clk n)) (server a))"
    by (auto simp: on_fix_def Let_def split: option.split prod.split)
  show ?case
  proof (cases "utc_unix_seconds g")
    case None
    then show ?thesis using 3 s by (simp add: List.map_filter_def)
  next
    case (Some u)
    with 3(1)[of "utcs @ [u]"] grounded_gps[OF 3(2), of u "fst (clk n)"] s show ?thesis by (simp add: List.map_filter_def)
  qed
qed (simp_all add: List.map_filter_def on_snapshot_def)

lemma dispatch_pps [simp]: "pps (dispatch clk n evs a) = pps a"
  by (induction clk n evs a rule: dispatch.induct)
    (auto simp: on_snapshot_def on_fix_def Let_def split: option.split prod.split)

lemma app_pass_grounded:
  assumes "grounded utcs pulses (server a)" "app_pass C L log2 fudge i a = (out, a')"
  shows "grounded (utcs @ pass_fixes C L i a) (pulses @ pass_edges i a) (server a')"
proof -
  let ?a1 = "tz_stage C L (gps_stage C L i a)"
  obtain o1 a2 where n: "ntp_stage log2 i ?a1 = (o1, a2)" by fastforce
  obtain o2 r sv where p: "poll log2 (gps_fix (uart_snapshot (gps_uart ?a1))) (ai_socket i) (server ?a1) = (o2, r, sv)" by (metis prod_cases3)
  let ?a3 = "maybe_apply_rtc_fallback i a2"
  have 1: "grounded (utcs @ pass_fixes C L i a) pulses (server ?a1)"
    using dispatch_grounded[OF assms(1)] by (simp add: gps_stage_def pass_fixes_def split: prod.split)
  have s2: "server a2 = sv" "pps a2 = pps a"
    using n p by (auto simp: ntp_stage_def Let_def tz_stage_frame gps_stage_def dispatch_pps split: if_splits prod.splits)
  have 3: "grounded (utcs @ pass_fixes C L i a) pulses (server ?a3)"
    using grounded_part[OF poll_result(1)[OF p]] 1 s2(1) by (auto simp: maybe_apply_rtc_fallback_def Let_def split: option.split)
  have "pps ?a3 = pps a" using s2(2) by (simp add: maybe_apply_rtc_fallback_def Let_def split: option.split)
  then have "grounded (utcs @ pass_fixes C L i a) (pulses @ pass_edges i a) (server (pps_stage log2 fudge i ?a3))"
    using 3 grounded_pulse[OF 3] by (auto simp: pps_stage_server pass_edges_def split: option.split pps_event.split)
  then show ?thesis using assms(2) n by (auto simp: app_pass_def)
qed

lemma firmware_grounded: "firmware_run drv C L log2 fudge utcs pulses a \<Longrightarrow> grounded utcs pulses (server a)"
  by (induction rule: firmware_run.induct) (auto dest!: start_is_boot intro: grounded_boot app_pass_grounded)

lemma gps_stage_locked:
  "pps_locked (server (gps_stage C L i a)) = pps_locked (server a)"
  "last_pps_monotonic_us (server (gps_stage C L i a)) = last_pps_monotonic_us (server a)"
proof -
  have "pps_locked (server (dispatch clk n evs a)) = pps_locked (server a) \<and>
     last_pps_monotonic_us (server (dispatch clk n evs a)) = last_pps_monotonic_us (server a)" for clk n evs
    by (induction clk n evs a rule: dispatch.induct)
      (auto simp: on_snapshot_def on_fix_def update_gps_utc_seconds_def Let_def split: option.split prod.split)
  then show "pps_locked (server (gps_stage C L i a)) = pps_locked (server a)"
  "last_pps_monotonic_us (server (gps_stage C L i a)) = last_pps_monotonic_us (server a)"
    by (auto simp: gps_stage_def split: prod.split)
qed

text \<open>C6: A booted firmware never claims more than it has seen: whatever its inputs and however its tasks
  interleave, a time packet (server or symmetric-passive mode) that a pass sends with a leap value other than the alarm or with a stratum
  other than 0 answers a datagram of its receiver, is sent after a GPS fix with a UTC time reached the server, and
  less than 2008 s after an edge the PPS input reported in an earlier pass. Before the first fix and pulse, and after a longer
  silence of the PPS, every packet is marked unsynchronised.\<close>

theorem sync_claims_grounded:
  assumes "firmware_run drv C L log2 fudge utcs pulses a" "app_pass C L log2 fudge i a = (out, a')"
    and "(p, client) \<in> set out" "pkt_mode p \<noteq> 6" "pkt_leap p \<noteq> 3 \<or> p ! 1 \<noteq> 0"
  shows "utcs \<noteq> [] \<and> (\<exists>bytes rd t. Datagram bytes client rd \<in> set (ai_socket i) \<and> t \<in> set pulses \<and> sat_sub (t_disp rd) t < 2008000000)"
proof -
  let ?a1 = "tz_stage C L (gps_stage C L i a)"
  have reach: "app_reach C L log2 fudge a" by (rule firmware_reach[OF assms(1)])
  note inv = serves_inv[OF app_serves[OF reach]]
  have inv1: "server_inv (server ?a1)" using serves_inv[OF gps_stage_serves[OF app_serves[OF reach]]] by simp
  have out: "(p, client) \<in> set (fst (poll log2 (gps_fix (uart_snapshot (gps_uart ?a1))) (ai_socket i) (server ?a1)))"
    using assms(2,3) by (auto simp: app_pass_def ntp_stage_def Let_def split: prod.splits)
  obtain bytes rd where c: "pps_locked (server ?a1)" "Datagram bytes client rd \<in> set (ai_socket i)"
    "pps_age_us (t_disp rd) (server ?a1) < 2008000000"
    using poll_claims_sync[OF inv1 out[unfolded poll_def] assms(4,5)] by blast
  have l: "last_pps_monotonic_us (server a) \<noteq> None" "last_gps_utc_seconds (server a) \<noteq> None"
    using inv c(1) gps_stage_locked(1)[of C L i a] by (auto simp: server_inv_def)
  then obtain t u where t: "last_pps_monotonic_us (server a) = Some t" "last_gps_utc_seconds (server a) = Some u" by blast
  then have "t \<in> set pulses" "utcs \<noteq> []" using firmware_grounded[OF assms(1)] by (auto simp: grounded_def)
  moreover have "sat_sub (t_disp rd) t < 2008000000"
    using c(3) t(1) gps_stage_locked(2)[of C L i a] by (simp add: pps_age_us_def)
  ultimately show ?thesis using c(2) by blast
qed


text \<open>A board that boots, reads a fix and its pulse, and is asked for the time 0.1 s later.\<close>

definition fix_input :: app_input where
  "fix_input = quiet_input\<lparr>ai_rx := Some (oslo_line @ [char_of (13 :: nat), LF]), ai_fix_clock := (\<lambda>_. (5000000, 5000000)),
     ai_pps := (1, 5900000)\<rparr>"

definition v6_client :: socket_addr where "v6_client = V6 (replicate 16 0) 123"

definition ask_input :: app_input where
  "ask_input = quiet_input\<lparr>ai_socket := [Datagram (take 48 time_request) v6_client (no_readings\<lparr>t_disp := 6000000\<rparr>)]\<rparr>"

lemma oslo_poll:
  assumes "line_buf u = []"
  obtains g u' where "gps_poll gregorian no_tz cfg (Some (oslo_line @ [char_of (13 :: nat), LF])) u = ([On_Snapshot g, On_Fix g], u')"
    "gps_fix g" "utc_unix_seconds g = Some 1717761600" "uart_snapshot u' = g"
proof -
  show thesis
    by (rule rmc_line_poll[OF calendar_gregorian oslo_checksum oslo_facts(7) refl oslo_facts(1-4) _ _ _ _ _ _ oslo_facts(5,8,9) assms, of no_tz cfg])
      (use that oslo_facts(6) in auto)
qed

lemma answer_sent:
  assumes "server_inv s" "pps_locked s" "clock_anchor s \<noteq> None" "last_pps_monotonic_us s = Some 5900000"
  obtains p where "(p, v6_client) \<in> set (fst (poll log2 gps (ai_socket ask_input) s))" "pkt_leap p = pending_leap s" "p ! 1 = 1" "pkt_mode p = 4"
proof -
  let ?rd = "no_readings\<lparr>t_disp := 6000000\<rparr>" and ?req = "time_request"
  let ?dp = "discipline_params log2 gps 6000000 0 None s"
  define p where "p = set_bytes 40 (be64 (current_ntp_timestamp 0 None s)) (build_response (take 48 ?req) ?dp (current_ntp_timestamp 0 None s) MODE_SERVER)"
  have adm: "admitted 48 ?req v6_client s"
    by (simp add: admitted_def wants_service_def v6_client_def src_ip_v4_def time_request_simps)
  have lim: "try_rate_limit (src_ip_v4 v6_client) (t_limit ?rd) s = (True, s)" by (simp add: v6_client_def src_ip_v4_def try_rate_limit_def)
  have h: "handle_datagram log2 gps 48 ?req v6_client ?rd s = (Answered, [(p, v6_client)], record_proc_delay 0 0 s)"
    using limiter_accepts[OF adm lim refl, of log2 gps] by (simp add: p_def no_readings_def time_request_simps)
  have rv: "recv_into (replicate NTP_MAX_PACKET_LEN 0) (take 48 ?req) = (48, ?req)"
    by (simp add: recv_into_def packet_consts time_request_def Let_def)
  have s: "(p, v6_client) \<in> set (fst (poll log2 gps (ai_socket ask_input) s))"
    by (simp add: poll_def ask_input_def rv h split: prod.split)
  have "length (take 48 ?req) = 48" by (simp add: time_request_simps)
  note hd = stamped_header[OF this assms(1) refl p_def]
  have "dp_stratum ?dp = 1" "dp_leap ?dp = pending_leap s" using recent_pulse_served[OF assms(2-4)] by simp_all
  with s hd show thesis using that[of p] by (simp add: packet_consts)
qed

lemma boot_fields:
  assumes "a = boot_app C L cfg cache rtc storage cidr now_us worker p u"
  shows "line_buf (gps_uart a) = []" "pps a = p" "pending_leap (server a) = 0" "\<not> pps_locked (server a)"
  unfolding assms by (cases "boot_utc rtc";
      simp add: boot_app_def Let_def discard_backlog_def init_ntp_server_def apply_boot_acl_def set_acl_def from_socket_def seed_utc_seconds_def)+

lemma oslo_run:
  obtains a where "firmware_run (chip_driver 0 0) gregorian no_tz id 1 [1717761600] [5900000] a" "pps_locked (server a)"
    "clock_anchor (server a) \<noteq> None" "last_pps_monotonic_us (server a) = Some 5900000" "pending_leap (server a) = 0"
proof -
  let ?run = "firmware_run (chip_driver 0 0) gregorian no_tz id 1"
  obtain b a0 where st: "firmware_start gregorian no_tz (chip_driver 0 0) utc_config bare_env (Some ''lan'') (Some ''secret'') '''' 1 (\<lambda>_. 0)
      = Inr (b, a0)" by (rule bare_start)
  then have r0: "?run [] [] a0" by (rule booted)
  obtain worker where w: "a0 = boot_app gregorian no_tz utc_config (bd_cache b) (bd_rtc b) (sd_status (bd_storage b)) '''' 1 worker pps_poll_default uart_new"
    using start_is_boot[OF st] by blast
  have a0: "line_buf (gps_uart a0) = []" "pps a0 = pps_poll_default" "pending_leap (server a0) = 0" "\<not> pps_locked (server a0)"
    by (rule boot_fields[OF w])+
  obtain g u where p: "gps_poll gregorian no_tz (tz_cfg a0) (ai_rx fix_input) (gps_uart a0) = ([On_Snapshot g, On_Fix g], u)"
    "gps_fix g" "utc_unix_seconds g = Some 1717761600" "uart_snapshot u = g"
    by (rule oslo_poll[OF a0(1), of "tz_cfg a0"]) (simp add: fix_input_def)
  obtain o1 a1 where r1: "app_pass gregorian no_tz id 1 fix_input a0 = (o1, a1)" by fastforce
  have s1: "server a1 = observe_pps_pulse 1 None 5900000 (update_gps_utc_seconds 1717761600 5000000 (server a0))"
    using fix_then_pulse[OF p a0(2) _ r1] by (simp add: fix_input_def quiet_input_def poll_def)
  have h1: "pass_fixes gregorian no_tz fix_input a0 = [1717761600]" "pass_edges fix_input a0 = [5900000]"
    using p a0(2) by (simp_all add: pass_fixes_def List.map_filter_def pass_edges_def pps_poll_def pps_poll_default_def fix_input_def quiet_input_def)
  have run1: "?run [1717761600] [5900000] a1" using passed[OF r0 r1] h1 by simp
  have l1: "pps_locked (server a1)" "clock_anchor (server a1) \<noteq> None" "last_pps_monotonic_us (server a1) = Some 5900000"
    "pending_leap (server a1) = 0"
    using s1 a0(3,4) by (simp_all add: observe_pps_pulse_def gps_second_at_edge_def gps_time_fresh_def update_gps_utc_seconds_def Let_def
        lock_anchor_def sat_sub_def sat_i64_def i64_min_def i64_max_def GPS_STALE_THRESHOLD_US_def)
  show thesis by (rule that[OF run1 l1])
qed

theorem sync_claims_grounded_witness:
  "\<exists>a out a' p. firmware_run (chip_driver 0 0) gregorian no_tz id 1 [1717761600] [5900000] a \<and>
    app_pass gregorian no_tz id 1 ask_input a = (out, a') \<and> (p, v6_client) \<in> set out \<and> pkt_leap p = 0 \<and> p ! 1 = 1 \<and>
    (\<exists>bytes rd t. Datagram bytes v6_client rd \<in> set (ai_socket ask_input) \<and> t \<in> set [5900000] \<and> sat_sub (t_disp rd) t < 2008000000)"
proof -
  obtain a where run: "firmware_run (chip_driver 0 0) gregorian no_tz id 1 [1717761600] [5900000] a"
    and l: "pps_locked (server a)" "clock_anchor (server a) \<noteq> None" "last_pps_monotonic_us (server a) = Some 5900000"
      "pending_leap (server a) = 0" by (rule oslo_run)
  obtain out a' where r: "app_pass gregorian no_tz id 1 ask_input a = (out, a')" by fastforce
  have q: "gps_stage gregorian no_tz ask_input a = a"
    by (simp add: gps_stage_def gps_poll_def ask_input_def quiet_input_def)
  obtain p where p: "(p, v6_client) \<in> set (fst (poll id (gps_fix (uart_snapshot (gps_uart (tz_stage gregorian no_tz a)))) (ai_socket ask_input) (server a)))"
    "pkt_leap p = 0" "p ! 1 = 1" "pkt_mode p = 4"
    using answer_sent[OF serves_inv[OF app_serves[OF firmware_reach[OF run]]] l(1-3)] l(4) by metis
  then have s: "(p, v6_client) \<in> set out" using r q by (auto simp: app_pass_def ntp_stage_def Let_def split: prod.splits)
  have "pkt_mode p \<noteq> 6" "pkt_leap p \<noteq> 3 \<or> p ! 1 \<noteq> 0" using p by simp_all
  from sync_claims_grounded[OF run r s this] run r s p(2,3) show ?thesis by blast
qed
end
