(* ===== verification/Spec2Isabelle.thy ===== *)
theory Spec2Isabelle
  imports Pps Rtc Battery Pins Gps Storage Sdlog Card_Web Timezone Wifi Logging Panel Display Ui_Feed Ui_Task App App_Runs App_Props Sd_Worker Drivers Http_Server Boot Panel_Task Interrupts Milestones Firmware
begin

text \<open>
  A model of the firmware of a GPS-disciplined NTP server for the ESP32-S3 (Rust sources under \<open>src/src/\<close>).

  \<^bold>\<open>The program.\<close> A GPS receiver sends NMEA sentences over a UART and a pulse per second (PPS) on a GPIO
  line. The main loop (\<open>app.rs\<close>) polls both about every millisecond, labels each pulse with the UTC second
  of the sentences, disciplines a clock (\<open>ntp/mod.rs\<close>) and answers NTP and mode-6 requests from a UDP
  socket, behind an access list and a rate limiter (\<open>ntp/protection.rs\<close>). A clock chip (\<open>rtc.rs\<close>) seeds the
  server at boot and is set back from trusted time. Other tasks draw a panel (\<open>ui_task.rs\<close>, \<open>display.rs\<close>),
  look up the time zone over HTTP (\<open>timezone.rs\<close>), serve the SD card (\<open>storage.rs\<close>) and mirror the log to it
  (\<open>sdlog.rs\<close>). The tasks share only atomics, channels and the sample feed \<open>UiFeed\<close>.

  \<^bold>\<open>Foundations.\<close> \<open>Prelude\<close>: machine integers (\<open>u8\<close> to \<open>u64\<close> as words, \<open>i64\<close> as int with its wrapping and
  saturating operations), byte order, shared fact collections. \<open>IEEE_Float\<close>: executable single and double
  precision arithmetic with correct rounding; the locale \<open>rounding\<close> carries its error bounds and is
  interpreted for both formats. \<open>Rust_Str\<close>, \<open>Utf8\<close>, \<open>Fmt\<close>: the library operations on strings the code uses;
  strings are lists of UTF-8 bytes. \<open>Calendar\<close>: the contract of the chrono crate as the locale \<open>calendar\<close>,
  interpreted on the Gregorian calendar, which is defined and proved correct there.

  \<^bold>\<open>The NTP server.\<close> \<open>Protection\<close> (\<open>RateLimiter\<close>, \<open>Acl\<close>, \<open>parse_ipv4_cidr\<close>): the limiter refines an unbounded
  table through the locale \<open>rate_gate\<close>; the presets and parsed networks are exact. \<open>Ntp_Time\<close>: timestamps and
  precision. \<open>Discipline\<close>: the record \<open>ntp_server\<close> (the fields of \<open>NtpServer\<close> without the socket) and every
  operation on it; \<open>Servo\<close> and \<open>Quality\<close>: what the servo does to the second count and the frequency, and the
  figures served. \<open>Packets\<close>: every byte of the three kinds of packet. \<open>Ntp_Poll\<close>: the receive loop on a list of
  socket results. \<open>Server\<close>: the histories of server events (\<open>server_run\<close>), its invariant, GPS steps, bootstrap.

  \<^bold>\<open>The receivers and chips.\<close> \<open>Pps\<close>: the interrupt handler and the sequence-locked reader as a step relation
  (\<open>pps_step\<close>, one atomic access per step), and polling. \<open>Interrupts\<close>: the PPS device and the button line, whose
  interrupts disable themselves when they fire; the locale \<open>one_shot\<close> shows that neither goes deaf. \<open>Nmea\<close>, \<open>Gps\<close>: checksum, field parsers, RMC and GGA,
  line assembly, dispatch. \<open>I2c_Bus\<close>, \<open>Rtc\<close>, \<open>Battery\<close>: the bus as a parameter, a register chip as the locale
  \<open>register_device\<close>, the PCF8523 as its extension \<open>pcf8523\<close>, both interpreted on a simulated chip. \<open>Pins\<close>: the
  registry of GPIO owners behind the locale \<open>ownership\<close>. \<open>Drivers\<close>: fallible calls, the \<open>?\<close> operator, thread
  spawning and pin claims, as the \<open>init\<close> functions use them, and the pool a boot stage leaves.

  \<^bold>\<open>The card, the network, the log.\<close> \<open>Storage\<close>: the deadline of a card call and its watchdog, mounting,
  free-space samples. \<open>Sd_Worker\<close>: the worker thread and its clients as a step relation (\<open>sd_step\<close>), one card
  access per step; calls are served one at a time, each returns, and the deadline follows the worker.
  \<open>Sdlog\<close>, \<open>Card_Web\<close>, \<open>Http_Server\<close>: the log queue, the writer and rotation, the HTTP handlers and their routes.
  \<open>Timezone\<close>: the lookup, its worker thread as a step relation (\<open>tz_step\<close>), the caches. \<open>Wifi\<close>, \<open>Logging\<close>:
  credentials, connection sequence, log levels.

  \<^bold>\<open>The user interface and the main loop.\<close> \<open>Panel\<close>, \<open>Display\<close>: pages, viewport, labels, page texts. \<open>Ui_Feed\<close>,
  \<open>Ui_Task\<close>: the feed, sensor sampling, the button task, and the redraw protocol as a step relation
  (\<open>ui_step\<close>). \<open>Panel_Task\<close>: a whole pass of the panel task, which implements that protocol, keeps its samples
  fresh and shows what the receiver said. \<open>App\<close>: the locals of \<open>run\<close> as the record \<open>app\<close>, each statement group of the loop as a stage, and
  \<open>app_pass\<close> as their composition. \<open>App_Runs\<close>: the main loop interleaved with the lookup thread and the panel
  task; every reachable state holds a server state that \<open>server_run\<close> reaches, so the server theorems hold of
  the firmware. \<open>App_Props\<close>: from RMC sentence to served time, and what is written to the clock chip.
  \<open>Milestones\<close>: the messages of the self-checks. \<open>Boot\<close>: \<open>BoardBoot::boot\<close> call by call (\<open>board_boot\<close>), with the
  \<open>init\<close> functions of the drivers, and \<open>run\<close> up to its loop (\<open>firmware_start\<close>): what the boot needs, which lines it
  leaves with whom, and that the loop starts in a state the reachability of \<open>App_Runs\<close> starts from. \<open>Firmware\<close>:
  histories of the booted device (\<open>firmware_run\<close>), with the fixes and edges it saw, and what its packets may claim.

  \<^bold>\<open>Conventions.\<close> Readings of a clock, results of a driver and lock outcomes are arguments, one per reading of
  the code; so a theorem holds for every sequence of readings its hypotheses admit. Errors and panics are
  values of a sum or option type, or of a result datatype. Plain \<open>i64\<close> arithmetic wraps, as in a release build.
  A property with hypotheses is followed by a witness that applies it to a concrete input.

  \<^bold>\<open>Bounds.\<close> Loops of the code are structural recursion or have a termination proof; no fuel is used. The
  second count is exact over gaps of up to 189 missed pulses, the frequency-corrected clock for elapsed times
  below the limits named in \<open>Servo\<close>, the redraw protocol for fewer than \<open>2 ^ 32\<close> requests, the watchdog for
  fewer than \<open>2 ^ 32\<close> nested calls, the clock chip for the years 2020 to 2099.

  \<^bold>\<open>Not modelled.\<close> The drivers of UART, SPI, SD card, ST7789 panel, I2C, Wi-Fi and mDNS and the rendering of
  glyphs: third-party code, whose calls appear by name with their success as an input. An error carries the context message of
  the code without the driver's own text. The priorities and stack sizes of the threads; messages that are only logged, but
  for the self-checks; weak memory effects beyond the acquire and release orderings the code states. That a GPIO
  interrupt is disabled when it fires is the behaviour of ESP-IDF the code states and relies on. The entry point
  and the crate root hold no logic.
\<close>

end
